(* ===== verification/Go_Prelude.thy ===== *)
theory Go_Prelude
  imports Main "HOL-Library.Sublist"
begin

text \<open>
  What the components share: the parts of the Go language and of its standard library
  that the modelled sources use.

  A Go \<open>string\<close> and a \<open>[]byte\<close> are both a \<^typ>\<open>string\<close>: a list of 8-bit characters, so
  that \<open>len\<close> counts bytes. A Go \<open>int\<close> is an \<^typ>\<open>int\<close>; it is 64 bits wide, and \<open>i64\<close> is
  its wrap-around, applied where a number read from the input can reach the limits. A run-time panic
  (an index or a slice bound out of range) is the value \<^term>\<open>None\<close>, a returned error is
  \<^term>\<open>Inl\<close> of it.
\<close>

section \<open>Bytes and lines\<close>

abbreviation NL :: char where "NL \<equiv> CHR 0x0A"
abbreviation CR :: char where "CR \<equiv> CHR 0x0D"
abbreviation TAB :: char where "TAB \<equiv> CHR 0x09"
abbreviation SP :: char where "SP \<equiv> CHR 0x20"
abbreviation NUL :: char where "NUL \<equiv> CHR 0x00"
abbreviation BSL :: char where "BSL \<equiv> CHR 0x5C"

text \<open>\<open>strings.HasPrefix (s, p)\<close> and \<open>strings.HasSuffix (s, "c")\<close> for a single byte.\<close>

definition hasPrefix :: "string \<Rightarrow> string \<Rightarrow> bool" where
  "hasPrefix s p = (take (length p) s = p)"

definition hasSuffixByte :: "string \<Rightarrow> char \<Rightarrow> bool" where
  "hasSuffixByte s c = (s \<noteq> [] \<and> last s = c)"

text \<open>\<open>strings.TrimSuffix (s, "c")\<close>, \<open>strings.TrimLeft (s, cutset)\<close>, \<open>strings.TrimRight (s, cutset)\<close>.\<close>

definition trimSuffixByte :: "string \<Rightarrow> char \<Rightarrow> string" where
  "trimSuffixByte s c = (if hasSuffixByte s c then butlast s else s)"

definition trimLeft :: "string \<Rightarrow> string \<Rightarrow> string" where
  "trimLeft s cs = dropWhile (\<lambda>c. c \<in> set cs) s"

definition trimRight :: "string \<Rightarrow> string \<Rightarrow> string" where
  "trimRight s cs = rev (dropWhile (\<lambda>c. c \<in> set cs) (rev s))"

text \<open>
  \<open>strings.TrimSpace\<close>: the UTF-8 encodings of the Unicode white space, stripped on both sides. An
  encoding at either end is what \<open>utf8.DecodeRune\<close> and \<open>utf8.DecodeLastRune\<close> read there, since
  none is part of a longer one.
\<close>

definition spaceCodes :: "string list" where
  "spaceCodes = [[CHR 0x09], [CHR 0x0A], [CHR 0x0B], [CHR 0x0C], [CHR 0x0D], [CHR 0x20],
     [CHR 0xC2, CHR 0x85], [CHR 0xC2, CHR 0xA0], [CHR 0xE1, CHR 0x9A, CHR 0x80]] @
     map (\<lambda>n. [CHR 0xE2, CHR 0x80, char_of n]) ([128..<139] @ [168, 169, 175 :: nat]) @
     [[CHR 0xE2, CHR 0x81, CHR 0x9F], [CHR 0xE3, CHR 0x80, CHR 0x80]]"

function stripCodes :: "string list \<Rightarrow> string \<Rightarrow> string" where
  "stripCodes codes s =
     (case filter (\<lambda>p. p \<noteq> [] \<and> hasPrefix s p) codes of
        [] \<Rightarrow> s
      | p # _ \<Rightarrow> stripCodes codes (drop (length p) s))"
  by pat_completeness auto
termination
proof (relation "measure (\<lambda>(_, s). length s)", goal_cases)
  case (2 codes s p ps)
  then have "p \<in> set (filter (\<lambda>p. p \<noteq> [] \<and> hasPrefix s p) codes)" by (metis list.set_intros(1))
  then have "p \<noteq> []" "hasPrefix s p" by auto
  then have "s \<noteq> []" by (auto simp: hasPrefix_def)
  with \<open>p \<noteq> []\<close> show ?case by simp
qed simp

declare stripCodes.simps [simp del]

definition trimSpace :: "string \<Rightarrow> string" where
  "trimSpace s = rev (stripCodes (map rev spaceCodes) (rev (stripCodes spaceCodes s)))"

text \<open>\<open>strings.Split (s, "c")\<close> and \<open>strings.Join (ls, "c")\<close> for a one-byte separator.\<close>

fun splitByte :: "char \<Rightarrow> string \<Rightarrow> string list" where
  "splitByte c [] = [[]]"
| "splitByte c (x # xs) =
     (if x = c then [] # splitByte c xs
      else (case splitByte c xs of [] \<Rightarrow> [[x]] | w # ws \<Rightarrow> (x # w) # ws))"

fun joinByte :: "char \<Rightarrow> string list \<Rightarrow> string" where
  "joinByte c [] = []"
| "joinByte c [l] = l"
| "joinByte c (l # ls) = l @ c # joinByte c ls"

text \<open>
  The bytes written by one \<open>fmt.Fprintln (w, line)\<close> (or one \<open>Fprintf\<close> whose format ends in
  a newline) per line.
\<close>

fun unlines :: "string list \<Rightarrow> string" where
  "unlines [] = []"
| "unlines (l # ls) = l @ NL # unlines ls"

section \<open>Numbers\<close>

definition i64 :: "int \<Rightarrow> int" where
  "i64 x = (x + 2 ^ 63) mod 2 ^ 64 - 2 ^ 63"

abbreviation maxInt :: int where "maxInt \<equiv> 2 ^ 63 - 1"

text \<open>A slice that fits the address space, with room for the sums of lengths the sources form.\<close>

definition fits :: "'a list \<Rightarrow> bool" where
  "fits xs = (int (length xs) < 2 ^ 61)"

definition isDigit :: "char \<Rightarrow> bool" where
  "isDigit c = (48 \<le> (of_char c :: nat) \<and> (of_char c :: nat) \<le> 57)"

definition digitChar :: "nat \<Rightarrow> char" where
  "digitChar d = char_of (48 + d)"

definition digitVal :: "char \<Rightarrow> nat" where
  "digitVal c = of_char c - 48"

fun itoaNat :: "nat \<Rightarrow> string" where
  "itoaNat n = (if n < 10 then [digitChar n] else itoaNat (n div 10) @ [digitChar (n mod 10)])"

declare itoaNat.simps [simp del]

text \<open>\<open>strconv.Itoa\<close>, also the verb \<open>%d\<close> of \<open>fmt\<close>.\<close>

definition Itoa :: "int \<Rightarrow> string" where
  "Itoa i = (if i < 0 then CHR ''-'' # itoaNat (nat (- i)) else itoaNat (nat i))"

definition digitsVal :: "string \<Rightarrow> nat" where
  "digitsVal s = foldl (\<lambda>acc c. 10 * acc + digitVal c) 0 s"

text \<open>
  \<open>strconv.Atoi\<close> on a non-empty string of digits, which is all the sources hand it: the value,
  or the largest \<open>int\<close> together with an error when it does not fit.
\<close>

definition atoiFits :: "string \<Rightarrow> bool" where
  "atoiFits s = (int (digitsVal s) \<le> maxInt)"

definition Atoi :: "string \<Rightarrow> int" where
  "Atoi s = (if atoiFits s then int (digitsVal s) else maxInt)"

definition clampInt :: "int \<Rightarrow> int \<Rightarrow> int \<Rightarrow> int" where
  "clampInt v lo hi = (if v < lo then lo else if v > hi then hi else v)"

section \<open>Slices\<close>

text \<open>\<open>xs[lo:hi]\<close> and \<open>xs[i]\<close> with the run-time bounds check.\<close>

definition goSlice :: "'a list \<Rightarrow> int \<Rightarrow> int \<Rightarrow> 'a list option" where
  "goSlice xs lo hi =
     (if 0 \<le> lo \<and> lo \<le> hi \<and> hi \<le> int (length xs)
      then Some (take (nat hi - nat lo) (drop (nat lo) xs)) else None)"

definition index :: "'a list \<Rightarrow> int \<Rightarrow> 'a option" where
  "index xs i = (if 0 \<le> i \<and> i < int (length xs) then Some (xs ! nat i) else None)"

named_theorems go_string \<open>string routines of the standard library\<close>
named_theorems go_slice \<open>bounds-checked access\<close>

section \<open>Lemmas on bytes and lines\<close>

lemma hasPrefix_append [go_string, simp]: "hasPrefix (p @ s) p"
  by (simp add: hasPrefix_def)

lemma hasPrefix_Cons [go_string]:
  "hasPrefix (x # s) (y # p) \<longleftrightarrow> x = y \<and> hasPrefix s p"
  "hasPrefix s []"
  "\<not> hasPrefix [] (y # p)"
  by (auto simp: hasPrefix_def)

lemma hasPrefix_iff: "hasPrefix s p \<longleftrightarrow> (\<exists>r. s = p @ r)"
  unfolding hasPrefix_def by (metis append_eq_conv_conj append_take_drop_id)

lemma splitByte_not_Nil [simp]: "splitByte c s \<noteq> []"
  by (induction s) (auto split: list.splits)

lemma splitByte_no_sep: "c \<notin> set s \<Longrightarrow> splitByte c s = [s]"
  by (induction s) auto

lemma splitByte_append_sep:
  "c \<notin> set l \<Longrightarrow> splitByte c (l @ c # s) = l # splitByte c s"
  by (induction l) auto

lemma splitByte_parts: "l \<in> set (splitByte c s) \<Longrightarrow> c \<notin> set l"
  by (induction s arbitrary: l) (auto split: list.splits if_splits)

lemma joinByte_Cons: "ls \<noteq> [] \<Longrightarrow> joinByte c (l # ls) = l @ c # joinByte c ls"
  by (cases ls) auto

lemma joinByte_splitByte [simp]: "joinByte c (splitByte c s) = s"
proof (induction s)
  case (Cons x s)
  then show ?case
    by (cases "splitByte c s") (auto simp: joinByte_Cons split: list.splits,
        metis joinByte.simps(2) joinByte_Cons append_Cons neq_Nil_conv)
qed simp

lemma splitByte_joinByte:
  assumes "ls \<noteq> []" and "\<forall>l \<in> set ls. c \<notin> set l"
  shows "splitByte c (joinByte c ls) = ls"
  using assms
proof (induction ls rule: joinByte.induct)
  case (3 c l v va)
  then show ?case by (simp add: splitByte_append_sep)
qed (auto simp: splitByte_no_sep)

lemma splitByte_snoc: "splitByte c (s @ [c]) = splitByte c s @ [[]]"
  by (induction s) (auto split: list.splits)

lemma hasSuffixByte_conv: "hasSuffixByte s c \<longleftrightarrow> (\<exists>d. s = d @ [c])"
  by (cases s rule: rev_cases) (auto simp: hasSuffixByte_def)

lemma unlines_append [simp]: "unlines (xs @ ys) = unlines xs @ unlines ys"
  by (induction xs) auto

lemma unlines_eq_Nil [simp]: "unlines ls = [] \<longleftrightarrow> ls = []"
  by (cases ls) auto

lemma last_unlines: "ls \<noteq> [] \<Longrightarrow> last (unlines ls) = NL"
  by (induction ls) auto

lemma splitByte_unlines:
  "\<forall>l \<in> set ls. NL \<notin> set l \<Longrightarrow> splitByte NL (unlines ls) = ls @ [[]]"
  by (induction ls) (auto simp: splitByte_append_sep)

lemma unlines_joinByte: "ls \<noteq> [] \<Longrightarrow> joinByte NL ls @ [NL] = unlines ls"
  by (induction NL ls rule: joinByte.induct) auto

section \<open>Lemmas on numbers\<close>

lemma i64_id: "- (2 ^ 63) \<le> x \<Longrightarrow> x < 2 ^ 63 \<Longrightarrow> i64 x = x"
  by (simp add: i64_def)

lemma i64_0 [simp]: "i64 0 = 0"
  by (simp add: i64_def)

lemma i64_range: "- (2 ^ 63) \<le> i64 x \<and> i64 x < 2 ^ 63"
  by (simp add: i64_def)

lemma digitVal_digitChar: "d < 10 \<Longrightarrow> digitVal (digitChar d) = d"
  by (simp add: digitVal_def digitChar_def)

lemma isDigit_digitChar: "d < 10 \<Longrightarrow> isDigit (digitChar d)"
  by (simp add: isDigit_def digitChar_def)

lemma itoaNat_not_Nil [simp]: "itoaNat n \<noteq> []"
  by (subst itoaNat.simps) simp

lemma itoaNat_digits: "c \<in> set (itoaNat n) \<Longrightarrow> isDigit c"
proof (induction n rule: itoaNat.induct)
  case (1 n)
  then show ?case
    by (subst (asm) (2) itoaNat.simps) (auto simp: isDigit_digitChar split: if_splits)
qed

lemma digitsVal_snoc: "digitsVal (s @ [c]) = 10 * digitsVal s + digitVal c"
  by (simp add: digitsVal_def)

lemma digitsVal_itoaNat [simp]: "digitsVal (itoaNat n) = n"
proof (induction n rule: itoaNat.induct)
  case (1 n)
  show ?case
  proof (cases "n < 10")
    case True
    then show ?thesis
      by (subst itoaNat.simps) (simp add: digitsVal_def digitVal_digitChar)
  next
    case False
    with 1 show ?thesis
      by (subst itoaNat.simps) (simp add: digitsVal_snoc digitVal_digitChar)
  qed
qed

lemma Itoa_of_nat [simp]: "0 \<le> i \<Longrightarrow> Itoa i = itoaNat (nat i)"
  by (simp add: Itoa_def)

lemma Atoi_itoaNat: "int n \<le> maxInt \<Longrightarrow> Atoi (itoaNat n) = int n"
  by (simp add: Atoi_def atoiFits_def)

lemma isDigit_not:
  "\<not> isDigit NL" "\<not> isDigit CR" "\<not> isDigit SP" "\<not> isDigit TAB" "\<not> isDigit CHR '',''"
  "\<not> isDigit CHR ''-''" "\<not> isDigit CHR ''+''" "\<not> isDigit CHR ''a''" "\<not> isDigit CHR ''c''"
  "\<not> isDigit CHR ''d''" "\<not> isDigit BSL" "\<not> isDigit CHR ''@''" "\<not> isDigit CHR ''*''"
  "\<not> isDigit CHR ''.''" "\<not> isDigit CHR ''s''" "\<not> isDigit CHR ''i''"
  by (simp_all add: isDigit_def)

lemma itoaNat_no: "\<not> isDigit c \<Longrightarrow> c \<notin> set (itoaNat n)"
  using itoaNat_digits by blast

section \<open>Lemmas on slices\<close>

lemma slice_Some [go_slice]:
  "0 \<le> lo \<Longrightarrow> lo \<le> hi \<Longrightarrow> hi \<le> int (length xs) \<Longrightarrow>
   goSlice xs lo hi = Some (take (nat hi - nat lo) (drop (nat lo) xs))"
  by (simp add: goSlice_def)

lemma slice_nat [go_slice]:
  "i \<le> j \<Longrightarrow> j \<le> length xs \<Longrightarrow> goSlice xs (int i) (int j) = Some (take (j - i) (drop i xs))"
  by (simp add: goSlice_def)

lemma slice_eq_Some_iff:
  "goSlice xs lo hi = Some ys \<longleftrightarrow>
     0 \<le> lo \<and> lo \<le> hi \<and> hi \<le> int (length xs) \<and> ys = take (nat hi - nat lo) (drop (nat lo) xs)"
  by (auto simp: goSlice_def)

lemma index_nat [go_slice]: "i < length xs \<Longrightarrow> index xs (int i) = Some (xs ! i)"
  by (simp add: index_def)

lemma index_eq_Some_iff:
  "index xs i = Some x \<longleftrightarrow> 0 \<le> i \<and> i < int (length xs) \<and> x = xs ! nat i"
  by (auto simp: index_def)

lemma clampInt_bounds: "lo \<le> hi \<Longrightarrow> lo \<le> clampInt v lo hi \<and> clampInt v lo hi \<le> hi"
  by (simp add: clampInt_def)

lemma clampInt_id: "lo \<le> v \<Longrightarrow> v \<le> hi \<Longrightarrow> clampInt v lo hi = v"
  by (simp add: clampInt_def)

section \<open>Lemmas on lists\<close>

lemma list_all_take_takeWhile: "k \<le> length (takeWhile P xs) \<Longrightarrow> list_all P (take k xs)"
  by (induction xs arbitrary: k) (auto simp: take_Cons' split: if_splits)

lemma list_all_drop_takeWhile_rev:
  "k \<le> length (takeWhile P (rev xs)) \<Longrightarrow> list_all P (drop (length xs - k) xs)"
  using list_all_take_takeWhile [of k P "rev xs"] by (simp add: take_rev list_all_rev)

lemma i64_over: assumes "2 ^ 63 \<le> x" "x < 3 * 2 ^ 63" shows "i64 x = x - 2 ^ 64"
proof -
  have "x + 2 ^ 63 = (x - 2 ^ 63) + 2 ^ 64" by simp
  then have "(x + 2 ^ 63) mod 2 ^ 64 = (x - 2 ^ 63) mod 2 ^ 64" by (simp only: mod_add_self2)
  also have "\<dots> = x - 2 ^ 63" using assms by (intro mod_pos_pos_trivial) simp_all
  finally show ?thesis by (simp add: i64_def)
qed

lemma i64_small: "\<bar>x\<bar> < 2 ^ 63 \<Longrightarrow> i64 x = x"
  by (rule i64_id) auto

end
