(* ===== verification/Patch_Types.thy ===== *)
theory Patch_Types
  imports Go_Prelude
begin

text \<open>
  The data of \<open>pkg/patch\<close> (\<open>types.go\<close>): the parsed form of a patch, independent of the
  notation it was written in, and what \<open>apply.go\<close> reports about placing its hunks.
\<close>

datatype Format = FormatUnified | FormatContext | FormatNormal

definition formatString :: "Format \<Rightarrow> string" where
  "formatString f = (case f of
     FormatUnified \<Rightarrow> ''unified'' | FormatContext \<Rightarrow> ''context'' | FormatNormal \<Rightarrow> ''normal'')"

datatype LineKind = LineContext | LineDelete | LineAdd

record HunkLine =
  Kind :: LineKind
  Text :: string
  NoEOL :: bool

record Hunk =
  OldStart :: int
  OldCount :: int
  NewStart :: int
  NewCount :: int
  Lines :: "HunkLine list"

record FilePatch =
  OldName :: string
  NewName :: string
  IndexName :: string
  PatchFormat :: Format
  Hunks :: "Hunk list"
  RenameFrom :: string
  RenameTo :: string
  Unsupported :: string

definition DevNull :: string where
  "DevNull = ''/dev/null''"

definition IsCreate :: "FilePatch \<Rightarrow> bool" where
  "IsCreate fp = (OldName fp = DevNull \<and> NewName fp \<noteq> DevNull)"

definition IsDelete :: "FilePatch \<Rightarrow> bool" where
  "IsDelete fp = (NewName fp = DevNull \<and> OldName fp \<noteq> DevNull)"

text \<open>The options and the reports of \<open>apply.go\<close>.\<close>

record ApplyOptions =
  Reverse :: bool
  Fuzz :: int
  IgnoreWhitespace :: bool
  Force :: bool

datatype HunkOutcome = HunkApplied | HunkAppliedFuzzy | HunkAlreadyApplied | HunkFailed

record HunkReport =
  Index :: int
  Outcome :: HunkOutcome
  FuzzUsed :: int
  At :: int

record Result =
  ResLines :: "string list"
  NoFinalNewline :: bool
  Reports :: "HunkReport list"
  Rejects :: "Hunk list"

definition AllApplied :: "Result \<Rightarrow> bool" where
  "AllApplied r = list_all (\<lambda>rep. Outcome rep \<noteq> HunkFailed) (Reports r)"

text \<open>The two sides of a hunk body.\<close>

definition oldSeq :: "HunkLine list \<Rightarrow> string list" where
  "oldSeq ls = map Text (filter (\<lambda>l. Kind l \<noteq> LineAdd) ls)"

definition newSeq :: "HunkLine list \<Rightarrow> string list" where
  "newSeq ls = map Text (filter (\<lambda>l. Kind l \<noteq> LineDelete) ls)"

definition reverseLine :: "HunkLine \<Rightarrow> HunkLine" where
  "reverseLine l = (case Kind l of
     LineDelete \<Rightarrow> l\<lparr>Kind := LineAdd\<rparr> | LineAdd \<Rightarrow> l\<lparr>Kind := LineDelete\<rparr> | LineContext \<Rightarrow> l)"

definition reverseHunk :: "Hunk \<Rightarrow> Hunk" where
  "reverseHunk h =
     \<lparr>OldStart = NewStart h, OldCount = NewCount h, NewStart = OldStart h, NewCount = OldCount h,
      Lines = map reverseLine (Lines h)\<rparr>"

lemma oldSeq_simps [simp]:
  "oldSeq [] = []"
  "oldSeq (l # ls) = (if Kind l = LineAdd then oldSeq ls else Text l # oldSeq ls)"
  "oldSeq (xs @ ys) = oldSeq xs @ oldSeq ys"
  by (simp_all add: oldSeq_def)

lemma newSeq_simps [simp]:
  "newSeq [] = []"
  "newSeq (l # ls) = (if Kind l = LineDelete then newSeq ls else Text l # newSeq ls)"
  "newSeq (xs @ ys) = newSeq xs @ newSeq ys"
  by (simp_all add: newSeq_def)

lemma length_oldSeq: "length (oldSeq ls) \<le> length ls"
  by (simp add: oldSeq_def)

lemma length_newSeq: "length (newSeq ls) \<le> length ls"
  by (simp add: newSeq_def)

lemma reverseLine_simps [simp]:
  "Text (reverseLine l) = Text l"
  "NoEOL (reverseLine l) = NoEOL l"
  "Kind (reverseLine l) = LineAdd \<longleftrightarrow> Kind l = LineDelete"
  "Kind (reverseLine l) = LineDelete \<longleftrightarrow> Kind l = LineAdd"
  "Kind (reverseLine l) = LineContext \<longleftrightarrow> Kind l = LineContext"
  by (cases "Kind l"; simp add: reverseLine_def)+

lemma reverseLine_invol [simp]: "reverseLine (reverseLine l) = l"
  by (cases "Kind l"; simp add: reverseLine_def)

lemma oldSeq_reverse [simp]: "oldSeq (map reverseLine ls) = newSeq ls"
  by (induction ls) auto

lemma newSeq_reverse [simp]: "newSeq (map reverseLine ls) = oldSeq ls"
  by (induction ls) auto

lemma reverseHunk_invol: "reverseHunk (reverseHunk h) = h"
  by (simp add: reverseHunk_def o_def)

lemma reverseHunk_simps [simp]:
  "OldStart (reverseHunk h) = NewStart h" "OldCount (reverseHunk h) = NewCount h"
  "NewStart (reverseHunk h) = OldStart h" "NewCount (reverseHunk h) = OldCount h"
  "Lines (reverseHunk h) = map reverseLine (Lines h)"
  by (simp_all add: reverseHunk_def)

end
