(* ===== verification/Patch_Parse.thy ===== *)
theory Patch_Parse
  imports Patch_Types
begin

text \<open>
  \<open>pkg/patch/parse.go\<close>: reading unified, context, normal and git-wrapped diffs. The position
  \<open>i\<close> in the slice of lines is the list of the lines from \<open>i\<close> on. The regular expressions are
  written out as recognisers that return their submatches. A returned error is a value of
  \<open>ParseError\<close>, one constructor per message.
\<close>

section \<open>Physical lines\<close>

record rawLine =
  rawText :: string
  rawNoEOL :: bool

fun markLastRaw :: "rawLine list \<Rightarrow> rawLine list" where
  "markLastRaw [] = []"
| "markLastRaw [l] = [l\<lparr>rawNoEOL := True\<rparr>]"
| "markLastRaw (l # ls) = l # markLastRaw ls"

definition splitRawLines :: "string \<Rightarrow> rawLine list" where
  "splitRawLines s =
     (let trailingNL = hasSuffixByte s NL
      in if s = [] then []
         else let parts0 = splitByte NL s;
                  parts = (if trailingNL then butlast parts0 else parts0);
                  out = map (\<lambda>p. \<lparr>rawText = trimSuffixByte p CR, rawNoEOL = False\<rparr>) parts
              in if \<not> trailingNL then markLastRaw out else out)"

section \<open>The regular expressions\<close>

text \<open>\<open>eat p s\<close>: the literal \<open>p\<close>, and what follows it.\<close>

definition eat :: "string \<Rightarrow> string \<Rightarrow> string option" where
  "eat p s = (if hasPrefix s p then Some (drop (length p) s) else None)"

text \<open>\<open>(\d+)\<close>; the expressions always continue with a byte that is not a digit, so the run is maximal.\<close>

definition digits1 :: "string \<Rightarrow> (string \<times> string) option" where
  "digits1 s = (let d = takeWhile isDigit s in if d = [] then None else Some (d, dropWhile isDigit s))"

text \<open>\<open>(\d+)(?:,(\d+))?\<close>; the second submatch is empty when the group does not take part.\<close>

definition rangeRe :: "string \<Rightarrow> (string \<times> string \<times> string) option" where
  "rangeRe s =
     (case digits1 s of
        None \<Rightarrow> None
      | Some (d, r) \<Rightarrow>
          (case r of
             [] \<Rightarrow> Some (d, [], r)
           | c # r' \<Rightarrow>
               if c = CHR '','' then
                 (case digits1 r' of None \<Rightarrow> Some (d, [], r) | Some (e, r2) \<Rightarrow> Some (d, e, r2))
               else Some (d, [], r)))"

definition isReSpace :: "char \<Rightarrow> bool" where
  "isReSpace c = (c = TAB \<or> c = NL \<or> c = CHR 0x0C \<or> c = CR \<or> c = SP)"

text \<open>\<open>^@@ -(\d+)(?:,(\d+))? \+(\d+)(?:,(\d+))? @@\<close>\<close>

definition unifiedHunkRe :: "string \<Rightarrow> (string \<times> string \<times> string \<times> string) option" where
  "unifiedHunkRe s =
     (case eat ''@@ -'' s of None \<Rightarrow> None | Some s1 \<Rightarrow>
      (case rangeRe s1 of None \<Rightarrow> None | Some (m1, m2, s2) \<Rightarrow>
       (case eat '' +'' s2 of None \<Rightarrow> None | Some s3 \<Rightarrow>
        (case rangeRe s3 of None \<Rightarrow> None | Some (m3, m4, s4) \<Rightarrow>
         (case eat '' @@'' s4 of None \<Rightarrow> None | Some s5 \<Rightarrow> Some (m1, m2, m3, m4))))))"

text \<open>\<open>^\*{9,}\s*$\<close>\<close>

definition contextSepRe :: "string \<Rightarrow> bool" where
  "contextSepRe s =
     (length (takeWhile (\<lambda>c. c = CHR ''*'') s) \<ge> 9 \<and>
      list_all isReSpace (dropWhile (\<lambda>c. c = CHR ''*'') s))"

text \<open>\<open>^\*\*\* (\d+)(?:,(\d+))? \*\*\*\*\s*$\<close> and \<open>^--- (\d+)(?:,(\d+))? ----\s*$\<close>\<close>

definition contextRangeRe :: "string \<Rightarrow> string \<Rightarrow> string \<Rightarrow> (string \<times> string) option" where
  "contextRangeRe lead trail s =
     (case eat lead s of None \<Rightarrow> None | Some s1 \<Rightarrow>
      (case rangeRe s1 of None \<Rightarrow> None | Some (m1, m2, s2) \<Rightarrow>
       (case eat trail s2 of None \<Rightarrow> None | Some s3 \<Rightarrow>
          if list_all isReSpace s3 then Some (m1, m2) else None)))"

definition contextOldRe :: "string \<Rightarrow> (string \<times> string) option" where
  "contextOldRe s = contextRangeRe ''*** '' '' ****'' s"

definition contextNewRe :: "string \<Rightarrow> (string \<times> string) option" where
  "contextNewRe s = contextRangeRe ''--- '' '' ----'' s"

text \<open>\<open>^(\d+)(?:,(\d+))?([acd])(\d+)(?:,(\d+))?$\<close>\<close>

definition normalHunkRe :: "string \<Rightarrow> (string \<times> string \<times> char \<times> string \<times> string) option" where
  "normalHunkRe s =
     (case rangeRe s of
        Some (m1, m2, op # s1) \<Rightarrow>
          if op = CHR ''a'' \<or> op = CHR ''c'' \<or> op = CHR ''d''
          then (case rangeRe s1 of Some (m4, m5, []) \<Rightarrow> Some (m1, m2, op, m4, m5) | _ \<Rightarrow> None)
          else None
      | _ \<Rightarrow> None)"

text \<open>
  \<open>^diff --git a/(.+) b/(.+)$\<close>: the first group is greedy, so the split is at the last
  \<open>" b/"\<close> that leaves both groups non-empty.
\<close>

fun lastSplit :: "string \<Rightarrow> string \<Rightarrow> nat \<Rightarrow> (string \<times> string) option" where
  "lastSplit sep s 0 = None"
| "lastSplit sep s (Suc k) =
     (case eat sep (drop (Suc k) s) of
        Some r \<Rightarrow> if r \<noteq> [] then Some (take (Suc k) s, r) else lastSplit sep s k
      | None \<Rightarrow> lastSplit sep s k)"

definition gitDiffRe :: "string \<Rightarrow> (string \<times> string) option" where
  "gitDiffRe s = (case eat ''diff --git a/'' s of None \<Rightarrow> None | Some r \<Rightarrow> lastSplit '' b/'' r (length r))"

definition isPatchControlLine :: "string \<Rightarrow> bool" where
  "isPatchControlLine line =
     (hasPrefix line ''Index:'' \<or> hasPrefix line ''diff --git '' \<or> hasPrefix line ''--- '' \<or>
      hasPrefix line ''*** '' \<or> normalHunkRe line \<noteq> None)"

text \<open>The lines from \<open>start\<close> on; \<^term>\<open>None\<close> stands for the result \<open>false\<close>.\<close>

definition stripPatchIndentAt :: "rawLine list \<Rightarrow> rawLine list option" where
  "stripPatchIndentAt lines =
     (case lines of
        [] \<Rightarrow> None
      | l # ls \<Rightarrow>
          let trimmed = trimLeft (rawText l) [SP, TAB]
          in if trimmed = rawText l \<or> \<not> isPatchControlLine trimmed then None
             else let prefix = take (length (rawText l) - length trimmed) (rawText l)
                  in Some (map (\<lambda>x. if hasPrefix (rawText x) prefix
                                    then x\<lparr>rawText := drop (length prefix) (rawText x)\<rparr> else x) lines))"

section \<open>Headers\<close>

definition extractName :: "string \<Rightarrow> string" where
  "extractName rest =
     (if TAB \<in> set rest then takeWhile (\<lambda>c. c \<noteq> TAB) rest else trimRight rest [SP, TAB])"

definition unifiedRangeVal :: "int \<Rightarrow> bool \<Rightarrow> int \<Rightarrow> int \<times> int" where
  "unifiedRangeVal num hasCount count =
     (if \<not> hasCount then (num - 1, 1) else if count = 0 then (num, 0) else (num - 1, count))"

definition atoiDefault :: "string \<Rightarrow> int \<Rightarrow> int" where
  "atoiDefault s def = (if s = [] then def else if atoiFits s then Atoi s else def)"

text \<open>\<open>contextRangeVal\<close> returns \<open>(explicit, start0, count)\<close>; the last is the number itself when it stands alone.\<close>

definition contextRangeVal :: "bool \<Rightarrow> int \<Rightarrow> int \<Rightarrow> bool \<times> int \<times> int" where
  "contextRangeVal hasSecond first second =
     (if hasSecond then (True, first - 1, i64 (second - first + 1)) else (False, 0, first))"

definition resolveContextStart :: "bool \<Rightarrow> int \<Rightarrow> int \<Rightarrow> int \<Rightarrow> int \<times> int" where
  "resolveContextStart hasSecond first second actualCount =
     (let (explicit, s0, headerCount) = contextRangeVal hasSecond first second
      in if explicit then (s0, headerCount) else (first - actualCount, actualCount))"

datatype ParseError =
    MalformedUnifiedHeader string
  | EndInsideHunk string
  | UnexpectedInUnified string
  | EndAfterSeparator
  | ExpectedOldRange string
  | ExpectedNewRangeEnd
  | ExpectedNewRange string
  | ExpectedSeparator string
  | RanOutOfInput int string
  | ExpectedPrefix string string
  | NoNormalHunks
  | NoHunks

section \<open>Unified hunks\<close>

definition startsWith :: "char \<Rightarrow> string \<Rightarrow> bool" where
  "startsWith c text = (text \<noteq> [] \<and> hd text = c)"

text \<open>\<open>hl[len(hl)-1].NoEOL = true\<close> when there is a last line.\<close>

definition markLast :: "HunkLine list \<Rightarrow> HunkLine list" where
  "markLast hl = (if hl = [] then [] else butlast hl @ [(last hl)\<lparr>NoEOL := True\<rparr>])"

text \<open>The loop that reads a hunk body until both counts are reached.\<close>

fun unifiedBody :: "int \<Rightarrow> int \<Rightarrow> string \<Rightarrow> int \<Rightarrow> int \<Rightarrow> HunkLine list \<Rightarrow> rawLine list \<Rightarrow>
    ParseError + HunkLine list \<times> rawLine list" where
  "unifiedBody oldCount newCount newName oldSeen newSeen hl [] =
     (if oldSeen < oldCount \<or> newSeen < newCount then Inl (EndInsideHunk newName) else Inr (hl, []))"
| "unifiedBody oldCount newCount newName oldSeen newSeen hl (l # ls) =
     (if oldSeen < oldCount \<or> newSeen < newCount then
        (let text = rawText l
         in if startsWith BSL text
            then unifiedBody oldCount newCount newName oldSeen newSeen (markLast hl) ls
            else if text = [] \<or> hd text = SP
            then unifiedBody oldCount newCount newName (oldSeen + 1) (newSeen + 1)
                   (hl @ [\<lparr>Kind = LineContext, Text = tl text, NoEOL = rawNoEOL l\<rparr>]) ls
            else if hd text = CHR ''-''
            then unifiedBody oldCount newCount newName (oldSeen + 1) newSeen
                   (hl @ [\<lparr>Kind = LineDelete, Text = tl text, NoEOL = rawNoEOL l\<rparr>]) ls
            else if hd text = CHR ''+''
            then unifiedBody oldCount newCount newName oldSeen (newSeen + 1)
                   (hl @ [\<lparr>Kind = LineAdd, Text = tl text, NoEOL = rawNoEOL l\<rparr>]) ls
            else Inl (UnexpectedInUnified text))
      else Inr (hl, l # ls))"

text \<open>The markers that follow the last line of the body.\<close>

fun trailingMarkers :: "HunkLine list \<Rightarrow> rawLine list \<Rightarrow> HunkLine list \<times> rawLine list" where
  "trailingMarkers hl [] = (hl, [])"
| "trailingMarkers hl (l # ls) =
     (if startsWith BSL (rawText l) then trailingMarkers (markLast hl) ls else (hl, l # ls))"

text \<open>One turn of the loop over the hunks.\<close>

definition unifiedHunk :: "string \<Rightarrow> rawLine \<Rightarrow> rawLine list \<Rightarrow> ParseError + Hunk \<times> rawLine list" where
  "unifiedHunk newName l ls =
     (case unifiedHunkRe (rawText l) of
        None \<Rightarrow> Inl (MalformedUnifiedHeader (rawText l))
      | Some (m1, m2, m3, m4) \<Rightarrow>
          let (oldStart0, oldCount) = unifiedRangeVal (Atoi m1) (m2 \<noteq> []) (atoiDefault m2 0);
              (newStart0, newCount) = unifiedRangeVal (Atoi m3) (m4 \<noteq> []) (atoiDefault m4 0)
          in (case unifiedBody oldCount newCount newName 0 0 [] ls of
                Inl e \<Rightarrow> Inl e
              | Inr (hl0, rest0) \<Rightarrow>
                  let (hl, rest) = trailingMarkers hl0 rest0
                  in Inr (\<lparr>OldStart = oldStart0, OldCount = oldCount, NewStart = newStart0,
                           NewCount = newCount, Lines = hl\<rparr>, rest)))"

text \<open>The rest of the input shrinks with every hunk.\<close>

lemma unifiedBody_suffix:
  "unifiedBody oc nc nm os ns hl ls = Inr (hl', rest) \<Longrightarrow> length rest \<le> length ls"
  by (induction ls arbitrary: os ns hl) (fastforce simp: Let_def split: if_splits)+

lemma trailingMarkers_suffix: "trailingMarkers hl ls = (hl', rest) \<Longrightarrow> length rest \<le> length ls"
  by (induction ls arbitrary: hl) (fastforce split: if_splits)+

lemma unifiedHunk_suffix:
  "unifiedHunk nm l ls = Inr (h, rest) \<Longrightarrow> length rest \<le> length ls"
  by (auto simp: unifiedHunk_def Let_def split: option.splits prod.splits sum.splits
      dest!: unifiedBody_suffix trailingMarkers_suffix)

function unifiedHunks :: "string \<Rightarrow> rawLine list \<Rightarrow> ParseError + Hunk list \<times> rawLine list" where
  "unifiedHunks newName [] = Inr ([], [])"
| "unifiedHunks newName (l # ls) =
     (if hasPrefix (rawText l) ''@@ '' then
        (case unifiedHunk newName l ls of
           Inl e \<Rightarrow> Inl e
         | Inr (h, rest) \<Rightarrow>
             (case unifiedHunks newName rest of
                Inl e \<Rightarrow> Inl e
              | Inr (hs, rest') \<Rightarrow> Inr (h # hs, rest')))
      else Inr ([], l # ls))"
  by pat_completeness auto
termination
  by (relation "measure (\<lambda>(_, ls). length ls)") (auto dest: unifiedHunk_suffix)

text \<open>A \<open>FilePatch\<close> with only the fields its reader sets.\<close>

definition emptyFilePatch :: FilePatch where
  "emptyFilePatch = \<lparr>OldName = [], NewName = [], IndexName = [], PatchFormat = FormatUnified,
     Hunks = [], RenameFrom = [], RenameTo = [], Unsupported = []\<rparr>"

text \<open>The two header lines and what follows them.\<close>

definition parseUnifiedFile :: "rawLine \<Rightarrow> rawLine \<Rightarrow> rawLine list \<Rightarrow> ParseError + FilePatch \<times> rawLine list" where
  "parseUnifiedFile l1 l2 ls =
     (let oldName = extractName (drop 4 (rawText l1));
          newName = extractName (drop 4 (rawText l2))
      in case unifiedHunks newName ls of
           Inl e \<Rightarrow> Inl e
         | Inr (hunks, rest) \<Rightarrow>
             Inr (emptyFilePatch\<lparr>OldName := oldName, NewName := newName,
                    PatchFormat := FormatUnified, Hunks := hunks\<rparr>, rest))"

section \<open>Context hunks\<close>

record markedLine =
  mark :: string
  mText :: string
  mNoEOL :: bool

definition markLastM :: "markedLine list \<Rightarrow> markedLine list" where
  "markLastM out = (if out = [] then [] else butlast out @ [(last out)\<lparr>mNoEOL := True\<rparr>])"

fun consumeMarkedBlock :: "rawLine list \<Rightarrow> string list \<Rightarrow> markedLine list \<Rightarrow> markedLine list \<times> rawLine list" where
  "consumeMarkedBlock [] marks out = (out, [])"
| "consumeMarkedBlock (l # ls) marks out =
     (let text = rawText l
      in if startsWith BSL text then consumeMarkedBlock ls marks (markLastM out)
         else if length text < 2 \<or> take 2 text \<notin> set marks then (out, l # ls)
         else consumeMarkedBlock ls marks
                (out @ [\<lparr>mark = take 2 text, mText = drop 2 text, mNoEOL = rawNoEOL l\<rparr>]))"

definition oldBlockMarks :: "string list" where "oldBlockMarks = [''  '', ''- '', ''! '']"
definition newBlockMarks :: "string list" where "newBlockMarks = [''  '', ''+ '', ''! '']"

definition isCtx :: "markedLine \<Rightarrow> bool" where "isCtx ml = (mark ml = ''  '')"

definition asLine :: "LineKind \<Rightarrow> markedLine \<Rightarrow> HunkLine" where
  "asLine k ml = \<lparr>Kind = k, Text = mText ml, NoEOL = mNoEOL ml\<rparr>"

text \<open>The outer loop of \<open>zipContextBlocks\<close>; the two inner loops are the maximal runs of marked lines.\<close>

function zipContextBlocks :: "markedLine list \<Rightarrow> markedLine list \<Rightarrow> HunkLine list" where
  "zipContextBlocks oldBlock newBlock =
     (if oldBlock = [] \<and> newBlock = [] then []
      else if oldBlock \<noteq> [] \<and> isCtx (hd oldBlock)
      then asLine LineContext (hd oldBlock) #
             zipContextBlocks (tl oldBlock)
               (if newBlock \<noteq> [] \<and> isCtx (hd newBlock) then tl newBlock else newBlock)
      else let dels = takeWhile (\<lambda>x. \<not> isCtx x) oldBlock;
               old' = dropWhile (\<lambda>x. \<not> isCtx x) oldBlock;
               adds = takeWhile (\<lambda>x. \<not> isCtx x) newBlock;
               new' = dropWhile (\<lambda>x. \<not> isCtx x) newBlock
           in map (asLine LineDelete) dels @ map (asLine LineAdd) adds @
              (if old' = [] \<and> new' \<noteq> []
               then asLine LineContext (hd new') # zipContextBlocks old' (tl new')
               else zipContextBlocks old' new'))"
  by pat_completeness auto
termination
proof (relation "measures [\<lambda>(a, b). length a + length b]", goal_cases)
  case (4 ob nb)
  have "length (dropWhile (\<lambda>x. \<not> isCtx x) ob) + length (dropWhile (\<lambda>x. \<not> isCtx x) nb) <
      length ob + length nb"
    if "\<not> (ob = [] \<and> nb = [])" "\<not> (ob \<noteq> [] \<and> isCtx (hd ob))"
      "\<not> (dropWhile (\<lambda>x. \<not> isCtx x) ob = [] \<and> dropWhile (\<lambda>x. \<not> isCtx x) nb \<noteq> [])"
  proof (cases ob)
    case Nil
    with that have "dropWhile (\<lambda>x. \<not> isCtx x) nb = []" "nb \<noteq> []" by auto
    with Nil show ?thesis by (simp del: dropWhile_eq_Nil_conv)
  next
    case (Cons x xs)
    with that(2) show ?thesis
      using length_dropWhile_le [of "\<lambda>x. \<not> isCtx x" xs] length_dropWhile_le [of "\<lambda>x. \<not> isCtx x" nb]
      by auto
  qed
  with 4 show ?case by simp
next
  case (3 ob nb)
  then have "dropWhile (\<lambda>x. \<not> isCtx x) nb \<noteq> []" by simp
  then have "length (tl (dropWhile (\<lambda>x. \<not> isCtx x) nb)) < length nb"
    using length_dropWhile_le [of "\<lambda>x. \<not> isCtx x" nb] by (cases "dropWhile (\<lambda>x. \<not> isCtx x) nb") auto
  with 3 show ?case by simp
next
  case (2 ob nb)
  then show ?case by (cases ob; cases nb) auto
qed auto

declare zipContextBlocks.simps [simp del]

text \<open>One turn of the loop of \<open>parseContextFile\<close>, after the separator line.\<close>

definition contextHunk :: "rawLine list \<Rightarrow> ParseError + Hunk \<times> rawLine list" where
  "contextHunk ls0 =
     (case ls0 of
        [] \<Rightarrow> Inl EndAfterSeparator
      | l # ls \<Rightarrow>
          (case contextOldRe (rawText l) of
             None \<Rightarrow> Inl (ExpectedOldRange (rawText l))
           | Some (om1, om2) \<Rightarrow>
               let (oldBlock, ls1) =
                     (if ls \<noteq> [] \<and> contextNewRe (rawText (hd ls)) = None
                      then consumeMarkedBlock ls oldBlockMarks [] else ([], ls))
               in (case ls1 of
                     [] \<Rightarrow> Inl ExpectedNewRangeEnd
                   | l2 # ls2 \<Rightarrow>
                       (case contextNewRe (rawText l2) of
                          None \<Rightarrow> Inl (ExpectedNewRange (rawText l2))
                        | Some (nm1, nm2) \<Rightarrow>
                            let (newBlock, rest) =
                                  (if ls2 \<noteq> [] \<and> \<not> contextSepRe (rawText (hd ls2))
                                   then consumeMarkedBlock ls2 newBlockMarks [] else ([], ls2));
                                (oldStart0, oldCount) = resolveContextStart (om2 \<noteq> []) (Atoi om1)
                                   (atoiDefault om2 0) (int (length oldBlock));
                                (newStart0, newCount) = resolveContextStart (nm2 \<noteq> []) (Atoi nm1)
                                   (atoiDefault nm2 0) (int (length newBlock))
                            in Inr (\<lparr>OldStart = oldStart0, OldCount = oldCount, NewStart = newStart0,
                                     NewCount = newCount, Lines = zipContextBlocks oldBlock newBlock\<rparr>,
                                    rest)))))"

lemma consumeMarkedBlock_suffix:
  "consumeMarkedBlock ls marks out = (out', rest) \<Longrightarrow> length rest \<le> length ls"
  by (induction ls marks out rule: consumeMarkedBlock.induct) (fastforce simp: Let_def split: if_splits)+

lemma contextHunk_suffix: "contextHunk ls = Inr (h, rest) \<Longrightarrow> length rest \<le> length ls"
  by (auto simp: contextHunk_def Let_def split: list.splits option.splits prod.splits if_splits
      dest!: consumeMarkedBlock_suffix)

function contextHunks :: "rawLine list \<Rightarrow> ParseError + Hunk list \<times> rawLine list" where
  "contextHunks [] = Inr ([], [])"
| "contextHunks (l # ls) =
     (if contextSepRe (rawText l) then
        (case contextHunk ls of
           Inl e \<Rightarrow> Inl e
         | Inr (h, rest) \<Rightarrow>
             (case contextHunks rest of
                Inl e \<Rightarrow> Inl e
              | Inr (hs, rest') \<Rightarrow> Inr (h # hs, rest')))
      else Inr ([], l # ls))"
  by pat_completeness auto
termination
  by (relation "measure length") (auto dest: contextHunk_suffix)

definition parseContextFile :: "rawLine \<Rightarrow> rawLine \<Rightarrow> rawLine list \<Rightarrow> ParseError + FilePatch \<times> rawLine list" where
  "parseContextFile l1 l2 ls =
     (let oldName = extractName (drop 4 (rawText l1));
          newName = extractName (drop 4 (rawText l2))
      in case contextHunks ls of
           Inl e \<Rightarrow> Inl e
         | Inr (hunks, rest) \<Rightarrow>
             Inr (emptyFilePatch\<lparr>OldName := oldName, NewName := newName,
                    PatchFormat := FormatContext, Hunks := hunks\<rparr>, rest))"

section \<open>Normal hunks\<close>

definition peekText :: "rawLine list \<Rightarrow> string" where
  "peekText ls = (case ls of [] \<Rightarrow> ''<end of input>'' | l # _ \<Rightarrow> rawText l)"

fun consumeFixedMarked :: "rawLine list \<Rightarrow> string \<Rightarrow> int \<Rightarrow> markedLine list \<Rightarrow>
    ParseError + markedLine list \<times> rawLine list" where
  "consumeFixedMarked [] pfx want out =
     (if int (length out) < want then Inl (RanOutOfInput want pfx) else Inr (out, []))"
| "consumeFixedMarked (l # ls) pfx want out =
     (if int (length out) < want then
        (let text = rawText l
         in if startsWith BSL text then consumeFixedMarked ls pfx want (markLastM out)
            else if \<not> hasPrefix text pfx then Inl (ExpectedPrefix pfx text)
            else consumeFixedMarked ls pfx want
                   (out @ [\<lparr>mark = [], mText = drop (length pfx) text, mNoEOL = rawNoEOL l\<rparr>]))
      else Inr (out, l # ls))"

text \<open>The three arms of the \<open>switch\<close> on the command, given the numbers of the header.\<close>

definition normalAdd :: "int \<Rightarrow> int \<Rightarrow> int \<Rightarrow> rawLine list \<Rightarrow> ParseError + Hunk \<times> rawLine list" where
  "normalAdd oldFirst newFirst newCount ls =
     (case consumeFixedMarked ls ''> '' newCount [] of
        Inl e \<Rightarrow> Inl e
      | Inr (adds, rest) \<Rightarrow>
          Inr (\<lparr>OldStart = oldFirst, OldCount = 0, NewStart = newFirst - 1, NewCount = newCount,
                Lines = map (asLine LineAdd) adds\<rparr>, rest))"

definition normalDelete :: "int \<Rightarrow> int \<Rightarrow> int \<Rightarrow> rawLine list \<Rightarrow> ParseError + Hunk \<times> rawLine list" where
  "normalDelete oldFirst oldCount newFirst ls =
     (case consumeFixedMarked ls ''< '' oldCount [] of
        Inl e \<Rightarrow> Inl e
      | Inr (dels, rest) \<Rightarrow>
          Inr (\<lparr>OldStart = oldFirst - 1, OldCount = oldCount, NewStart = newFirst, NewCount = 0,
                Lines = map (asLine LineDelete) dels\<rparr>, rest))"

definition normalChange :: "int \<Rightarrow> int \<Rightarrow> int \<Rightarrow> int \<Rightarrow> rawLine list \<Rightarrow> ParseError + Hunk \<times> rawLine list" where
  "normalChange oldFirst oldCount newFirst newCount ls =
     (case consumeFixedMarked ls ''< '' oldCount [] of
        Inl e \<Rightarrow> Inl e
      | Inr (dels, rest1) \<Rightarrow>
          if rest1 = [] \<or> rawText (hd rest1) \<noteq> ''---'' then Inl (ExpectedSeparator (peekText rest1))
          else (case consumeFixedMarked (tl rest1) ''> '' newCount [] of
                  Inl e \<Rightarrow> Inl e
                | Inr (adds, rest) \<Rightarrow>
                    Inr (\<lparr>OldStart = oldFirst - 1, OldCount = oldCount, NewStart = newFirst - 1,
                          NewCount = newCount,
                          Lines = map (asLine LineDelete) dels @ map (asLine LineAdd) adds\<rparr>, rest)))"

definition normalHunk :: "string \<times> string \<times> char \<times> string \<times> string \<Rightarrow> rawLine list \<Rightarrow>
    ParseError + Hunk \<times> rawLine list" where
  "normalHunk m ls =
     (case m of (m1, m2, op, m4, m5) \<Rightarrow>
        let oldFirst = Atoi m1;
            newFirst = Atoi m4;
            oldCount = (if m2 \<noteq> [] then i64 (atoiDefault m2 0 - oldFirst + 1) else 1);
            newCount = (if m5 \<noteq> [] then i64 (atoiDefault m5 0 - newFirst + 1) else 1)
        in if op = CHR ''a'' then normalAdd oldFirst newFirst newCount ls
           else if op = CHR ''d'' then normalDelete oldFirst oldCount newFirst ls
           else normalChange oldFirst oldCount newFirst newCount ls)"

lemma consumeFixedMarked_suffix:
  "consumeFixedMarked ls p want out = Inr (out', rest) \<Longrightarrow> length rest \<le> length ls"
  by (induction ls p want out rule: consumeFixedMarked.induct) (fastforce simp: Let_def split: if_splits)+

lemma normalArms_suffix:
  "normalAdd a b c ls = Inr (h, rest) \<Longrightarrow> length rest \<le> length ls"
  "normalDelete a b c ls = Inr (h, rest) \<Longrightarrow> length rest \<le> length ls"
  by (auto simp: normalAdd_def normalDelete_def split: sum.splits prod.splits
      dest: consumeFixedMarked_suffix)

lemma normalChange_suffix:
  assumes "normalChange a b c d ls = Inr (h, rest)" shows "length rest \<le> length ls"
proof -
  obtain dels rest1 adds where "consumeFixedMarked ls ''< '' b [] = Inr (dels, rest1)"
    "consumeFixedMarked (tl rest1) ''> '' d [] = Inr (adds, rest)"
    using assms by (auto simp: normalChange_def split: sum.splits prod.splits if_splits)
  then have "length rest1 \<le> length ls" "length rest \<le> length (tl rest1)"
    by (auto dest: consumeFixedMarked_suffix)
  then show ?thesis by simp
qed

lemma normalHunk_suffix: "normalHunk m ls = Inr (h, rest) \<Longrightarrow> length rest \<le> length ls"
  by (auto simp: normalHunk_def Let_def split: prod.splits if_splits
      dest: normalArms_suffix normalChange_suffix)

function normalHunks :: "rawLine list \<Rightarrow> ParseError + Hunk list \<times> rawLine list" where
  "normalHunks [] = Inr ([], [])"
| "normalHunks (l # ls) =
     (case normalHunkRe (rawText l) of
        None \<Rightarrow> Inr ([], l # ls)
      | Some m \<Rightarrow>
          (case normalHunk m ls of
             Inl e \<Rightarrow> Inl e
           | Inr (h, rest) \<Rightarrow>
               (case normalHunks rest of
                  Inl e \<Rightarrow> Inl e
                | Inr (hs, rest') \<Rightarrow> Inr (h # hs, rest'))))"
  by pat_completeness auto
termination
  by (relation "measure length") (auto dest: normalHunk_suffix)

definition parseNormalFile :: "rawLine list \<Rightarrow> ParseError + FilePatch \<times> rawLine list" where
  "parseNormalFile ls =
     (case normalHunks ls of
        Inl e \<Rightarrow> Inl e
      | Inr (hunks, rest) \<Rightarrow>
          if hunks = [] then Inl NoNormalHunks
          else Inr (emptyFilePatch\<lparr>PatchFormat := FormatNormal, Hunks := hunks\<rparr>, rest))"

section \<open>Git sections\<close>

text \<open>The header loop: the rename names, the binary flag and the lines from \<open>doneHeaders\<close> on.\<close>

fun gitHeaders :: "rawLine list \<Rightarrow> string \<Rightarrow> string \<Rightarrow> bool \<Rightarrow> string \<times> string \<times> bool \<times> rawLine list" where
  "gitHeaders [] renameFrom renameTo binary = (renameFrom, renameTo, binary, [])"
| "gitHeaders (l # ls) renameFrom renameTo binary =
     (let text = rawText l
      in if hasPrefix text ''--- '' \<or> hasPrefix text ''diff --git ''
         then (renameFrom, renameTo, binary, l # ls)
         else if hasPrefix text ''rename from '' then gitHeaders ls (drop 12 text) renameTo binary
         else if hasPrefix text ''rename to '' then gitHeaders ls renameFrom (drop 10 text) binary
         else if hasPrefix text ''GIT binary patch'' \<or> hasPrefix text ''Binary files ''
         then gitHeaders ls renameFrom renameTo True
         else gitHeaders ls renameFrom renameTo binary)"

definition gitReason :: "bool \<Rightarrow> string \<Rightarrow> string \<Rightarrow> string" where
  "gitReason binary renameFrom renameTo =
     (if binary then ''binary patch content is not supported by pure-Go coreutils''
      else if renameFrom \<noteq> [] \<or> renameTo \<noteq> []
      then ''a git rename with no content hunk is not supported by pure-Go coreutils''
      else ''git diff section has no textual hunk to apply (metadata-only or unrecognized)'')"

definition parseGitWrappedFile :: "rawLine \<Rightarrow> rawLine list \<Rightarrow> ParseError + FilePatch \<times> rawLine list" where
  "parseGitWrappedFile l ls =
     (let (gitOld, gitNew) =
            (case gitDiffRe (rawText l) of Some (x, y) \<Rightarrow> (''a/'' @ x, ''b/'' @ y) | None \<Rightarrow> ([], []));
          (renameFrom, renameTo, binary, rest) = gitHeaders ls [] [] False;
          unsupported =
            Inr (emptyFilePatch\<lparr>OldName := gitOld, NewName := gitNew, RenameFrom := renameFrom,
                   RenameTo := renameTo, Unsupported := gitReason binary renameFrom renameTo\<rparr>, rest)
      in case rest of
           l1 # l2 # ls' \<Rightarrow>
             if hasPrefix (rawText l1) ''--- '' \<and> hasPrefix (rawText l2) ''+++ ''
             then (case parseUnifiedFile l1 l2 ls' of
                     Inl e \<Rightarrow> Inl e
                   | Inr (fp, rest') \<Rightarrow>
                       Inr (fp\<lparr>RenameFrom := renameFrom, RenameTo := renameTo\<rparr>, rest'))
             else unsupported
         | _ \<Rightarrow> unsupported)"

section \<open>The scan for file sections\<close>

lemma unifiedHunks_suffix:
  "unifiedHunks nm ls = Inr (hs, rest) \<Longrightarrow> length rest \<le> length ls"
proof (induction nm ls arbitrary: hs rest rule: unifiedHunks.induct)
  case (2 nm l ls)
  then show ?case
    by (fastforce split: if_splits sum.splits prod.splits dest!: unifiedHunk_suffix intro: le_SucI)
qed simp

lemma contextHunks_suffix: "contextHunks ls = Inr (hs, rest) \<Longrightarrow> length rest \<le> length ls"
proof (induction ls arbitrary: hs rest rule: contextHunks.induct)
  case (2 l ls)
  then show ?case
    by (fastforce split: if_splits sum.splits prod.splits dest!: contextHunk_suffix intro: le_SucI)
qed simp

lemma normalHunks_step:
  assumes "normalHunks (l # ls) = Inr (hs, rest)"
  shows "hs = [] \<and> rest = l # ls \<or>
    (\<exists>m h rest1 hs1. normalHunkRe (rawText l) = Some m \<and> normalHunk m ls = Inr (h, rest1) \<and>
       normalHunks rest1 = Inr (hs1, rest) \<and> hs = h # hs1)"
  using assms by (auto split: option.splits sum.splits prod.splits)

lemma normalHunks_suffix: "normalHunks ls = Inr (hs, rest) \<Longrightarrow> length rest \<le> length ls"
proof (induction ls arbitrary: hs rest rule: length_induct)
  case (1 ls)
  show ?case
  proof (cases ls)
    case (Cons l ls')
    consider "rest = ls" | m h rest1 hs1 where "normalHunk m ls' = Inr (h, rest1)"
      "normalHunks rest1 = Inr (hs1, rest)"
      using normalHunks_step [of l ls' hs rest] 1(2) Cons by blast
    then show ?thesis
    proof cases
      case 2
      have "length rest1 \<le> length ls'" using normalHunk_suffix [OF 2(1)] .
      then have "length rest1 < length ls" using Cons by simp
      then have "length rest \<le> length rest1" using 1(1) 2(2) by blast
      with \<open>length rest1 < length ls\<close> show ?thesis by simp
    qed simp
  qed (use 1 in simp)
qed

lemma normalHunks_shrinks:
  assumes "normalHunks (l # ls) = Inr (hs, rest)" "hs \<noteq> []"
  shows "length rest \<le> length ls"
  using normalHunks_step [OF assms(1)] assms(2) normalHunk_suffix normalHunks_suffix le_trans by blast

lemma gitHeaders_suffix: "gitHeaders ls a b c = (a', b', c', rest) \<Longrightarrow> length rest \<le> length ls"
proof (induction ls arbitrary: a b c)
  case (Cons l ls)
  then show ?case by (fastforce simp: Let_def split: if_splits intro: le_SucI)
qed simp

lemma parseFile_suffix:
  "parseUnifiedFile l1 l2 ls = Inr (fp, rest) \<Longrightarrow> length rest \<le> length ls"
  "parseContextFile l1 l2 ls = Inr (fp, rest) \<Longrightarrow> length rest \<le> length ls"
  "parseNormalFile (l # ls) = Inr (fp, rest) \<Longrightarrow> length rest \<le> length ls"
  by (auto simp: parseUnifiedFile_def parseContextFile_def parseNormalFile_def Let_def
      split: sum.splits prod.splits if_splits
      dest: unifiedHunks_suffix contextHunks_suffix normalHunks_shrinks simp del: normalHunks.simps)

lemma parseGitWrappedFile_suffix:
  assumes "parseGitWrappedFile l ls = Inr (fp, rest)" shows "length rest \<le> length ls"
proof -
  obtain a b c rest1 where g: "gitHeaders ls [] [] False = (a, b, c, rest1)" by (metis prod_cases4)
  have "length rest \<le> length rest1"
    using assms
    by (auto simp: parseGitWrappedFile_def Let_def g split: prod.splits sum.splits if_splits list.splits
        dest!: parseFile_suffix)
  with gitHeaders_suffix [OF g] show ?thesis by simp
qed

lemma stripPatchIndentAt_shrinks:
  assumes "stripPatchIndentAt ls = Some ls'"
  shows "length ls' = length ls \<and> (\<Sum>l\<leftarrow>ls'. length (rawText l)) < (\<Sum>l\<leftarrow>ls. length (rawText l))"
proof (cases ls)
  case (Cons l rest)
  define t where "t = trimLeft (rawText l) [SP, TAB]"
  define p where "p = take (length (rawText l) - length t) (rawText l)"
  define f where "f = (\<lambda>x :: rawLine. if hasPrefix (rawText x) p then x\<lparr>rawText := drop (length p) (rawText x)\<rparr> else x)"
  have t: "t \<noteq> rawText l" and ls': "ls' = map f ls"
    using assms Cons by (auto simp: stripPatchIndentAt_def Let_def t_def p_def f_def split: if_splits)
  have "length t < length (rawText l)"
    using t length_dropWhile_le [of "\<lambda>c. c \<in> set [SP, TAB]" "rawText l"]
    by (cases "takeWhile (\<lambda>c. c \<in> set [SP, TAB]) (rawText l)"; cases "rawText l")
      (auto simp: t_def trimLeft_def dropWhile_eq_drop)
  then have p: "length p > 0" "hasPrefix (rawText l) p" "rawText l \<noteq> []"
    by (auto simp: p_def hasPrefix_def)
  then have hd: "length (rawText (f l)) < length (rawText l)" by (simp add: f_def)
  have le: "length (rawText (f x)) \<le> length (rawText x)" for x by (simp add: f_def)
  have "(\<Sum>l\<leftarrow>map f rest. length (rawText l)) \<le> (\<Sum>l\<leftarrow>rest. length (rawText l))"
    by (induction rest) (use le in \<open>auto intro: add_mono\<close>)
  with hd show ?thesis by (simp add: ls' Cons)
qed (use assms in \<open>simp add: stripPatchIndentAt_def\<close>)

text \<open>
  The dispatch of the \<open>switch\<close> at a line that is not indented: \<^term>\<open>None\<close> where no section starts,
  otherwise the result of the reader of that section.
\<close>

definition sectionAt :: "rawLine \<Rightarrow> rawLine list \<Rightarrow> (ParseError + FilePatch \<times> rawLine list) option" where
  "sectionAt l ls =
     (if hasPrefix (rawText l) ''diff --git '' then Some (parseGitWrappedFile l ls)
      else if hasPrefix (rawText l) ''--- '' \<and> ls \<noteq> [] \<and> hasPrefix (rawText (hd ls)) ''+++ ''
      then Some (parseUnifiedFile l (hd ls) (tl ls))
      else if hasPrefix (rawText l) ''*** '' \<and> ls \<noteq> [] \<and> hasPrefix (rawText (hd ls)) ''--- ''
      then Some (parseContextFile l (hd ls) (tl ls))
      else if normalHunkRe (rawText l) \<noteq> None then Some (parseNormalFile (l # ls))
      else None)"

lemma sectionAt_suffix: "sectionAt l ls = Some (Inr (fp, rest)) \<Longrightarrow> length rest \<le> length ls"
  by (auto simp: sectionAt_def split: if_splits
      dest!: parseGitWrappedFile_suffix parseFile_suffix)

function parseLoop :: "rawLine list \<Rightarrow> string \<Rightarrow> FilePatch list \<Rightarrow> ParseError + FilePatch list" where
  "parseLoop [] indexName files = Inr files"
| "parseLoop (l # ls) indexName files =
     (case stripPatchIndentAt (l # ls) of
        Some lines \<Rightarrow> parseLoop lines indexName files
      | None \<Rightarrow>
          if hasPrefix (rawText l) ''Index:'' then parseLoop ls (trimSpace (drop 6 (rawText l))) files
          else (case sectionAt l ls of
                  None \<Rightarrow> parseLoop ls indexName files
                | Some (Inl e) \<Rightarrow> Inl e
                | Some (Inr (fp, rest)) \<Rightarrow>
                    parseLoop rest [] (files @ [fp\<lparr>IndexName := indexName\<rparr>])))"
  by pat_completeness auto
termination
  by (relation "measures [\<lambda>(ls, _, _). length ls, \<lambda>(ls, _, _). \<Sum>l\<leftarrow>ls. length (rawText l)]")
     (auto dest: sectionAt_suffix stripPatchIndentAt_shrinks)

declare parseLoop.simps(2) [simp del]

definition Parse :: "string \<Rightarrow> ParseError + FilePatch list" where
  "Parse data =
     (case parseLoop (splitRawLines data) [] [] of
        Inl e \<Rightarrow> Inl e
      | Inr files \<Rightarrow> if files = [] then Inl NoHunks else Inr files)"

end
