(* ===== verification/Patch_Ed.thy ===== *)
theory Patch_Ed
  imports Patch_Parse
begin

text \<open>
  \<open>pkg/patch/ed.go\<close>: recognising and applying the scripts of \<open>diff -e\<close>. A command line is matched
  against \<open>edCommandRE\<close>; a slice out of range is \<^term>\<open>None\<close>, a returned error \<^term>\<open>Inl\<close>.
\<close>

section \<open>The regular expressions\<close>

text \<open>\<open>^(?:(\d+)(?:,(\d+))?)?([acdi])$\<close>\<close>

definition isEdOp :: "char \<Rightarrow> bool" where
  "isEdOp c = (c = CHR ''a'' \<or> c = CHR ''c'' \<or> c = CHR ''d'' \<or> c = CHR ''i'')"

definition edCommandRE :: "string \<Rightarrow> (string \<times> string \<times> char) option" where
  "edCommandRE s =
     (case rangeRe s of
        Some (m1, m2, [c]) \<Rightarrow> if isEdOp c then Some (m1, m2, c) else None
      | Some _ \<Rightarrow> None
      | None \<Rightarrow> (case s of [c] \<Rightarrow> if isEdOp c then Some ([], [], c) else None | _ \<Rightarrow> None))"

text \<open>\<open>^\d+(?:,\d+)?[acdi]$\<close> and \<open>^\d+(?:,\d+)?[acd]\d+(?:,\d+)?$\<close>\<close>

definition edScriptStartRE :: "string \<Rightarrow> bool" where
  "edScriptStartRE s = (case rangeRe s of Some (m1, m2, [c]) \<Rightarrow> isEdOp c | _ \<Rightarrow> False)"

definition normalDiffCommandRE :: "string \<Rightarrow> bool" where
  "normalDiffCommandRE s = (normalHunkRe s \<noteq> None)"

section \<open>Finding the script\<close>

definition looksLikeDiffListing :: "string \<Rightarrow> bool" where
  "looksLikeDiffListing trimmed =
     (list_ex (hasPrefix trimmed) [''--- '', ''+++ '', ''*** '', ''@@ ''] \<or>
      trimmed = ''***************'' \<or> normalDiffCommandRE trimmed)"

text \<open>The commands of the script with the indentation of the first one removed.\<close>

definition unindent :: "string \<Rightarrow> string list \<Rightarrow> string list" where
  "unindent pfx lines =
     (if pfx = [] then lines
      else map (\<lambda>l. if hasPrefix l pfx then drop (length pfx) l else l) lines)"

fun extractEdLoop :: "string list \<Rightarrow> string \<Rightarrow> string \<times> string \<times> bool" where
  "extractEdLoop [] indexName = ([], indexName, False)"
| "extractEdLoop (l # ls) indexName =
     (let line = trimSuffixByte l CR; trimmed = trimLeft line [SP, TAB]
      in if hasPrefix trimmed ''Index:'' then extractEdLoop ls (trimSpace (drop (length ''Index:'') trimmed))
         else if trimmed = [] then extractEdLoop ls indexName
         else if looksLikeDiffListing trimmed then ([], indexName, False)
         else if edScriptStartRE trimmed \<or> trimmed = ''s/.//'' then
           (joinByte NL (unindent (take (length line - length trimmed) line) (l # ls)), indexName, True)
         else extractEdLoop ls indexName)"

definition ExtractEdScript :: "string \<Rightarrow> string \<times> string \<times> bool" where
  "ExtractEdScript data = extractEdLoop (splitByte NL data) []"

definition LooksLikeEdScript :: "string \<Rightarrow> bool" where
  "LooksLikeEdScript script = snd (snd (ExtractEdScript script))"

section \<open>Lines and bytes\<close>

definition bytesToLines :: "string \<Rightarrow> string list \<times> bool" where
  "bytesToLines content =
     (if content = [] then ([], False)
      else let noEOL = (\<not> hasSuffixByte content NL); parts = splitByte NL content
           in (if \<not> noEOL then butlast parts else parts, noEOL))"

definition linesToBytes :: "string list \<Rightarrow> bool \<Rightarrow> string" where
  "linesToBytes lines noEOL = (if lines = [] then [] else joinByte NL lines @ (if noEOL then [] else [NL]))"

definition spliceLines :: "string list \<Rightarrow> int \<Rightarrow> int \<Rightarrow> string list \<Rightarrow> string list option" where
  "spliceLines lines from to replacement =
     (case (goSlice lines 0 from, goSlice lines to (int (length lines))) of
        (Some l, Some r) \<Rightarrow> Some (l @ replacement @ r)
      | _ \<Rightarrow> None)"

definition conditionalAddition :: "string list \<Rightarrow> string \<Rightarrow> string list" where
  "conditionalAddition body dname =
     (''#ifdef '' @ dname) # body @ [''#endif /* '' @ dname @ '' */'']"

definition edRejectHunk :: "int \<Rightarrow> int \<Rightarrow> char \<Rightarrow> string list \<Rightarrow> Hunk" where
  "edRejectHunk first lst operation body =
     (let start = max (first - 1) 0;
          pos = (if operation = CHR ''a'' then max lst 0 else start);
          adds = (operation = CHR ''a'' \<or> operation = CHR ''i'' \<or> operation = CHR ''c'')
      in \<lparr>OldStart = pos,
          OldCount = (if operation = CHR ''c'' then max (i64 (lst - first + 1)) 0
                      else if operation = CHR ''d'' \<or> operation = CHR ''s'' then max (i64 (lst - first + 1)) 1
                      else 0),
          NewStart = pos,
          NewCount = (if adds then int (length body) else 0),
          Lines = (if adds then map (\<lambda>t. \<lparr>Kind = LineAdd, Text = t, NoEOL = False\<rparr>) body else [])\<rparr>)"

section \<open>Applying\<close>

datatype edError = MalformedEd string | InvalidEdAddress string | UnterminatedEd string

record edState =
  edLines :: "string list"
  edNoEOL :: bool
  edCurrent :: int
  edRejects :: "Hunk list"
  edApplied :: bool

text \<open>The text of \<open>a\<close>, \<open>c\<close> and \<open>i\<close> up to the line with a single period, and the lines after it.\<close>

fun edText :: "string list \<Rightarrow> (string list \<times> string list) option" where
  "edText [] = None"
| "edText (p # ps) =
     (let line = trimSuffixByte p CR
      in if line = ''.'' then Some ([], ps) else map_option (\<lambda>(body, rest). (line # body, rest)) (edText ps))"

definition edReject :: "int \<Rightarrow> int \<Rightarrow> char \<Rightarrow> string list \<Rightarrow> edState \<Rightarrow> edState" where
  "edReject first lst operation body st =
     st\<lparr>edRejects := edRejects st @ [edRejectHunk first lst operation body]\<rparr>"

text \<open>The substitution \<open>s/.//\<close> on the current line.\<close>

definition edSubst :: "edState \<Rightarrow> edState" where
  "edSubst st =
     (let cur = edCurrent st; lines = edLines st
      in if cur < 1 \<or> cur > int (length lines) \<or> lines ! nat (cur - 1) = []
         then edReject cur cur CHR ''s'' [] st
         else st\<lparr>edLines := lines[nat (cur - 1) := tl (lines ! nat (cur - 1))], edApplied := True\<rparr>)"

text \<open>
  A splice at \<open>from\<close> and \<open>to\<close>: the new lines, the current line, and the missing final newline, which the
  last line of the old buffer carries.
\<close>

definition edSplice :: "int \<Rightarrow> int \<Rightarrow> string list \<Rightarrow> int \<Rightarrow> bool \<Rightarrow> edState \<Rightarrow> edState option" where
  "edSplice from to replacement cur clears st =
     map_option (\<lambda>ls. st\<lparr>edLines := ls, edNoEOL := (edNoEOL st \<and> \<not> clears), edCurrent := cur, edApplied := True\<rparr>)
       (spliceLines (edLines st) from to replacement)"

definition keepBack :: "string \<Rightarrow> string list \<Rightarrow> int" where
  "keepBack dname body = (if dname \<noteq> [] \<and> body \<noteq> [] then 1 else 0)"

definition edAppend :: "string \<Rightarrow> int \<Rightarrow> int \<Rightarrow> string list \<Rightarrow> edState \<Rightarrow> edState option" where
  "edAppend dname first lst body st =
     (let n = int (length (edLines st))
      in if lst > n then Some (edReject first lst CHR ''a'' body st)
         else let inserted = (if dname \<noteq> [] then conditionalAddition body dname else body)
              in edSplice lst lst inserted (lst + int (length inserted) - keepBack dname body) (lst = n) st)"

definition edDelete :: "string \<Rightarrow> int \<Rightarrow> int \<Rightarrow> string list \<Rightarrow> edState \<Rightarrow> edState option" where
  "edDelete dname first lst body st =
     (let n = int (length (edLines st))
      in if first < 1 \<or> lst > n then Some (edReject first lst CHR ''d'' body st)
         else case goSlice (edLines st) (first - 1) lst of
                None \<Rightarrow> None
              | Some old \<Rightarrow>
                  let replacement = (if dname \<noteq> []
                        then (''#ifndef '' @ dname) # old @ [''#endif /* '' @ dname @ '' */''] else []);
                      left = n - (lst - (first - 1)) + int (length replacement)
                  in edSplice (first - 1) lst replacement (min first left) (lst = n) st)"

definition edChange :: "string \<Rightarrow> int \<Rightarrow> int \<Rightarrow> string list \<Rightarrow> edState \<Rightarrow> edState option" where
  "edChange dname first0 lst0 body st =
     (let n = int (length (edLines st));
          first = (if first0 = 0 then 1 else first0);
          lst = (if first0 = 0 then max lst0 1 else lst0)
      in if first < 1 \<or> lst > n then Some (edReject first lst CHR ''c'' body st)
         else case goSlice (edLines st) (first - 1) lst of
                None \<Rightarrow> None
              | Some old \<Rightarrow>
                  let replacement = (if dname \<noteq> []
                        then (''#ifndef '' @ dname) # old @ ''#else'' # body @ [''#endif /* '' @ dname @ '' */'']
                        else body)
                  in edSplice (first - 1) lst replacement
                       (first - 1 + int (length replacement) - keepBack dname body) (lst = n) st)"

definition edInsert :: "string \<Rightarrow> int \<Rightarrow> string list \<Rightarrow> edState \<Rightarrow> edState option" where
  "edInsert dname first0 body st =
     (let n = int (length (edLines st)); first = (if first0 = 0 then 1 else first0)
      in if first < 1 \<or> first > n then Some (edReject first first CHR ''i'' body st)
         else let inserted = (if dname \<noteq> [] then conditionalAddition body dname else body)
              in edSplice (first - 1) (first - 1) inserted
                   (first - 1 + int (length inserted) - keepBack dname body) False st)"

definition edExec :: "string \<Rightarrow> int \<Rightarrow> int \<Rightarrow> char \<Rightarrow> string list \<Rightarrow> edState \<Rightarrow> edState option" where
  "edExec dname first lst operation body st =
     (if operation = CHR ''a'' then edAppend dname first lst body st
      else if operation = CHR ''d'' then edDelete dname first lst body st
      else if operation = CHR ''c'' then edChange dname first lst body st
      else edInsert dname first body st)"

text \<open>One turn of the loop: the command line, and the lines after it.\<close>

definition edCommand :: "string \<Rightarrow> string \<Rightarrow> string list \<Rightarrow> edState \<Rightarrow> (edError + edState \<times> string list) option" where
  "edCommand dname physical rest st =
     (let command = trimSuffixByte physical CR
      in if command = ''s/.//'' then Some (Inr (edSubst st, rest))
         else case edCommandRE command of
                None \<Rightarrow> Some (Inl (MalformedEd command))
              | Some (m1, m2, operation) \<Rightarrow>
                  let first = (if m1 \<noteq> [] then Atoi m1 else edCurrent st);
                      lst = (if m2 \<noteq> [] then Atoi m2 else first)
                  in if first < 0 \<or> lst < first then Some (Inl (InvalidEdAddress command))
                     else if operation = CHR ''d'' then
                       map_option (\<lambda>st'. Inr (st', rest)) (edExec dname first lst operation [] st)
                     else case edText rest of
                            None \<Rightarrow> Some (Inl (UnterminatedEd command))
                          | Some (body, rest') \<Rightarrow>
                              map_option (\<lambda>st'. Inr (st', rest')) (edExec dname first lst operation body st))"

lemma edText_length: "edText ps = Some (body, rest) \<Longrightarrow> length rest < length ps"
  by (induction ps arbitrary: body) (fastforce simp: Let_def split: if_splits)+

lemma edCommand_length: "edCommand dname p ps st = Some (Inr (st', rest)) \<Longrightarrow> length rest \<le> length ps"
  by (auto simp: edCommand_def Let_def split: if_splits option.splits dest!: edText_length)

function edLoop :: "string \<Rightarrow> string list \<Rightarrow> edState \<Rightarrow> (edError + edState) option" where
  "edLoop dname [] st = Some (Inr st)"
| "edLoop dname (p # ps) st =
     (case edCommand dname p ps st of
        None \<Rightarrow> None
      | Some (Inl e) \<Rightarrow> Some (Inl e)
      | Some (Inr (st', rest)) \<Rightarrow> edLoop dname rest st')"
  by pat_completeness auto
termination
  by (relation "measure (\<lambda>(dname, ps, st). length ps)") (auto dest!: edCommand_length)

text \<open>The result: the new content, with the rejected portions and whether another one was applied.\<close>

definition applyEd :: "string \<Rightarrow> string \<Rightarrow> string \<Rightarrow> (edError + string \<times> (Hunk list \<times> bool) option) option" where
  "applyEd content script dname =
     (if script = [] then Some (Inr (content, None))
      else case bytesToLines content of (lines, noEOL) \<Rightarrow>
        (case edLoop dname (splitByte NL (trimSuffixByte script NL))
                \<lparr>edLines = lines, edNoEOL = noEOL, edCurrent = 0, edRejects = [], edApplied = False\<rparr> of
           None \<Rightarrow> None
         | Some (Inl e) \<Rightarrow> Some (Inl e)
         | Some (Inr st) \<Rightarrow>
             Some (Inr (linesToBytes (edLines st) (edNoEOL st),
                        if edRejects st \<noteq> [] then Some (edRejects st, edApplied st) else None))))"

definition ApplyEd :: "string \<Rightarrow> string \<Rightarrow> (edError + string \<times> (Hunk list \<times> bool) option) option" where
  "ApplyEd content script = applyEd content script []"

definition ApplyEdIfdef :: "string \<Rightarrow> string \<Rightarrow> string \<Rightarrow> (edError + string \<times> (Hunk list \<times> bool) option) option" where
  "ApplyEdIfdef content script dname = applyEd content script dname"

section \<open>No slice is out of range\<close>

lemma spliceLines_Some: "0 \<le> from \<Longrightarrow> from \<le> int (length ls) \<Longrightarrow> 0 \<le> to \<Longrightarrow> to \<le> int (length ls) \<Longrightarrow>
    spliceLines ls from to r = Some (take (nat from) ls @ r @ drop (nat to) ls)"
  by (simp add: spliceLines_def goSlice_def)

lemma edExec_total: "0 \<le> first \<Longrightarrow> first \<le> lst \<Longrightarrow> edExec dname first lst c body st \<noteq> None"
  by (cases "edLines st") (auto simp: edExec_def edAppend_def edDelete_def edChange_def edInsert_def edSplice_def goSlice_def
      spliceLines_Some Let_def)

lemma edCommand_total: "edCommand dname p ps st \<noteq> None"
  using edExec_total [of _ _ dname]
  by (auto simp: edCommand_def Let_def split: option.splits simp del: not_None_eq)

lemma edLoop_total: "edLoop dname ps st \<noteq> None"
proof (induction dname ps st rule: edLoop.induct)
  case (2 dname p ps st)
  then show ?case using edCommand_total [of dname p ps st] by (auto split: option.splits sum.splits)
qed simp

text \<open>C19: Whatever the file, the script and the \<open>-D\<close> name are, \<open>applyEd\<close> returns a result or an
  error: no address of a command makes it index or slice out of range.\<close>

theorem applyEd_no_panic: "\<exists>r. applyEd content script dname = Some r"
proof -
  obtain lines noEOL where b: "bytesToLines content = (lines, noEOL)" by fastforce
  obtain r where "edLoop dname (splitByte NL (trimSuffixByte script NL))
      \<lparr>edLines = lines, edNoEOL = noEOL, edCurrent = 0, edRejects = [], edApplied = False\<rparr> = Some r"
    using edLoop_total by blast
  then show ?thesis using b by (cases r) (auto simp: applyEd_def)
qed

end
