(* ===== verification/Go_Args.thy ===== *)
theory Go_Args
  imports Go_Prelude "HOL-Library.Char_ord" "HOL-Library.List_Lexorder"
begin

text \<open>
  More of the standard library, for the code that reads arguments and directories:
  \<open>strconv.Atoi\<close> on any string, \<open>strings.CutPrefix\<close>, \<open>filepath.Base\<close>, and \<open>sort.Strings\<close> (the byte
  order is the lexicographic order of \<open>Char_ord\<close> and \<open>List_Lexorder\<close>).
\<close>

text \<open>An optional sign and at least one digit, within the range of \<open>int\<close>.\<close>

definition minInt :: int where
  "minInt = - (2 ^ 63)"

definition parseDigits :: "string \<Rightarrow> nat option" where
  "parseDigits s = (if s \<noteq> [] \<and> list_all isDigit s then Some (digitsVal s) else None)"

definition goAtoi :: "string \<Rightarrow> int option" where
  "goAtoi s =
     (let neg = hasPrefix s ''-'';
          body = (if neg \<or> hasPrefix s ''+'' then tl s else s)
      in case parseDigits body of
           None \<Rightarrow> None
         | Some n \<Rightarrow> (let v = (if neg then - int n else int n)
                     in if minInt \<le> v \<and> v \<le> maxInt then Some v else None))"

definition cutPrefix :: "string \<Rightarrow> string \<Rightarrow> string option" where
  "cutPrefix s p = (if hasPrefix s p then Some (drop (length p) s) else None)"

definition filepathBase :: "string \<Rightarrow> string" where
  "filepathBase p =
     (if p = [] then ''.''
      else let q = trimRight p ''/''
           in if q = [] then ''/'' else rev (takeWhile (\<lambda>c. c \<noteq> CHR ''/'') (rev q)))"

text \<open>An error of the operating system: \<open>fs.ErrNotExist\<close> or another one with its text.\<close>

datatype osError = ErrNotExist | OtherError string

definition sortStrings :: "string list \<Rightarrow> string list" where
  "sortStrings xs = sort xs"

lemma sortStrings_set [simp]: "set (sortStrings xs) = set xs"
  by (simp add: sortStrings_def)

lemma parseDigits_itoaNat: "parseDigits (itoaNat n) = Some n"
  using itoaNat_digits [of _ n] by (simp add: parseDigits_def list_all_iff)

lemma hasPrefix_itoaNat: "\<not> hasPrefix (itoaNat n) ''-''" "\<not> hasPrefix (itoaNat n) ''+''"
proof -
  have "hd (itoaNat n) \<noteq> CHR ''-''" "hd (itoaNat n) \<noteq> CHR ''+''"
    using itoaNat_digits [of "hd (itoaNat n)" n] isDigit_not by auto
  then show "\<not> hasPrefix (itoaNat n) ''-''" "\<not> hasPrefix (itoaNat n) ''+''"
    by (cases "itoaNat n"; simp add: hasPrefix_def)+
qed

lemma goAtoi_Itoa: "minInt \<le> i \<Longrightarrow> i \<le> maxInt \<Longrightarrow> goAtoi (Itoa i) = Some i"
  by (auto simp: goAtoi_def Itoa_def parseDigits_itoaNat hasPrefix_itoaNat hasPrefix_Cons Let_def)

lemma filepathBase_no_slash:
  assumes "CHR ''/'' \<notin> set p" "p \<noteq> []" shows "filepathBase p = p"
proof -
  obtain c cs where c: "rev p = c # cs" using assms(2) by (metis list.exhaust rev_is_Nil_conv)
  then have "c \<in> set p" by (metis list.set_intros(1) set_rev)
  then have "c \<noteq> CHR ''/''" using assms(1) by blast
  then have "dropWhile (\<lambda>c. c \<in> set ''/'') (rev p) = rev p" using c by simp
  then have q: "trimRight p ''/'' = p" by (simp add: trimRight_def)
  have t: "takeWhile (\<lambda>c. c \<noteq> CHR ''/'') (rev p) = rev p"
    using assms(1) by (intro takeWhile_eq_all_conv [THEN iffD2]) auto
  show ?thesis unfolding filepathBase_def Let_def q t using assms(2) by simp
qed

end
