(* ===== verification/Edit_Distance.thy ===== *)
theory Edit_Distance
  imports Main
begin

text \<open>
  The edit graph of two lists: paths that match, delete and insert, and the least number of deletions and insertions.
  This is the specification side of the Myers engine of \<open>cmds/diff/myers.go\<close>.
\<close>

section \<open>The distance\<close>

fun ed :: "'a list \<Rightarrow> 'a list \<Rightarrow> nat" where
  "ed [] ys = length ys"
| "ed (x # xs) [] = Suc (length xs)"
| "ed (x # xs) (y # ys) = (if x = y then ed xs ys else Suc (min (ed xs (y # ys)) (ed (x # xs) ys)))"

lemma ed_Nil2 [simp]: "ed xs [] = length xs"
  by (cases xs) auto

text \<open>One element more or less on one side changes the distance by at most one.\<close>

lemma ed_Cons_bounds:
  "(\<forall>x. ed (x # xs) ys \<le> Suc (ed xs ys) \<and> ed xs ys \<le> Suc (ed (x # xs) ys)) \<and>
   (\<forall>y. ed xs (y # ys) \<le> Suc (ed xs ys) \<and> ed xs ys \<le> Suc (ed xs (y # ys)))"
proof (induction "length xs + length ys" arbitrary: xs ys rule: less_induct)
  case less
  have "ed (x # xs) ys \<le> Suc (ed xs ys) \<and> ed xs ys \<le> Suc (ed (x # xs) ys)" for x
  proof (cases ys)
    case (Cons y' ys')
    have "ed xs (y' # ys') \<le> Suc (ed xs ys')" "ed xs ys' \<le> Suc (ed xs (y' # ys'))"
      "ed xs ys' \<le> Suc (ed (x # xs) ys')"
      using less [of xs ys'] Cons by auto
    then show ?thesis by (auto simp: Cons)
  qed simp
  moreover have "ed xs (y # ys) \<le> Suc (ed xs ys) \<and> ed xs ys \<le> Suc (ed xs (y # ys))" for y
  proof (cases xs)
    case (Cons x' xs')
    have "ed (x' # xs') ys \<le> Suc (ed xs' ys)" "ed xs' ys \<le> Suc (ed (x' # xs') ys)"
      "ed xs' ys \<le> Suc (ed xs' (y # ys))"
      using less [of xs' ys] Cons by auto
    then show ?thesis by (auto simp: Cons)
  qed simp
  ultimately show ?case by blast
qed

lemma ed_le: "ed xs ys \<le> length xs + length ys"
  by (induction xs ys rule: ed.induct) auto

lemma ed_diff: "int (length xs) - int (length ys) \<le> int (ed xs ys)"
  "int (length ys) - int (length xs) \<le> int (ed xs ys)"
  by (induction xs ys rule: ed.induct) (auto simp: min_def)

lemma ed_parity: "even (ed xs ys + length xs + length ys)"
  by (induction xs ys rule: ed.induct) (auto simp: min_def)

section \<open>Paths\<close>

text \<open>\<open>path a b d x y x' y'\<close>: from \<open>(x, y)\<close> to \<open>(x', y')\<close> with \<open>d\<close> deletions and insertions.\<close>

inductive path :: "'a list \<Rightarrow> 'a list \<Rightarrow> nat \<Rightarrow> nat \<Rightarrow> nat \<Rightarrow> nat \<Rightarrow> nat \<Rightarrow> bool" for a b where
  path_refl: "x \<le> length a \<Longrightarrow> y \<le> length b \<Longrightarrow> path a b 0 x y x y"
| path_match: "path a b d x y x' y' \<Longrightarrow> x' < length a \<Longrightarrow> y' < length b \<Longrightarrow> a ! x' = b ! y' \<Longrightarrow>
    path a b d x y (Suc x') (Suc y')"
| path_del: "path a b d x y x' y' \<Longrightarrow> x' < length a \<Longrightarrow> path a b (Suc d) x y (Suc x') y'"
| path_ins: "path a b d x y x' y' \<Longrightarrow> y' < length b \<Longrightarrow> path a b (Suc d) x y x' (Suc y')"

lemma path_bounds: "path a b d x y x' y' \<Longrightarrow> x \<le> x' \<and> y \<le> y' \<and> x' \<le> length a \<and> y' \<le> length b"
  by (induction rule: path.induct) auto

lemma path_diag: "path a b d x y x' y' \<Longrightarrow> \<bar>(int x' - int y') - (int x - int y)\<bar> \<le> int d"
  by (induction rule: path.induct) auto

lemma path_trans: "path a b e x' y' x'' y'' \<Longrightarrow> path a b d x y x' y' \<Longrightarrow> path a b (d + e) x y x'' y''"
proof (induction rule: path.induct)
  case (path_del e x' y' x'' y'')
  then show ?case using path.path_del [of a b "d + e" x y x'' y''] by simp
next
  case (path_ins e x' y' x'' y'')
  then show ?case using path.path_ins [of a b "d + e" x y x'' y''] by simp
qed (auto intro: path_match)

text \<open>The remaining distance falls by at most one per edit and not at all along a match.\<close>

lemma ed_drop_match:
  "x < length a \<Longrightarrow> y < length b \<Longrightarrow> a ! x = b ! y \<Longrightarrow> ed (drop x a) (drop y b) = ed (drop (Suc x) a) (drop (Suc y) b)"
  by (simp flip: Cons_nth_drop_Suc)

lemma ed_drop_del: "x < length a \<Longrightarrow> ed (drop x a) ys \<le> Suc (ed (drop (Suc x) a) ys)"
  using ed_Cons_bounds [of "drop (Suc x) a" ys] Cons_nth_drop_Suc [of x a] by metis

lemma ed_drop_ins: "y < length b \<Longrightarrow> ed xs (drop y b) \<le> Suc (ed xs (drop (Suc y) b))"
  using ed_Cons_bounds [of xs "drop (Suc y) b"] Cons_nth_drop_Suc [of y b] by metis

lemma path_ed: "path a b d x y x' y' \<Longrightarrow> ed (drop x a) (drop y b) \<le> d + ed (drop x' a) (drop y' b)"
proof (induction rule: path.induct)
  case (path_match d x y x' y')
  then show ?case by (simp add: ed_drop_match)
next
  case (path_del d x y x' y')
  then show ?case using ed_drop_del [of x' a "drop y' b"] by simp
next
  case (path_ins d x y x' y')
  then show ?case using ed_drop_ins [of y' b "drop x' a"] by simp
qed simp

lemma path_del_run: "x \<le> x' \<Longrightarrow> x' \<le> length a \<Longrightarrow> y \<le> length b \<Longrightarrow> path a b (x' - x) x y x' y"
  by (induction x' rule: dec_induct) (auto intro: path_refl dest: path_del simp: Suc_diff_le)

lemma path_ins_run: "y \<le> y' \<Longrightarrow> y' \<le> length b \<Longrightarrow> x \<le> length a \<Longrightarrow> path a b (y' - y) x y x y'"
  by (induction y' rule: dec_induct) (auto intro: path_refl dest: path_ins simp: Suc_diff_le)

text \<open>Some path attains the distance.\<close>

lemma path_exists:
  assumes "x \<le> length a" "y \<le> length b"
  shows "path a b (ed (drop x a) (drop y b)) x y (length a) (length b)"
  using assms
proof (induction "length a - x + (length b - y)" arbitrary: x y rule: less_induct)
  case less
  consider "x = length a" | "y = length b" | "x < length a" "y < length b" using less.prems by linarith
  then show ?case
  proof cases
    case 1
    then show ?thesis using less.prems path_ins_run [of y "length b" b x a] by simp
  next
    case 2
    then show ?thesis using less.prems path_del_run [of x "length a" a y b] by simp
  next
    case 3
    have step: "path a b e x y x1 y1 \<Longrightarrow> path a b (ed (drop x1 a) (drop y1 b)) x1 y1 (length a) (length b) \<Longrightarrow>
        path a b (e + ed (drop x1 a) (drop y1 b)) x y (length a) (length b)" for e x1 y1
      by (rule path_trans)
    show ?thesis
    proof (cases "a ! x = b ! y")
      case True
      then have "path a b 0 x y (Suc x) (Suc y)" using 3 by (intro path_match path_refl) auto
      then show ?thesis using step [of 0 "Suc x" "Suc y"] less.hyps [of "Suc x" "Suc y"] 3 True
        by (simp add: ed_drop_match)
    next
      case False
      have "ed (drop x a) (drop y b) = Suc (min (ed (drop (Suc x) a) (drop y b)) (ed (drop x a) (drop (Suc y) b)))"
        using 3 False Cons_nth_drop_Suc [of x a] Cons_nth_drop_Suc [of y b] by (metis ed.simps(3))
      moreover have "path a b 1 x y (Suc x) y" "path a b 1 x y x (Suc y)"
        using 3 path_del [OF path_refl [of x a y b]] path_ins [OF path_refl [of x a y b]] by auto
      ultimately show ?thesis
        using step [of 1 "Suc x" y] step [of 1 x "Suc y"] less.hyps [of "Suc x" y] less.hyps [of x "Suc y"] 3
        by (auto simp: min_def)
    qed
  qed
qed

section \<open>Reversal\<close>

lemma path_Cons_match: "path a b d (Suc x) (Suc y) x' y' \<Longrightarrow> x < length a \<Longrightarrow> y < length b \<Longrightarrow> a ! x = b ! y \<Longrightarrow>
    path a b d x y x' y'"
  using path_trans [of a b d "Suc x" "Suc y" x' y' 0 x y] path_match [OF path_refl [of x a y b]] by auto

lemma path_Cons_del: "path a b d (Suc x) y x' y' \<Longrightarrow> x < length a \<Longrightarrow> path a b (Suc d) x y x' y'"
  using path_trans [of a b d "Suc x" y x' y' 1 x y] path_del [OF path_refl [of x a y b]] path_bounds
  by fastforce

lemma path_Cons_ins: "path a b d x (Suc y) x' y' \<Longrightarrow> y < length b \<Longrightarrow> path a b (Suc d) x y x' y'"
  using path_trans [of a b d x "Suc y" x' y' 1 x y] path_ins [OF path_refl [of x a y b]] path_bounds
  by fastforce

lemma path_rev:
  "path a b d x y x' y' \<Longrightarrow>
   path (rev a) (rev b) d (length a - x') (length b - y') (length a - x) (length b - y)"
proof (induction rule: path.induct)
  case (path_match d x y x' y')
  have "Suc (length a - Suc x') = length a - x'" "Suc (length b - Suc y') = length b - y'"
    using path_match.hyps by auto
  moreover have "rev a ! (length a - Suc x') = rev b ! (length b - Suc y')"
    using path_match.hyps by (simp add: rev_nth)
  ultimately show ?case using path_match by - (rule path_Cons_match, simp_all)
next
  case (path_del d x y x' y')
  then have "Suc (length a - Suc x') = length a - x'" by auto
  then show ?case using path_del by - (rule path_Cons_del, simp_all)
next
  case (path_ins d x y x' y')
  then have "Suc (length b - Suc y') = length b - y'" by auto
  then show ?case using path_ins by - (rule path_Cons_ins, simp_all)
qed (auto intro: path_refl)

lemma ed_rev: "ed (rev a) (rev b) = ed a b"
proof -
  have le: "ed (rev a) (rev b) \<le> ed a b" for a b :: "'a list"
    using path_ed [OF path_rev [OF path_exists [of 0 a 0 b]]] by simp
  show ?thesis using le [of a b] le [of "rev a" "rev b"] by simp
qed

text \<open>A path of least cost can be cut at any number of edits.\<close>

lemma path_cut:
  "path a b d x y x' y' \<Longrightarrow> e \<le> d \<Longrightarrow> \<exists>u v. path a b e x y u v \<and> path a b (d - e) u v x' y'"
proof (induction arbitrary: e rule: path.induct)
  case (path_match d x y x' y')
  then show ?case by (meson path.path_match)
next
  case (path_del d x y x' y')
  show ?case
  proof (cases "e = Suc d")
    case True
    have p: "path a b (Suc d) x y (Suc x') y'" using path_del.hyps by (rule path.path_del)
    show ?thesis using True p path_refl [of "Suc x'" a y' b] path_bounds [OF p] by auto
  next
    case False
    then have e: "e \<le> d" using path_del.prems by simp
    then obtain u v where uv: "path a b e x y u v" "path a b (d - e) u v x' y'" using path_del.IH by blast
    have "path a b (Suc d - e) u v (Suc x') y'"
      using path.path_del [OF uv(2) path_del.hyps(2)] e by (simp add: Suc_diff_le)
    then show ?thesis using uv(1) by blast
  qed
next
  case (path_ins d x y x' y')
  show ?case
  proof (cases "e = Suc d")
    case True
    have p: "path a b (Suc d) x y x' (Suc y')" using path_ins.hyps by (rule path.path_ins)
    show ?thesis using True p path_refl [of x' a "Suc y'" b] path_bounds [OF p] by auto
  next
    case False
    then have e: "e \<le> d" using path_ins.prems by simp
    then obtain u v where uv: "path a b e x y u v" "path a b (d - e) u v x' y'" using path_ins.IH by blast
    have "path a b (Suc d - e) u v x' (Suc y')"
      using path.path_ins [OF uv(2) path_ins.hyps(2)] e by (simp add: Suc_diff_le)
    then show ?thesis using uv(1) by blast
  qed
qed (auto intro: path_refl)

end
