(* ===== verification/Bisect_Grid.thy ===== *)
theory Bisect_Grid
  imports Diff_Myers
begin

text \<open>
  The edit grid behind \<open>bisect\<close> of \<open>src/cmds/diff/myers.go\<close>: the distance still to go from a point
  (also from the points outside the grid that the loops produce), snakes, the entries of the two
  arrays and what they mean before a round (\<open>Ready\<close>), and the points on a cheapest path
  (\<open>optSplit\<close>).
\<close>

section \<open>The remaining distance, also outside the grid\<close>

definition rem :: "int list \<Rightarrow> int list \<Rightarrow> int \<Rightarrow> int \<Rightarrow> int" where
  "rem a b x y =
     (if x < int (length a) \<and> y < int (length b) then int (ed (drop (nat x) a) (drop (nat y) b))
      else (int (length a) - x) + (int (length b) - y))"

definition dist :: "int list \<Rightarrow> int list \<Rightarrow> int" where
  "dist a b = int (ed a b)"

lemma rem_grid:
  assumes "0 \<le> x" "x \<le> int (length a)" "0 \<le> y" "y \<le> int (length b)"
  shows "rem a b x y = int (ed (drop (nat x) a) (drop (nat y) b))"
proof (cases "x < int (length a) \<and> y < int (length b)")
  case False
  then consider "x = int (length a)" | "y = int (length b)" using assms by linarith
  then show ?thesis using assms False by cases (auto simp: rem_def)
qed (simp add: rem_def)

lemma rem_del: assumes "0 \<le> x" "0 \<le> y" shows "rem a b x y \<le> rem a b (x + 1) y + 1"
proof (cases "x < int (length a) \<and> y < int (length b)")
  case True
  have "rem a b x y = int (ed (drop (nat x) a) (drop (nat y) b))"
    "rem a b (x + 1) y = int (ed (drop (Suc (nat x)) a) (drop (nat y) b))"
    using True assms rem_grid [of x a y b] rem_grid [of "x + 1" a y b] by (simp_all add: nat_add_distrib)
  moreover have "nat x < length a" using True assms by linarith
  ultimately show ?thesis using ed_drop_del [of "nat x" a "drop (nat y) b"] by linarith
qed (use assms in \<open>auto simp: rem_def\<close>)

lemma rem_ins: assumes "0 \<le> x" "0 \<le> y" shows "rem a b x y \<le> rem a b x (y + 1) + 1"
proof (cases "x < int (length a) \<and> y < int (length b)")
  case True
  have "rem a b x y = int (ed (drop (nat x) a) (drop (nat y) b))"
    "rem a b x (y + 1) = int (ed (drop (nat x) a) (drop (Suc (nat y)) b))"
    using True assms rem_grid [of x a y b] rem_grid [of x a "y + 1" b] by (simp_all add: nat_add_distrib)
  moreover have "nat y < length b" using True assms by linarith
  ultimately show ?thesis using ed_drop_ins [of "nat y" b "drop (nat x) a"] by linarith
qed (use assms in \<open>auto simp: rem_def\<close>)

lemma rem_match:
  assumes "0 \<le> x" "0 \<le> y" "x < int (length a)" "y < int (length b)" "a ! nat x = b ! nat y"
  shows "rem a b (x + 1) (y + 1) = rem a b x y"
proof -
  have "nat x < length a" "nat y < length b" using assms by linarith+
  then show ?thesis
    using assms rem_grid [of x a y b] rem_grid [of "x + 1" a "y + 1" b] ed_drop_match [of "nat x" a "nat y" b]
    by (simp add: nat_add_distrib)
qed

lemma rem_0: "rem a b 0 0 = dist a b"
  using rem_grid [of 0 a 0 b] by (simp add: dist_def)

lemma dist_bounds: "bisDelta a b \<le> dist a b" "- bisDelta a b \<le> dist a b" "dist a b \<le> int (length a + length b)"
  using ed_diff [where xs = a and ys = b] ed_le [of a b] by (auto simp: bisDelta_def dist_def)

lemma dist_parity: "even (dist a b - bisDelta a b)"
proof -
  have "even (int (ed a b + length a + length b))" using ed_parity [of a b] by simp
  then show ?thesis by (auto simp: dist_def bisDelta_def)
qed

lemma dist_rev [simp]: "dist (rev a) (rev b) = dist a b" "bisDelta (rev a) (rev b) = bisDelta a b"
  "maxD (rev a) (rev b) = maxD a b"
  by (simp_all add: dist_def ed_rev bisDelta_def maxD_def)

section \<open>Snakes\<close>

definition matchAtXY :: "int list \<Rightarrow> int list \<Rightarrow> int \<Rightarrow> int \<Rightarrow> bool" where
  "matchAtXY a b x y = (x < int (length a) \<and> y < int (length b) \<and> a ! nat x = b ! nat y)"

text \<open>A point of the grid that at most \<open>d\<close> edits lead to.\<close>

definition reach :: "int list \<Rightarrow> int list \<Rightarrow> int \<Rightarrow> int \<Rightarrow> int \<Rightarrow> bool" where
  "reach a b d x y \<longleftrightarrow> (\<exists>e. int e \<le> d \<and> path a b e 0 0 (nat x) (nat y))"

lemma reach_0: "0 \<le> d \<Longrightarrow> reach a b d 0 0"
  unfolding reach_def by (intro exI [of _ 0]) (simp add: path_refl)

lemma reach_mono: "reach a b d x y \<Longrightarrow> d \<le> d' \<Longrightarrow> reach a b d' x y"
  unfolding reach_def by (meson order_trans)

lemma reach_del: "reach a b (d - 1) x y \<Longrightarrow> 0 \<le> x \<Longrightarrow> x + 1 \<le> int (length a) \<Longrightarrow> reach a b d (x + 1) y"
proof -
  assume r: "reach a b (d - 1) x y" "0 \<le> x" "x + 1 \<le> int (length a)"
  then obtain e where e: "int e \<le> d - 1" "path a b e 0 0 (nat x) (nat y)" by (auto simp: reach_def)
  have "path a b (Suc e) 0 0 (Suc (nat x)) (nat y)" using e r by (intro path_del) auto
  moreover have "Suc (nat x) = nat (x + 1)" using r by simp
  ultimately show ?thesis using e(1) unfolding reach_def by (intro exI [of _ "Suc e"]) simp
qed

lemma reach_ins: "reach a b (d - 1) x y \<Longrightarrow> 0 \<le> y \<Longrightarrow> y + 1 \<le> int (length b) \<Longrightarrow> reach a b d x (y + 1)"
proof -
  assume r: "reach a b (d - 1) x y" "0 \<le> y" "y + 1 \<le> int (length b)"
  then obtain e where e: "int e \<le> d - 1" "path a b e 0 0 (nat x) (nat y)" by (auto simp: reach_def)
  have "path a b (Suc e) 0 0 (nat x) (Suc (nat y))" using e r by (intro path_ins) auto
  moreover have "Suc (nat y) = nat (y + 1)" using r by simp
  ultimately show ?thesis using e(1) unfolding reach_def by (intro exI [of _ "Suc e"]) simp
qed

lemma reach_match:
  assumes "reach a b d x y" "0 \<le> x" "0 \<le> y" "x < int (length a)" "y < int (length b)" "a ! nat x = b ! nat y"
  shows "reach a b d (x + 1) (y + 1)"
proof -
  obtain e where e: "int e \<le> d" "path a b e 0 0 (nat x) (nat y)" using assms(1) by (auto simp: reach_def)
  have "path a b e 0 0 (Suc (nat x)) (Suc (nat y))" using e(2) assms by (intro path_match) auto
  moreover have "Suc (nat x) = nat (x + 1)" "Suc (nat y) = nat (y + 1)" using assms by simp_all
  ultimately show ?thesis using e(1) unfolding reach_def by (intro exI [of _ e]) simp
qed

lemma snake_ok:
  assumes "0 \<le> x" "0 \<le> y"
  shows "\<exists>x'. snake a b x y = Some (x', y + (x' - x)) \<and> x \<le> x' \<and> (x \<le> int (length a) \<longrightarrow> x' \<le> int (length a)) \<and>
    rem a b x' (y + (x' - x)) = rem a b x y \<and> \<not> matchAtXY a b x' (y + (x' - x)) \<and>
    (\<forall>d. reach a b d x y \<longrightarrow> reach a b d x' (y + (x' - x)))"
  using assms
proof (induction "nat (int (length a) - x)" arbitrary: x y rule: less_induct)
  case less
  note nn = less.prems
  show ?case
  proof (cases "matchAtXY a b x y")
    case True
    then have m: "x < int (length a)" "y < int (length b)" "a ! nat x = b ! nat y" by (auto simp: matchAtXY_def)
    then have st: "snake a b x y = snake a b (x + 1) (y + 1)"
      using nn by (subst snake.simps) (simp add: index_def)
    obtain x' where "snake a b (x + 1) (y + 1) = Some (x', y + 1 + (x' - (x + 1)))" "x + 1 \<le> x'"
      "x + 1 \<le> int (length a) \<longrightarrow> x' \<le> int (length a)"
      "rem a b x' (y + 1 + (x' - (x + 1))) = rem a b (x + 1) (y + 1)"
      "\<not> matchAtXY a b x' (y + 1 + (x' - (x + 1)))"
      "\<forall>d. reach a b d (x + 1) (y + 1) \<longrightarrow> reach a b d x' (y + 1 + (x' - (x + 1)))"
      using less.hyps [of "x + 1" "y + 1"] m nn by auto
    then show ?thesis using st m nn rem_match [of x y a b] reach_match [OF _ nn m] by (auto simp: algebra_simps)
  next
    case False
    then have "snake a b x y = Some (x, y)"
      using nn by (subst snake.simps) (auto simp: index_def matchAtXY_def)
    then show ?thesis using False by auto
  qed
qed

lemma snakeRev_snake:
  assumes "0 \<le> x" "0 \<le> y" shows "snakeRev a b x y = snake (rev a) (rev b) x y"
  using assms
proof (induction "nat (int (length a) - x)" arbitrary: x y rule: less_induct)
  case less
  note nn = less.prems
  have ix: "index (rev l) z = index l (int (length l) - z - 1)" if "0 \<le> z" "z < int (length l)" for l :: "int list" and z
  proof -
    have "length l - Suc (nat z) = nat (int (length l) - z - 1)" using that by linarith
    then show ?thesis using that by (simp add: index_def rev_nth)
  qed
  show ?case
  proof (cases "x < int (length a) \<and> y < int (length b)")
    case True
    then have "index (rev a) x = index a (int (length a) - x - 1)" "index (rev b) y = index b (int (length b) - y - 1)"
      using ix nn by auto
    then show ?thesis using True nn less.hyps [of "x + 1" "y + 1"]
      by (subst snake.simps, subst snakeRev.simps) (auto split: option.splits)
  next
    case False
    then show ?thesis by (subst snake.simps, subst snakeRev.simps) auto
  qed
qed

section \<open>The arrays\<close>

definition cell :: "int list \<Rightarrow> int list \<Rightarrow> int list \<Rightarrow> int \<Rightarrow> int" where
  "cell a b v k = v ! nat (maxD a b + k)"

definition sized :: "int list \<Rightarrow> int list \<Rightarrow> int list \<Rightarrow> bool" where
  "sized a b v = (int (length v) = 2 * maxD a b + 4)"

lemma maxD_nonneg: "0 \<le> maxD a b"
  by (simp add: maxD_def)

lemma index_cell: "sized a b v \<Longrightarrow> - maxD a b \<le> k \<Longrightarrow> k < maxD a b + 4 \<Longrightarrow>
    index v (maxD a b + k) = Some (cell a b v k)"
  by (auto simp: index_def sized_def cell_def)

lemma setAt_cell:
  assumes "sized a b v" "- maxD a b \<le> k" "k < maxD a b + 4"
  shows "\<exists>v'. setAt v (maxD a b + k) x = Some v' \<and> sized a b v' \<and> cell a b v' k = x \<and>
    (\<forall>j. - maxD a b \<le> j \<longrightarrow> j \<noteq> k \<longrightarrow> cell a b v' j = cell a b v j)"
proof -
  let ?v = "v[nat (maxD a b + k) := x]"
  have lt: "nat (maxD a b + k) < length v" using assms by (auto simp: sized_def)
  have "setAt v (maxD a b + k) x = Some ?v" using assms by (auto simp: setAt_def sized_def)
  moreover have "cell a b ?v k = x" using lt by (simp add: cell_def)
  moreover have "cell a b ?v j = cell a b v j" if "- maxD a b \<le> j" "j \<noteq> k" for j
  proof -
    have "nat (maxD a b + j) \<noteq> nat (maxD a b + k)" using that assms(2) by linarith
    then show ?thesis by (simp add: cell_def)
  qed
  ultimately show ?thesis using assms(1) by (auto simp: sized_def)
qed

section \<open>Good entries\<close>

text \<open>An entry \<open>x\<close> on diagonal \<open>k\<close> that \<open>d\<close> edits account for.\<close>

definition good :: "int list \<Rightarrow> int list \<Rightarrow> int \<Rightarrow> int \<Rightarrow> int \<Rightarrow> bool" where
  "good a b d k x = (0 \<le> x \<and> k \<le> x \<and> dist a b \<le> d + rem a b x (x - k) \<and>
     (x \<le> int (length a) \<longrightarrow> x - k \<le> int (length b) \<longrightarrow> reach a b d x (x - k)))"

lemma good_mono: "good a b d k x \<Longrightarrow> d \<le> d' \<Longrightarrow> good a b d' k x"
  by (auto simp: good_def intro: reach_mono)

text \<open>Outside the grid an entry is on a diagonal far from the corner.\<close>

lemma good_right: "good a b d k x \<Longrightarrow> x > int (length a) \<Longrightarrow> k \<ge> bisDelta a b + dist a b - d + 2"
  by (auto simp: good_def rem_def bisDelta_def)

lemma good_below: "good a b d k x \<Longrightarrow> x - k > int (length b) \<Longrightarrow> k \<le> bisDelta a b - dist a b + d - 2"
  by (auto simp: good_def rem_def bisDelta_def)

lemma good_del: "good a b (d - 1) (k - 1) x \<Longrightarrow> good a b d k (x + 1)"
  using rem_del [of x "x - (k - 1)" a b] reach_del [of a b d x "x - (k - 1)"] by (auto simp: good_def algebra_simps)

lemma good_ins: "good a b (d - 1) (k + 1) x \<Longrightarrow> good a b d k x"
  using rem_ins [of x "x - (k + 1)" a b] reach_ins [of a b d x "x - (k + 1)"] by (auto simp: good_def algebra_simps)

lemma good_snake:
  assumes "good a b d k x"
  shows "\<exists>x'. snake a b x (x - k) = Some (x', x' - k) \<and> x \<le> x' \<and> good a b d k x' \<and> \<not> matchAtXY a b x' (x' - k)"
proof -
  have g: "0 \<le> x" "0 \<le> x - k" "dist a b \<le> d + rem a b x (x - k)"
    "x \<le> int (length a) \<Longrightarrow> x - k \<le> int (length b) \<Longrightarrow> reach a b d x (x - k)"
    using assms by (auto simp: good_def)
  obtain x' where x': "snake a b x (x - k) = Some (x', x - k + (x' - x))" "x \<le> x'"
    "rem a b x' (x - k + (x' - x)) = rem a b x (x - k)" "\<not> matchAtXY a b x' (x - k + (x' - x))"
    "\<forall>d. reach a b d x (x - k) \<longrightarrow> reach a b d x' (x - k + (x' - x))"
    using snake_ok [OF g(1,2)] by blast
  have eq: "x - k + (x' - x) = x' - k" by simp
  show ?thesis using x' g unfolding eq by (intro exI [of _ x']) (auto simp: good_def)
qed

section \<open>The state before a round\<close>

definition Ready :: "int list \<Rightarrow> int list \<Rightarrow> int \<Rightarrow> int \<Rightarrow> int \<Rightarrow> int list \<Rightarrow> bool" where
  "Ready a b d ks ke v \<longleftrightarrow>
     sized a b v \<and> 0 \<le> ks \<and> even ks \<and> 0 \<le> ke \<and> even ke \<and> (d \<le> 1 \<longrightarrow> ks = 0 \<and> ke = 0) \<and>
     min d (bisDelta a b + dist a b - d + 2) \<le> d - ke \<and>
     - d + ks \<le> max (- d) (bisDelta a b - dist a b + d - 2) \<and>
     (\<forall>j. \<bar>j\<bar> < d \<longrightarrow> cell a b v j = - 1 \<or> good a b (d - 1) j (cell a b v j)) \<and>
     (\<forall>j. d \<le> \<bar>j\<bar> \<longrightarrow> - maxD a b \<le> j \<longrightarrow> j < maxD a b + 4 \<longrightarrow> cell a b v j = - 1 \<or> d \<le> 1 \<and> j = 1) \<and>
     (d = 0 \<longrightarrow> cell a b v 1 = 0) \<and>
     (\<forall>j. odd (j - d) \<longrightarrow> - d + 1 + ks \<le> j \<longrightarrow> j \<le> d - 1 - ke \<longrightarrow> cell a b v j \<noteq> - 1) \<and>
     (\<forall>x y. 1 \<le> d \<longrightarrow> path a b (nat (d - 1)) 0 0 x y \<longrightarrow>
        d - 1 + int (ed (drop x a) (drop y b)) = dist a b \<longrightarrow> int x \<le> cell a b v (int x - int y))"

text \<open>The value the round writes on a diagonal, and what it is compared with.\<close>

definition stepVal :: "int list \<Rightarrow> int list \<Rightarrow> int \<Rightarrow> int list \<Rightarrow> int \<Rightarrow> int \<Rightarrow> bool" where
  "stepVal a b d v k x \<longleftrightarrow>
     good a b d k x \<and> \<not> matchAtXY a b x (x - k) \<and>
     (\<bar>k + 1\<bar> < d \<longrightarrow> cell a b v (k + 1) \<le> x) \<and> (\<bar>k - 1\<bar> < d \<longrightarrow> cell a b v (k - 1) + 1 \<le> x)"

lemma Ready_neighbour:
  assumes R: "Ready a b d ks ke v" and d: "1 \<le> d" "2 * d - 1 \<le> dist a b"
    and k: "even (k - d)" "- d + ks \<le> k" "k \<le> d - ke"
  shows "(k = - d \<longrightarrow> cell a b v (k + 1) \<noteq> - 1) \<and> (k = d \<longrightarrow> cell a b v (k - 1) \<noteq> - 1) \<and>
    (k \<noteq> - d \<longrightarrow> k \<noteq> d \<longrightarrow> cell a b v (k - 1) \<noteq> - 1 \<or> cell a b v (k + 1) \<noteq> - 1)"
proof -
  have hi: "min d (bisDelta a b + dist a b - d + 2) \<le> d - ke"
    and lo: "- d + ks \<le> max (- d) (bisDelta a b - dist a b + d - 2)"
    and nn: "0 \<le> ks" "0 \<le> ke" "even ks" "even ke" "d \<le> 1 \<longrightarrow> ks = 0 \<and> ke = 0"
    and vis: "\<And>j. odd (j - d) \<Longrightarrow> - d + 1 + ks \<le> j \<Longrightarrow> j \<le> d - 1 - ke \<Longrightarrow> cell a b v j \<noteq> - 1"
    using R by (auto simp: Ready_def)
  note D = dist_bounds [of a b]
  have up: "cell a b v (k + 1) \<noteq> - 1" if "k + 2 \<le> d - ke"
    using that k by (intro vis) auto
  have down: "cell a b v (k - 1) \<noteq> - 1" if "- d + ks \<le> k - 2"
    using that k by (intro vis) auto
  have "k + 2 \<le> d - ke" if "k = - d"
  proof -
    have "ks = 0" using that k nn by linarith
    have "even (d - ke - k)" using k nn(4) that by auto
    moreover have "k < d - ke" using hi D(1,2) d that k by linarith
    ultimately show ?thesis by presburger
  qed
  moreover have "- d + ks \<le> k - 2" if "k = d"
  proof -
    have "even (k - (- d + ks))" using k nn(3) that by auto
    moreover have "- d + ks < k" using lo D(1,2) d that by linarith
    ultimately show ?thesis by presburger
  qed
  moreover have "k + 2 \<le> d - ke \<or> - d + ks \<le> k - 2" if "k \<noteq> - d" "k \<noteq> d"
  proof (rule ccontr)
    assume "\<not> ?thesis"
    moreover have "even (d - ke - k)" "even (k - (- d + ks))" using k(1) nn(3,4) by presburger+
    ultimately have "k = d - ke" "k = - d + ks" using k by presburger+
    then have "ke > 0" "ks > 0" using that nn by auto
    then have "d \<ge> 2" "bisDelta a b + dist a b - d \<le> k" "k \<le> bisDelta a b - dist a b + d"
      using \<open>k = d - ke\<close> \<open>k = - d + ks\<close> nn hi lo that by (auto simp: min_def max_def split: if_splits)
    then show False using d by linarith
  qed
  ultimately show ?thesis using up down by blast
qed

section \<open>Splits on a cheapest path\<close>

definition optSplit :: "int list \<Rightarrow> int list \<Rightarrow> int \<Rightarrow> int \<Rightarrow> bool" where
  "optSplit a b x y \<longleftrightarrow> 0 \<le> x \<and> x \<le> int (length a) \<and> 0 \<le> y \<and> y \<le> int (length b) \<and>
     (\<exists>p. path a b p 0 0 (nat x) (nat y) \<and> int p + int (ed (drop (nat x) a) (drop (nat y) b)) = dist a b \<and>
        2 * int p \<le> dist a b + 1 \<and> 2 * int (ed (drop (nat x) a) (drop (nat y) b)) \<le> dist a b)"

text \<open>Further along a diagonal the rest is not dearer.\<close>

lemma ed_diagonal_step: "ed xs ys \<le> ed (x # xs) (y # ys)"
  using ed_Cons_bounds [of xs ys] by (auto simp: min_def)

lemma ed_drop_diagonal: "ed (drop (u + i) a) (drop (w + i) b) \<le> ed (drop u a) (drop w b)"
  if "u + i \<le> length a" "w + i \<le> length b"
  using that
proof (induction i)
  case (Suc i)
  then have eq: "drop (u + i) a = a ! (u + i) # drop (u + Suc i) a" "drop (w + i) b = b ! (w + i) # drop (w + Suc i) b"
    by (simp_all add: Cons_nth_drop_Suc)
  have "ed (drop (u + Suc i) a) (drop (w + Suc i) b) \<le> ed (drop (u + i) a) (drop (w + i) b)"
    unfolding eq by (rule ed_diagonal_step)
  also have "\<dots> \<le> ed (drop u a) (drop w b)" using Suc by simp
  finally show ?case .
qed simp

lemma optSplit_intro:
  assumes f: "reach a b d x y" "0 \<le> x" "x \<le> int (length a)" "0 \<le> y" "y \<le> int (length b)"
    and r: "reach (rev a) (rev b) e x' y'" "0 \<le> x'" "x' \<le> int (length a)" "0 \<le> y'" "y' \<le> int (length b)"
    and over: "int (length a) - x' \<le> x" "x - y = bisDelta a b - (x' - y')"
    and de: "d + e \<le> dist a b" "d \<le> e + 1" "e \<le> d"
  shows "optSplit a b x y"
proof -
  obtain p where p: "int p \<le> d" "path a b p 0 0 (nat x) (nat y)" using f(1) by (auto simp: reach_def)
  obtain q where q: "int q \<le> e" "path (rev a) (rev b) q 0 0 (nat x') (nat y')" using r(1) by (auto simp: reach_def)
  let ?u = "length a - nat x'" and ?w = "length b - nat y'" and ?i = "nat (x - (int (length a) - x'))"
  have "path a b q ?u ?w (length a) (length b)" using path_rev [OF q(2)] by simp
  then have q': "ed (drop ?u a) (drop ?w b) \<le> q" using path_ed by fastforce
  have xy: "nat x = ?u + ?i" "nat y = ?w + ?i" using f r over by (auto simp: bisDelta_def)
  have "nat x \<le> length a" "nat y \<le> length b" using f by linarith+
  then have "ed (drop (nat x) a) (drop (nat y) b) \<le> ed (drop ?u a) (drop ?w b)"
    unfolding xy by (rule ed_drop_diagonal)
  then have "ed (drop (nat x) a) (drop (nat y) b) \<le> q" using q' by linarith
  moreover have "dist a b \<le> int p + int (ed (drop (nat x) a) (drop (nat y) b))"
    using path_ed [OF p(2)] by (simp add: dist_def)
  ultimately show ?thesis using p q de f unfolding optSplit_def by (intro conjI exI [of _ p]) auto
qed

end
