(* ===== verification/Bisect_Rounds.thy ===== *)
theory Bisect_Rounds
  imports Bisect_Grid
begin

text \<open>
  One forward round of \<open>bisect\<close>: every index it reads is inside the arrays, the round leaves the
  array ready for the next one, and a point it returns lies on a cheapest path.
\<close>

lemma step_ok:
  assumes R: "Ready a b d ks ke v" and d: "0 \<le> d" "d \<le> maxD a b" "2 * d - 1 \<le> dist a b"
    and k: "even (k - d)" "- d + ks \<le> k" "k \<le> d - ke"
    and w: "sized a b w" "\<And>j. odd (j - d) \<Longrightarrow> - maxD a b \<le> j \<Longrightarrow> cell a b w j = cell a b v j"
  shows "\<exists>x0 x. pickX w (maxD a b + k) k d = Some x0 \<and> 0 \<le> x0 \<and> k \<le> x0 \<and> snake a b x0 (x0 - k) = Some (x, x - k) \<and>
    stepVal a b d v k x"
proof -
  let ?M = "maxD a b"
  have nn: "0 \<le> ks" "0 \<le> ke" "d \<le> 1 \<longrightarrow> ks = 0 \<and> ke = 0" "d = 0 \<longrightarrow> cell a b v 1 = 0"
    and old: "\<And>j. \<bar>j\<bar> < d \<Longrightarrow> cell a b v j = - 1 \<or> good a b (d - 1) j (cell a b v j)"
    using R by (auto simp: Ready_def)
  have rng: "- d \<le> k" "k \<le> d" using k nn by auto
  have rd: "index w (?M + k + 1) = Some (cell a b v (k + 1))"
    using index_cell [OF w(1), of "k + 1"] w(2) [of "k + 1"] k(1) rng d by (simp add: add.assoc)
  have ld: "index w (?M + k - 1) = Some (cell a b v (k - 1))" if "k \<noteq> - d"
    using index_cell [OF w(1), of "k - 1"] w(2) [of "k - 1"] k(1) rng d that by (simp add: add_diff_eq)
  define x0 where "x0 = (if k = - d then cell a b v (k + 1) else if k \<noteq> d \<and> cell a b v (k - 1) < cell a b v (k + 1)
     then cell a b v (k + 1) else cell a b v (k - 1) + 1)"
  have pick: "pickX w (?M + k) k d = Some x0"
    using rd ld by (auto simp: pickX_def x0_def)
  have "good a b d k x0 \<and> (\<bar>k + 1\<bar> < d \<longrightarrow> cell a b v (k + 1) \<le> x0) \<and> (\<bar>k - 1\<bar> < d \<longrightarrow> cell a b v (k - 1) + 1 \<le> x0)"
  proof (cases "d = 0")
    case True
    then show ?thesis using rng nn(4) rem_0 [of a b] reach_0 [of 0 a b] by (simp add: x0_def good_def)
  next
    case False
    then have d1: "1 \<le> d" using d by simp
    have kd: "k \<noteq> d \<Longrightarrow> \<bar>k + 1\<bar> < d" "k \<noteq> - d \<Longrightarrow> \<bar>k - 1\<bar> < d" "k = - d \<Longrightarrow> \<not> \<bar>k - 1\<bar> < d" "k = d \<Longrightarrow> \<not> \<bar>k + 1\<bar> < d"
      using k(1) rng by presburger+
    have r: "k \<noteq> d \<Longrightarrow> cell a b v (k + 1) = - 1 \<or> good a b (d - 1) (k + 1) (cell a b v (k + 1))"
      and l: "k \<noteq> - d \<Longrightarrow> cell a b v (k - 1) = - 1 \<or> good a b (d - 1) (k - 1) (cell a b v (k - 1))"
      using old kd by blast+
    have gr: "k \<noteq> d \<Longrightarrow> cell a b v (k + 1) \<noteq> - 1 \<Longrightarrow> good a b d k (cell a b v (k + 1))"
      using r good_ins by blast
    have gl: "k \<noteq> - d \<Longrightarrow> cell a b v (k - 1) \<noteq> - 1 \<Longrightarrow> good a b d k (cell a b v (k - 1) + 1)"
      using l good_del by blast
    have ge: "k \<noteq> d \<Longrightarrow> cell a b v (k + 1) \<ge> - 1" "k \<noteq> - d \<Longrightarrow> cell a b v (k - 1) \<ge> - 1"
      using r l by (auto simp: good_def)
    note N = Ready_neighbour [OF R d1 d(3) k]
    consider "k = - d" "k \<noteq> d" | "k = d" "k \<noteq> - d" | "k \<noteq> - d" "k \<noteq> d" "cell a b v (k - 1) < cell a b v (k + 1)"
      | "k \<noteq> - d" "k \<noteq> d" "\<not> cell a b v (k - 1) < cell a b v (k + 1)"
      using d1 by fastforce
    then show ?thesis
    proof cases
      case 1
      then show ?thesis using N gr kd by (simp add: x0_def)
    next
      case 2
      then show ?thesis using N gl kd by (simp add: x0_def)
    next
      case 3
      then have "cell a b v (k + 1) \<noteq> - 1" using ge by linarith
      then show ?thesis using 3 gr by (simp add: x0_def)
    next
      case 4
      then have "cell a b v (k - 1) \<noteq> - 1" using N ge by fastforce
      then show ?thesis using 4 gl by (simp add: x0_def)
    qed
  qed
  moreover from this obtain x where "snake a b x0 (x0 - k) = Some (x, x - k)" "x0 \<le> x" "good a b d k x"
    "\<not> matchAtXY a b x (x - k)"
    using good_snake by blast
  ultimately show ?thesis using pick by (force simp: stepVal_def good_def)
qed

text \<open>The diagonals of points on a cheapest path are inside the range of the round.\<close>

lemma opt_window:
  assumes "path a b d 0 0 x y" "int d + int (ed (drop x a) (drop y b)) = dist a b"
  shows "\<bar>int x - int y\<bar> \<le> int d" "\<bar>bisDelta a b - (int x - int y)\<bar> \<le> dist a b - int d"
    "x \<le> length a" "y \<le> length b"
proof -
  show "x \<le> length a" "y \<le> length b" "\<bar>int x - int y\<bar> \<le> int d"
    using path_bounds [OF assms(1)] path_diag [OF assms(1)] by auto
  then show "\<bar>bisDelta a b - (int x - int y)\<bar> \<le> dist a b - int d"
    using ed_diff [where xs = "drop x a" and ys = "drop y b"] assms(2) by (auto simp: bisDelta_def)
qed

text \<open>Furthest points dominate cheapest paths from round to round.\<close>

lemma dominate_step:
  assumes V: "\<And>x y e. d = Suc e \<Longrightarrow> path a b e 0 0 x y \<Longrightarrow> int e + int (ed (drop x a) (drop y b)) = dist a b \<Longrightarrow>
      int x \<le> cell a b v (int x - int y)"
    and W: "\<And>k. \<bar>k\<bar> \<le> int d \<Longrightarrow> \<bar>bisDelta a b - k\<bar> \<le> dist a b - int d \<Longrightarrow> even (k - int d) \<Longrightarrow>
      stepVal a b (int d) v k (cell a b w k)"
    and p: "path a b d 0 0 x y" "int d + int (ed (drop x a) (drop y b)) = dist a b" "even (int x - int y - int d)"
  shows "int x \<le> cell a b w (int x - int y)"
  using p V W
proof (induction d "0 :: nat" "0 :: nat" x y rule: path.induct)
  case path_refl
  have "stepVal a b 0 v 0 (cell a b w 0)"
    using path_refl.prems(2,4) dist_bounds [of a b] by (force simp: dist_def)
  then show ?case by (simp add: stepVal_def good_def)
next
  case (path_match d x' y')
  let ?k = "int x' - int y'"
  have "int x' \<le> cell a b w ?k"
    using path_match by (intro path_match.hyps(2)) (auto simp: ed_drop_match)
  moreover have "stepVal a b (int d) v ?k (cell a b w ?k)"
    using opt_window [OF path_match.hyps(1)] path_match
    by (intro path_match.prems(4)) (auto simp: ed_drop_match)
  then have "\<not> matchAtXY a b (cell a b w ?k) (cell a b w ?k - ?k)" by (simp add: stepVal_def)
  then have "cell a b w ?k \<noteq> int x'" using path_match.hyps(3-5) by (auto simp: matchAtXY_def)
  ultimately show ?case by (simp add: algebra_simps)
next
  case (path_del d x' y')
  let ?k = "int x' - int y'"
  have e: "int d + int (ed (drop x' a) (drop y' b)) = dist a b"
    using path_del.prems(1) ed_drop_del [OF path_del.hyps(3), of "drop y' b"] path_ed [OF path_del.hyps(1)]
    by (simp add: dist_def)
  have "int x' \<le> cell a b v ?k" using path_del.prems(3) [OF refl path_del.hyps(1) e] .
  moreover have "path a b (Suc d) 0 0 (Suc x') y'" using path_del.hyps(1,3) by (rule path.path_del)
  note ow = opt_window [OF this path_del.prems(1)]
  have "stepVal a b (int (Suc d)) v (?k + 1) (cell a b w (?k + 1))"
    using ow(1,2) path_del.prems(2) by (intro path_del.prems(4)) (auto simp: algebra_simps)
  then have "cell a b v ?k + 1 \<le> cell a b w (?k + 1)"
    using opt_window(1) [OF path_del.hyps(1) e] by (simp add: stepVal_def)
  ultimately show ?case by (simp add: algebra_simps)
next
  case (path_ins d x' y')
  let ?k = "int x' - int y'"
  have e: "int d + int (ed (drop x' a) (drop y' b)) = dist a b"
    using path_ins.prems(1) ed_drop_ins [OF path_ins.hyps(3), of "drop x' a"] path_ed [OF path_ins.hyps(1)]
    by (simp add: dist_def)
  have "int x' \<le> cell a b v ?k" using path_ins.prems(3) [OF refl path_ins.hyps(1) e] .
  moreover have "path a b (Suc d) 0 0 x' (Suc y')" using path_ins.hyps(1,3) by (rule path.path_ins)
  note ow = opt_window [OF this path_ins.prems(1)]
  have "stepVal a b (int (Suc d)) v (?k - 1) (cell a b w (?k - 1))"
    using ow(1,2) path_ins.prems(2) by (intro path_ins.prems(4)) (auto simp: algebra_simps)
  then have "cell a b v ?k \<le> cell a b w (?k - 1)"
    using opt_window(1) [OF path_ins.hyps(1) e] by (simp add: stepVal_def)
  ultimately show ?case by (simp add: algebra_simps)
qed

lemma path_parity: "path a b d x y x' y' \<Longrightarrow> even ((int x' - int y') - (int x - int y) - int d)"
  by (induction rule: path.induct) auto

section \<open>The end of a round\<close>

lemma round_done:
  assumes R: "Ready a b d ks ke v" and d: "0 \<le> d" "d \<le> maxD a b"
    and w: "sized a b w"
    and new: "\<And>j. even (j - d) \<Longrightarrow> L \<le> j \<Longrightarrow> j \<le> T \<Longrightarrow> stepVal a b d v j (cell a b w j)"
    and keep: "\<And>j. - maxD a b \<le> j \<Longrightarrow> \<not> (even (j - d) \<and> L \<le> j \<and> j \<le> T) \<Longrightarrow> cell a b w j = cell a b v j"
    and LT: "- d \<le> L" "T \<le> d" "L \<le> - d + ks'" "d - ke' \<le> T" "d = 1 \<longrightarrow> 1 \<le> T"
    and b: "0 \<le> ks'" "even ks'" "ks' = ks \<or> - d + ks' \<le> bisDelta a b - dist a b + d"
      "0 \<le> ke'" "even ke'" "ke' = ke \<or> bisDelta a b + dist a b - d \<le> d - ke'"
  shows "Ready a b (d + 1) ks' ke' w"
proof -
  have r: "min d (bisDelta a b + dist a b - d + 2) \<le> d - ke" "- d + ks \<le> max (- d) (bisDelta a b - dist a b + d - 2)"
    "d \<le> 1 \<longrightarrow> ks = 0 \<and> ke = 0"
    and old: "\<And>j. \<bar>j\<bar> < d \<Longrightarrow> cell a b v j = - 1 \<or> good a b (d - 1) j (cell a b v j)"
    and far: "\<And>j. d \<le> \<bar>j\<bar> \<Longrightarrow> - maxD a b \<le> j \<Longrightarrow> j < maxD a b + 4 \<Longrightarrow> cell a b v j = - 1 \<or> d \<le> 1 \<and> j = 1"
    and dom: "\<And>x y. 1 \<le> d \<Longrightarrow> path a b (nat (d - 1)) 0 0 x y \<Longrightarrow>
        d - 1 + int (ed (drop x a) (drop y b)) = dist a b \<Longrightarrow> int x \<le> cell a b v (int x - int y)"
    using R by (auto simp: Ready_def)
  note D = dist_bounds [of a b]
  have fake: "d = 1 \<Longrightarrow> L \<le> 1" using LT(3) b(3) r(3) D by auto
  have e1: "cell a b w j = - 1 \<or> good a b (d + 1 - 1) j (cell a b w j)" if "\<bar>j\<bar> < d + 1" for j
  proof (cases "even (j - d) \<and> L \<le> j \<and> j \<le> T")
    case True
    then show ?thesis using new by (simp add: stepVal_def)
  next
    case False
    then have eq: "cell a b w j = cell a b v j" using keep that d by auto
    show ?thesis
    proof (cases "\<bar>j\<bar> < d")
      case True
      then show ?thesis using old eq good_mono by fastforce
    next
      case out: False
      have "\<not> (d \<le> 1 \<and> j = 1)" using False out that fake LT by auto
      then show ?thesis using far [of j] eq out that d by auto
    qed
  qed
  have e2: "cell a b w j = - 1 \<or> d + 1 \<le> 1 \<and> j = 1" if "d + 1 \<le> \<bar>j\<bar>" "- maxD a b \<le> j" "j < maxD a b + 4" for j
  proof -
    have "cell a b w j = cell a b v j" using that LT by (intro keep) auto
    then show ?thesis using far [of j] that d by auto
  qed
  have e3: "cell a b w j \<noteq> - 1" if "odd (j - (d + 1))" "- (d + 1) + 1 + ks' \<le> j" "j \<le> d + 1 - 1 - ke'" for j
    using new [of j] that LT by (auto simp: stepVal_def good_def)
  have e4: "int x \<le> cell a b w (int x - int y)"
    if "path a b (nat (d + 1 - 1)) 0 0 x y" "d + 1 - 1 + int (ed (drop x a) (drop y b)) = dist a b" for x y
  proof (rule dominate_step [of "nat d" a b v w x y])
    show "int x' \<le> cell a b v (int x' - int y')"
      if "nat d = Suc e" "path a b e 0 0 x' y'" "int e + int (ed (drop x' a) (drop y' b)) = dist a b" for x' y' e
    proof -
      have "nat (d - 1) = e" "int e = d - 1" "1 \<le> d" using that(1) by auto
      with that(2,3) show ?thesis by (intro dom) auto
    qed
    show "stepVal a b (int (nat d)) v k (cell a b w k)"
      if "\<bar>k\<bar> \<le> int (nat d)" "\<bar>bisDelta a b - k\<bar> \<le> dist a b - int (nat d)" "even (k - int (nat d))" for k
    proof -
      have "L \<le> k" "k \<le> T" using that d r(1,2) LT(3,4) b(3,6) by (auto simp: min_def max_def split: if_splits)
      then show ?thesis using new that d by simp
    qed
    show "even (int x - int y - int (nat d))" using path_parity [OF that(1)] d by simp
  qed (use that d in auto)
  have "d + 1 \<le> 1 \<longrightarrow> ks' = 0 \<and> ke' = 0" using b r(3) d D by auto
  moreover have "min (d + 1) (bisDelta a b + dist a b - (d + 1) + 2) \<le> d + 1 - ke'" using b(6) r(1) by auto
  moreover have "- (d + 1) + ks' \<le> max (- (d + 1)) (bisDelta a b - dist a b + (d + 1) - 2)" using b(3) r(2) by auto
  ultimately show ?thesis
    unfolding Ready_def using w b(1,2,4,5) d(1) e1 e2 e3 e4 by (auto simp del: of_nat_add)
qed

section \<open>The forward loop\<close>

definition FwdInv :: "int list \<Rightarrow> int list \<Rightarrow> int \<Rightarrow> bisState \<Rightarrow> int \<Rightarrow> bisState \<Rightarrow> bool" where
  "FwdInv a b d st0 k st \<longleftrightarrow>
     (let T = d - k1end st0; v = bv1 st0; w = bv1 st
      in sized a b w \<and> bv2 st = bv2 st0 \<and> k2start st = k2start st0 \<and> k2end st = k2end st0 \<and>
         even (k - d) \<and> k \<le> T \<and> - d \<le> k + 2 \<and>
         (\<forall>j. even (j - d) \<longrightarrow> k < j \<longrightarrow> j \<le> T \<longrightarrow> stepVal a b d v j (cell a b w j) \<and>
            \<not> (front a b \<and> cell a b w j \<le> int (length a) \<and> cell a b w j - j \<le> int (length b) \<and>
               overlaps a b (bv2 st0) j (\<lambda>z. cell a b w j \<ge> int (length a) - z))) \<and>
         (\<forall>j. - maxD a b \<le> j \<longrightarrow> \<not> (even (j - d) \<and> k < j \<and> j \<le> T) \<longrightarrow> cell a b w j = cell a b v j) \<and>
         k1start st0 \<le> k1start st \<and> even (k1start st) \<and>
         (k1start st = k1start st0 \<or> - d + k1start st \<le> bisDelta a b - dist a b + d) \<and>
         k1end st0 \<le> k1end st \<and> even (k1end st) \<and> k1end st \<le> k1end st0 + (T - k) \<and>
         (k1end st = k1end st0 \<or> bisDelta a b + dist a b - d \<le> d - k1end st))"

lemma write_ok:
  assumes R: "Ready a b d ks ke v" and d: "0 \<le> d" "d \<le> maxD a b" "2 * d - 1 \<le> dist a b"
    and k: "even (k - d)" "- d + ks \<le> k" "k \<le> d - ke"
    and w: "sized a b w" "\<And>j. odd (j - d) \<Longrightarrow> - maxD a b \<le> j \<Longrightarrow> cell a b w j = cell a b v j"
  shows "\<exists>x0 x w'. pickX w (maxD a b + k) k d = Some x0 \<and> 0 \<le> x0 \<and> k \<le> x0 \<and> snake a b x0 (x0 - k) = Some (x, x - k) \<and>
    setAt w (maxD a b + k) x = Some w' \<and> sized a b w' \<and> cell a b w' k = x \<and> stepVal a b d v k x \<and>
    (\<forall>j. - maxD a b \<le> j \<longrightarrow> j \<noteq> k \<longrightarrow> cell a b w' j = cell a b w j)"
proof -
  obtain x0 x where x: "pickX w (maxD a b + k) k d = Some x0" "0 \<le> x0" "k \<le> x0"
    "snake a b x0 (x0 - k) = Some (x, x - k)" "stepVal a b d v k x"
    using step_ok [OF R d k w] by blast
  have "0 \<le> ks" "0 \<le> ke" using R by (auto simp: Ready_def)
  then have "- maxD a b \<le> k" "k < maxD a b + 4" using k d by auto
  from setAt_cell [OF w(1) this, of x] x show ?thesis by blast
qed

lemma rev_same [simp]: "cell (rev a) (rev b) = cell a b" "sized (rev a) (rev b) = sized a b"
  by (intro ext, simp add: cell_def sized_def)+

text \<open>A split point found on the reverse array is on a cheapest path.\<close>

lemma fwd_split:
  assumes R: "Ready (rev a) (rev b) d ks ke v" and d: "0 \<le> d" "2 * d - 1 \<le> dist a b"
    and k: "\<bar>k\<bar> \<le> d" "even (k - d)" "front a b" "overlaps a b v k (\<lambda>z. x \<ge> int (length a) - z)"
    and g: "good a b d k x" "x \<le> int (length a)" "x - k \<le> int (length b)"
  shows "optSplit a b x (x - k)"
proof -
  let ?j = "bisDelta a b - k" and ?x = "cell a b v (bisDelta a b - k)"
  have ov: "0 \<le> maxD a b + ?j" "maxD a b + ?j < 2 * maxD a b + 4" "?x \<noteq> - 1" "int (length a) - ?x \<le> x"
    using k(4) by (simp_all add: overlaps_def Let_def cell_def add_diff_eq)
  have odd: "odd (bisDelta a b)" using k(3) by (simp add: front_def)
  have old: "\<And>j. \<bar>j\<bar> < d \<Longrightarrow> cell a b v j = - 1 \<or> good (rev a) (rev b) (d - 1) j (cell a b v j)"
    and far: "\<And>j. d \<le> \<bar>j\<bar> \<Longrightarrow> - maxD a b \<le> j \<Longrightarrow> j < maxD a b + 4 \<Longrightarrow> cell a b v j = - 1 \<or> d \<le> 1 \<and> j = 1"
    and z: "d = 0 \<Longrightarrow> cell a b v 1 = 0"
    using R unfolding Ready_def rev_same dist_rev by blast+
  have "\<bar>?j\<bar> < d"
  proof (rule ccontr)
    assume "\<not> ?thesis"
    then have j: "d \<le> 1" "?j = 1" using far [of ?j] ov by auto
    then have "d = 0" using odd k(2) d(1) by presburger
    then show False using z j ov(4) k(1) g(2,3) by (auto simp: bisDelta_def)
  qed
  then have r: "good (rev a) (rev b) (d - 1) ?j ?x" using old ov(3) by blast
  have "?x \<le> int (length a)" using good_right [OF r] d k(1) by (simp, linarith)
  moreover have "?x - ?j \<le> int (length b)" using good_below [OF r] d k(1) by (simp, linarith)
  ultimately show ?thesis
    using g r ov d by (intro optSplit_intro [of a b d x "x - k" "d - 1" ?x "?x - ?j"]) (auto simp: good_def)
qed

lemma fwdDiag_ok:
  assumes R: "Ready a b d (k1start st0) (k1end st0) (bv1 st0)" and R2: "Ready (rev a) (rev b) d ks2 ke2 (bv2 st0)"
    and d: "0 \<le> d" "d \<le> maxD a b" "2 * d - 1 \<le> dist a b"
    and I: "FwdInv a b d st0 k st" and g: "- d + k1start st \<le> k"
  shows "(\<exists>x y. fwdDiag a b d k st = Some (Inl (x, y)) \<and> optSplit a b x y) \<or>
    (\<exists>st'. fwdDiag a b d k st = Some (Inr st') \<and> FwdInv a b d st0 (k - 2) st')"
proof -
  let ?T = "d - k1end st0" and ?v = "bv1 st0"
  have i: "sized a b (bv1 st)" "bv2 st = bv2 st0" "k2start st = k2start st0" "k2end st = k2end st0"
      "even (k - d)" "k \<le> ?T"
      "k1start st0 \<le> k1start st" "even (k1start st)"
      "k1start st = k1start st0 \<or> - d + k1start st \<le> bisDelta a b - dist a b + d"
      "k1end st0 \<le> k1end st" "even (k1end st)" "k1end st \<le> k1end st0 + (?T - k)"
      "k1end st = k1end st0 \<or> bisDelta a b + dist a b - d \<le> d - k1end st"
    and dn: "\<And>j. even (j - d) \<Longrightarrow> k < j \<Longrightarrow> j \<le> ?T \<Longrightarrow> stepVal a b d ?v j (cell a b (bv1 st) j) \<and>
        \<not> (front a b \<and> cell a b (bv1 st) j \<le> int (length a) \<and> cell a b (bv1 st) j - j \<le> int (length b) \<and>
           overlaps a b (bv2 st0) j (\<lambda>z. cell a b (bv1 st) j \<ge> int (length a) - z))"
    and keep: "\<And>j. - maxD a b \<le> j \<Longrightarrow> \<not> (even (j - d) \<and> k < j \<and> j \<le> ?T) \<Longrightarrow> cell a b (bv1 st) j = cell a b ?v j"
    using I unfolding FwdInv_def Let_def by blast+
  have lo: "- d \<le> k" "k \<le> d" using g i(6,7) R by (auto simp: Ready_def)
  have ge: "- d + k1start st0 \<le> k" using g i(7) by linarith
  obtain x0 x w where x: "pickX (bv1 st) (maxD a b + k) k d = Some x0"
    "snake a b x0 (x0 - k) = Some (x, x - k)" "setAt (bv1 st) (maxD a b + k) x = Some w" "sized a b w"
    "cell a b w k = x" "stepVal a b d ?v k x"
    "\<And>j. - maxD a b \<le> j \<Longrightarrow> j \<noteq> k \<Longrightarrow> cell a b w j = cell a b (bv1 st) j"
    using write_ok [OF R d i(5) ge i(6) i(1)] keep by blast
  have good: "good a b d k x" using x(6) by (simp add: stepVal_def)
  have step: "FwdInv a b d st0 (k - 2) (st\<lparr>bv1 := w, k1start := ks, k1end := ke\<rparr>)"
    if "k1start st0 \<le> ks" "even ks" "ks = k1start st0 \<or> - d + ks \<le> bisDelta a b - dist a b + d"
      "k1end st0 \<le> ke" "even ke" "ke \<le> k1end st0 + (?T - (k - 2))"
      "ke = k1end st0 \<or> bisDelta a b + dist a b - d \<le> d - ke"
      "\<not> (front a b \<and> x \<le> int (length a) \<and> x - k \<le> int (length b) \<and> overlaps a b (bv2 st0) k (\<lambda>z. x \<ge> int (length a) - z))"
    for ks ke
  proof -
    have "stepVal a b d ?v j (cell a b w j) \<and>
        \<not> (front a b \<and> cell a b w j \<le> int (length a) \<and> cell a b w j - j \<le> int (length b) \<and>
           overlaps a b (bv2 st0) j (\<lambda>z. cell a b w j \<ge> int (length a) - z))"
      if j: "even (j - d)" "k - 2 < j" "j \<le> ?T" for j
    proof (cases "j = k")
      case True
      then show ?thesis using x(5,6) \<open>\<not> (front a b \<and> x \<le> _ \<and> _)\<close> by simp
    next
      case False
      then have "k < j" using j i(5) by presburger
      then show ?thesis using dn [OF j(1) _ j(3)] x(7) [of j] lo d False by simp
    qed
    moreover have "cell a b w j = cell a b ?v j"
      if "- maxD a b \<le> j" "\<not> (even (j - d) \<and> k - 2 < j \<and> j \<le> ?T)" for j
    proof -
      have "j \<noteq> k" using that i(5,6) by auto
      then show ?thesis using x(7) [OF that(1)] keep [OF that(1)] that(2) by auto
    qed
    ultimately show ?thesis unfolding FwdInv_def Let_def using that i x(4) lo by simp
  qed
  have out: "fwdDiag a b d k st =
      (if x > int (length a) then Some (Inr (st\<lparr>bv1 := w, k1end := k1end st + 2\<rparr>))
       else if x - k > int (length b) then Some (Inr (st\<lparr>bv1 := w, k1start := k1start st + 2\<rparr>))
       else if front a b \<and> overlaps a b (bv2 st) k (\<lambda>z. x \<ge> int (length a) - z) then Some (Inl (x, x - k))
       else Some (Inr (st\<lparr>bv1 := w\<rparr>)))"
    unfolding fwdDiag_def Let_def by (simp add: x(1-3))
  consider "x > int (length a)" | "x \<le> int (length a)" "x - k > int (length b)"
    | "x \<le> int (length a)" "x - k \<le> int (length b)" by linarith
  then show ?thesis
  proof cases
    case 1
    have "FwdInv a b d st0 (k - 2) (st\<lparr>bv1 := w, k1start := k1start st, k1end := k1end st + 2\<rparr>)"
      using 1 i good_right [OF good 1] by (intro step) auto
    then show ?thesis using out 1 by auto
  next
    case 2
    have "FwdInv a b d st0 (k - 2) (st\<lparr>bv1 := w, k1start := k1start st + 2, k1end := k1end st\<rparr>)"
      using 2 i good_below [OF good 2(2)] g by (intro step) auto
    then show ?thesis using out 2 by auto
  next
    case 3
    show ?thesis
    proof (cases "front a b \<and> overlaps a b (bv2 st0) k (\<lambda>z. x \<ge> int (length a) - z)")
      case True
      then have "optSplit a b x (x - k)" using fwd_split [OF R2 d(1,3), of k x] lo i(5) good 3 by auto
      then show ?thesis using out 3 True i(2) by auto
    next
      case False
      have "FwdInv a b d st0 (k - 2) (st\<lparr>bv1 := w, k1start := k1start st, k1end := k1end st\<rparr>)"
        using False i by (intro step) auto
      then show ?thesis using out 3 False i(2) by auto
    qed
  qed
qed

lemma fwdLoop_unroll:
  "- d + k1start st \<le> k \<Longrightarrow> fwdDiag a b d k st = Some (Inl p) \<Longrightarrow> fwdLoop a b d k st = Some (Inl p)"
  "- d + k1start st \<le> k \<Longrightarrow> fwdDiag a b d k st = Some (Inr st') \<Longrightarrow> fwdLoop a b d k st = fwdLoop a b d (k - 2) st'"
  "\<not> - d + k1start st \<le> k \<Longrightarrow> fwdLoop a b d k st = Some (Inr st)"
  by (simp_all add: fwdLoop.simps [of a b d k st])

lemma fwdLoop_ok:
  assumes R: "Ready a b d (k1start st0) (k1end st0) (bv1 st0)" and R2: "Ready (rev a) (rev b) d ks2 ke2 (bv2 st0)"
    and d: "0 \<le> d" "d \<le> maxD a b" "2 * d - 1 \<le> dist a b"
    and I: "FwdInv a b d st0 k st"
  shows "(\<exists>x y. fwdLoop a b d k st = Some (Inl (x, y)) \<and> optSplit a b x y) \<or>
    (\<exists>k' st'. fwdLoop a b d k st = Some (Inr st') \<and> FwdInv a b d st0 k' st' \<and> k' < - d + k1start st')"
  using I
proof (induction "nat (k + d + 1)" arbitrary: k st rule: less_induct)
  case less
  show ?case
  proof (cases "- d + k1start st \<le> k")
    case True
    have "0 \<le> k1start st" using less.prems R by (auto simp: FwdInv_def Ready_def Let_def)
    then have small: "nat (k - 2 + d + 1) < nat (k + d + 1)" using True by auto
    consider x y where "fwdDiag a b d k st = Some (Inl (x, y))" "optSplit a b x y"
      | st' where "fwdDiag a b d k st = Some (Inr st')" "FwdInv a b d st0 (k - 2) st'"
      using fwdDiag_ok [OF R R2 d less.prems True] by blast
    then show ?thesis
    proof cases
      case (1 x y)
      then show ?thesis using fwdLoop_unroll(1) [OF True] by blast
    next
      case (2 st')
      then show ?thesis using less.hyps [OF small 2(2)] fwdLoop_unroll(2) [OF True 2(1)] by simp
    qed
  next
    case False
    then show ?thesis using less.prems fwdLoop_unroll(3) [OF False] by auto
  qed
qed

text \<open>The part of a round's outcome that concerns the diagonals of cheapest paths.\<close>

definition windowDone :: "int list \<Rightarrow> int list \<Rightarrow> int \<Rightarrow> int list \<Rightarrow> int list \<Rightarrow> (int \<Rightarrow> int \<Rightarrow> bool) \<Rightarrow> bool" where
  "windowDone a b d v w Q \<longleftrightarrow>
     (\<forall>j. even (j - d) \<longrightarrow> \<bar>j\<bar> \<le> d \<longrightarrow> \<bar>bisDelta a b - j\<bar> \<le> dist a b - d \<longrightarrow>
        stepVal a b d v j (cell a b w j) \<and>
        \<not> (cell a b w j \<le> int (length a) \<and> cell a b w j - j \<le> int (length b) \<and> Q j (cell a b w j)))"

lemma fwd_pass:
  assumes R: "Ready a b d (k1start st0) (k1end st0) (bv1 st0)" and R2: "Ready (rev a) (rev b) d ks2 ke2 (bv2 st0)"
    and d: "0 \<le> d" "d \<le> maxD a b" "2 * d - 1 \<le> dist a b"
  shows "(\<exists>x y. fwdLoop a b d (d - k1end st0) st0 = Some (Inl (x, y)) \<and>
      optSplit a b x y) \<or>
    (\<exists>st'. fwdLoop a b d (d - k1end st0) st0 = Some (Inr st') \<and>
      Ready a b (d + 1) (k1start st') (k1end st') (bv1 st') \<and>
      bv2 st' = bv2 st0 \<and> k2start st' = k2start st0 \<and> k2end st' = k2end st0 \<and>
      windowDone a b d (bv1 st0) (bv1 st')
        (\<lambda>j x. front a b \<and> overlaps a b (bv2 st0) j (\<lambda>z. x \<ge> int (length a) - z)))"
proof -
  let ?T = "d - k1end st0"
  have r: "sized a b (bv1 st0)" "0 \<le> k1start st0" "even (k1start st0)" "0 \<le> k1end st0" "even (k1end st0)"
    "min d (bisDelta a b + dist a b - d + 2) \<le> ?T" "- d + k1start st0 \<le> max (- d) (bisDelta a b - dist a b + d - 2)"
    "d \<le> 1 \<longrightarrow> k1start st0 = 0 \<and> k1end st0 = 0"
    using R by (auto simp: Ready_def)
  have "FwdInv a b d st0 ?T st0"
    unfolding FwdInv_def Let_def using r d dist_bounds [of a b] by auto
  from fwdLoop_ok [OF R R2 d this] show ?thesis
  proof (elim disjE exE conjE)
    fix k st' assume out: "fwdLoop a b d ?T st0 = Some (Inr st')" and I: "FwdInv a b d st0 k st'"
      and stop: "k < - d + k1start st'"
    have i: "sized a b (bv1 st')" "bv2 st' = bv2 st0" "k2start st' = k2start st0" "k2end st' = k2end st0"
        "even (k - d)" "- d \<le> k + 2" "k1start st0 \<le> k1start st'" "even (k1start st')"
        "k1start st' = k1start st0 \<or> - d + k1start st' \<le> bisDelta a b - dist a b + d"
        "k1end st0 \<le> k1end st'" "even (k1end st')"
        "k1end st' = k1end st0 \<or> bisDelta a b + dist a b - d \<le> d - k1end st'"
      and dn: "\<And>j. even (j - d) \<Longrightarrow> k < j \<Longrightarrow> j \<le> ?T \<Longrightarrow> stepVal a b d (bv1 st0) j (cell a b (bv1 st') j) \<and>
        \<not> (front a b \<and> cell a b (bv1 st') j \<le> int (length a) \<and> cell a b (bv1 st') j - j \<le> int (length b) \<and>
           overlaps a b (bv2 st0) j (\<lambda>z. cell a b (bv1 st') j \<ge> int (length a) - z))"
      and keep: "\<And>j. - maxD a b \<le> j \<Longrightarrow> \<not> (even (j - d) \<and> k < j \<and> j \<le> ?T) \<Longrightarrow>
        cell a b (bv1 st') j = cell a b (bv1 st0) j"
      using I unfolding FwdInv_def Let_def by blast+
    have kk: "k + 2 \<le> - d + k1start st'" using stop i(5,8) by presburger
    have "Ready a b (d + 1) (k1start st') (k1end st') (bv1 st')"
    proof (rule round_done [OF R d(1,2) i(1), of "k + 2" ?T])
      show "stepVal a b d (bv1 st0) j (cell a b (bv1 st') j)" if "even (j - d)" "k + 2 \<le> j" "j \<le> ?T" for j
        using dn that by auto
      show "cell a b (bv1 st') j = cell a b (bv1 st0) j"
        if "- maxD a b \<le> j" "\<not> (even (j - d) \<and> k + 2 \<le> j \<and> j \<le> ?T)" for j
      proof -
        have "\<not> (even (j - d) \<and> k < j \<and> j \<le> ?T)" using that(2) i(5) by presburger
        then show ?thesis by (rule keep [OF that(1)])
      qed
    qed (use r i kk d in auto)
    moreover have "windowDone a b d (bv1 st0) (bv1 st')
        (\<lambda>j x. front a b \<and> overlaps a b (bv2 st0) j (\<lambda>z. x \<ge> int (length a) - z))"
      unfolding windowDone_def
    proof (intro allI impI)
      fix j assume j: "even (j - d)" "\<bar>j\<bar> \<le> d" "\<bar>bisDelta a b - j\<bar> \<le> dist a b - d"
      have "k < j" "j \<le> ?T" using j kk r(6,7) i(9) by (auto simp: min_def max_def split: if_splits)
      then show "stepVal a b d (bv1 st0) j (cell a b (bv1 st') j) \<and>
        \<not> (cell a b (bv1 st') j \<le> int (length a) \<and> cell a b (bv1 st') j - j \<le> int (length b) \<and>
           front a b \<and> overlaps a b (bv2 st0) j (\<lambda>z. cell a b (bv1 st') j \<ge> int (length a) - z))"
        using dn [OF j(1)] by blast
    qed
    ultimately show ?thesis using out i by blast
  qed blast
qed

end
