(* ===== verification/Bisect_Meet.thy ===== *)
theory Bisect_Meet
  imports Bisect_Rounds
begin

text \<open>
  The reverse round of \<open>bisect\<close>, and the theorem that the two searches meet: \<open>bisect\<close> returns a
  split point with \<open>ok\<close> set on every input, and the point lies on a cheapest path.
\<close>

section \<open>The reverse loop\<close>

definition RevInv :: "int list \<Rightarrow> int list \<Rightarrow> int \<Rightarrow> bisState \<Rightarrow> int \<Rightarrow> bisState \<Rightarrow> bool" where
  "RevInv a b d st0 k st \<longleftrightarrow>
     (let B = - d + k2start st0; v = bv2 st0; w = bv2 st
      in sized a b w \<and> bv1 st = bv1 st0 \<and> k1start st = k1start st0 \<and> k1end st = k1end st0 \<and>
         even (k - d) \<and> B \<le> k \<and> k - 2 \<le> d \<and>
         (\<forall>j. even (j - d) \<longrightarrow> B \<le> j \<longrightarrow> j < k \<longrightarrow> stepVal (rev a) (rev b) d v j (cell a b w j) \<and>
            \<not> (\<not> front a b \<and> cell a b w j \<le> int (length a) \<and> cell a b w j - j \<le> int (length b) \<and>
               overlaps a b (bv1 st0) j (\<lambda>z. z \<ge> int (length a) - cell a b w j))) \<and>
         (\<forall>j. - maxD a b \<le> j \<longrightarrow> \<not> (even (j - d) \<and> B \<le> j \<and> j < k) \<longrightarrow> cell a b w j = cell a b v j) \<and>
         k2start st0 \<le> k2start st \<and> even (k2start st) \<and> k2start st \<le> k2start st0 + (k - B) \<and>
         (k2start st = k2start st0 \<or> - d + k2start st \<le> bisDelta a b - dist a b + d) \<and>
         k2end st0 \<le> k2end st \<and> even (k2end st) \<and>
         (k2end st = k2end st0 \<or>
          bisDelta a b + dist a b - d \<le> d - k2end st \<and> bisDelta a b + dist a b - d + 4 \<le> k))"

text \<open>A split point found on the forward array is on a cheapest path.\<close>

lemma rev_split:
  assumes F: "Ready a b (d + 1) ks ke v" and d: "0 \<le> d" "2 * d - 1 \<le> dist a b"
    and k: "\<bar>k\<bar> \<le> d" "\<not> front a b" "overlaps a b v k (\<lambda>z. z \<ge> int (length a) - x)"
    and g: "good (rev a) (rev b) d k x" "x \<le> int (length a)" "x - k \<le> int (length b)"
  shows "optSplit a b (cell a b v (bisDelta a b - k)) (cell a b v (bisDelta a b - k) - (bisDelta a b - k))"
proof -
  let ?j = "bisDelta a b - k" and ?x = "cell a b v (bisDelta a b - k)"
  have ov: "0 \<le> maxD a b + ?j" "maxD a b + ?j < 2 * maxD a b + 4" "?x \<noteq> - 1" "int (length a) - x \<le> ?x"
    using k(3) by (simp_all add: overlaps_def Let_def cell_def add_diff_eq)
  have even: "even (bisDelta a b)" using k(2) by (simp add: front_def)
  then have "even (dist a b)" using dist_parity [of a b] by simp
  then have D: "2 * d \<le> dist a b" using d(2) by presburger
  have old: "\<And>j. \<bar>j\<bar> < d + 1 \<Longrightarrow> cell a b v j = - 1 \<or> good a b d j (cell a b v j)"
    and far: "\<And>j. d + 1 \<le> \<bar>j\<bar> \<Longrightarrow> - maxD a b \<le> j \<Longrightarrow> j < maxD a b + 4 \<Longrightarrow> cell a b v j = - 1 \<or> d + 1 \<le> 1 \<and> j = 1"
    using F by (auto simp: Ready_def)
  have "\<bar>?j\<bar> < d + 1"
  proof (rule ccontr)
    assume "\<not> ?thesis"
    then have "d + 1 \<le> 1 \<and> ?j = 1" using far [of ?j] ov by auto
    then have "k = 0" "bisDelta a b = 1" using k(1) d(1) by auto
    then show False using even by simp
  qed
  then have f: "good a b d ?j ?x" using old ov(3) by blast
  have "?x \<le> int (length a)" using good_right [OF f] D k(1) by linarith
  moreover have "?x - ?j \<le> int (length b)" using good_below [OF f] D k(1) by linarith
  ultimately show ?thesis
    using g f ov D by (intro optSplit_intro [of a b d ?x "?x - ?j" d x "x - k"]) (auto simp: good_def)
qed

lemma revDiag_ok:
  assumes R: "Ready (rev a) (rev b) d (k2start st0) (k2end st0) (bv2 st0)"
    and F: "Ready a b (d + 1) ks1 ke1 (bv1 st0)"
    and d: "0 \<le> d" "d \<le> maxD a b" "2 * d - 1 \<le> dist a b"
    and I: "RevInv a b d st0 k st" and g: "k \<le> d - k2end st"
  shows "(\<exists>x y. revDiag a b d k st = Some (Inl (x, y)) \<and> optSplit a b x y) \<or>
    (\<exists>st'. revDiag a b d k st = Some (Inr st') \<and> RevInv a b d st0 (k + 2) st')"
proof -
  let ?B = "- d + k2start st0" and ?v = "bv2 st0"
  have i: "sized a b (bv2 st)" "bv1 st = bv1 st0" "k1start st = k1start st0" "k1end st = k1end st0"
      "even (k - d)" "?B \<le> k"
      "k2start st0 \<le> k2start st" "even (k2start st)" "k2start st \<le> k2start st0 + (k - ?B)"
      "k2start st = k2start st0 \<or> - d + k2start st \<le> bisDelta a b - dist a b + d"
      "k2end st0 \<le> k2end st" "even (k2end st)"
      "k2end st = k2end st0 \<or> bisDelta a b + dist a b - d \<le> d - k2end st \<and> bisDelta a b + dist a b - d + 4 \<le> k"
    and dn: "\<And>j. even (j - d) \<Longrightarrow> ?B \<le> j \<Longrightarrow> j < k \<Longrightarrow> stepVal (rev a) (rev b) d ?v j (cell a b (bv2 st) j) \<and>
        \<not> (\<not> front a b \<and> cell a b (bv2 st) j \<le> int (length a) \<and> cell a b (bv2 st) j - j \<le> int (length b) \<and>
           overlaps a b (bv1 st0) j (\<lambda>z. z \<ge> int (length a) - cell a b (bv2 st) j))"
    and keep: "\<And>j. - maxD a b \<le> j \<Longrightarrow> \<not> (even (j - d) \<and> ?B \<le> j \<and> j < k) \<Longrightarrow> cell a b (bv2 st) j = cell a b ?v j"
    using I unfolding RevInv_def Let_def by blast+
  have nn: "0 \<le> k2start st0" "0 \<le> k2end st0" using R by (auto simp: Ready_def)
  have lo: "- d \<le> k" "k \<le> d" using g i(6,11) nn by auto
  have ge: "k \<le> d - k2end st0" using g i(11) by linarith
  obtain x0 x w where x: "pickX (bv2 st) (maxD a b + k) k d = Some x0" "0 \<le> x0" "k \<le> x0"
    "snake (rev a) (rev b) x0 (x0 - k) = Some (x, x - k)" "setAt (bv2 st) (maxD a b + k) x = Some w" "sized a b w"
    "cell a b w k = x" "stepVal (rev a) (rev b) d ?v k x"
    "\<And>j. - maxD a b \<le> j \<Longrightarrow> j \<noteq> k \<Longrightarrow> cell a b w j = cell a b (bv2 st) j"
    using write_ok [OF R _ _ _ i(5,6) ge, of "bv2 st"] d i(1) keep by (simp, blast)
  have good: "good (rev a) (rev b) d k x" using x(8) by (simp add: stepVal_def)
  have step: "RevInv a b d st0 (k + 2) (st\<lparr>bv2 := w, k2start := ks, k2end := ke\<rparr>)"
    if "k2start st0 \<le> ks" "even ks" "ks \<le> k2start st0 + (k + 2 - ?B)"
      "ks = k2start st0 \<or> - d + ks \<le> bisDelta a b - dist a b + d" "k2end st0 \<le> ke" "even ke"
      "ke = k2end st0 \<or> bisDelta a b + dist a b - d \<le> d - ke \<and> bisDelta a b + dist a b - d + 4 \<le> k + 2"
      "\<not> (\<not> front a b \<and> x \<le> int (length a) \<and> x - k \<le> int (length b) \<and> overlaps a b (bv1 st0) k (\<lambda>z. z \<ge> int (length a) - x))"
    for ks ke
  proof -
    have "stepVal (rev a) (rev b) d ?v j (cell a b w j) \<and>
        \<not> (\<not> front a b \<and> cell a b w j \<le> int (length a) \<and> cell a b w j - j \<le> int (length b) \<and>
           overlaps a b (bv1 st0) j (\<lambda>z. z \<ge> int (length a) - cell a b w j))"
      if j: "even (j - d)" "?B \<le> j" "j < k + 2" for j
    proof (cases "j = k")
      case True
      then show ?thesis using x(7,8) \<open>\<not> (\<not> front a b \<and> x \<le> _ \<and> _)\<close> by simp
    next
      case False
      then have "j < k" using j i(5) by presburger
      moreover have "- maxD a b \<le> j" using j(2) nn d by linarith
      ultimately show ?thesis using dn [OF j(1,2)] x(9) [of j] False by simp
    qed
    moreover have "cell a b w j = cell a b ?v j"
      if "- maxD a b \<le> j" "\<not> (even (j - d) \<and> ?B \<le> j \<and> j < k + 2)" for j
    proof -
      have "j \<noteq> k" using that i(5,6) by auto
      then show ?thesis using x(9) [OF that(1)] keep [OF that(1)] that(2) by auto
    qed
    ultimately show ?thesis unfolding RevInv_def Let_def using that i x(6) lo by simp
  qed
  let ?x1 = "cell a b (bv1 st) (bisDelta a b - k)"
  have out: "revDiag a b d k st =
      (if x > int (length a) then Some (Inr (st\<lparr>bv2 := w, k2end := k2end st + 2\<rparr>))
       else if x - k > int (length b) then Some (Inr (st\<lparr>bv2 := w, k2start := k2start st + 2\<rparr>))
       else if \<not> front a b \<and> overlaps a b (bv1 st) k (\<lambda>z. z \<ge> int (length a) - x)
       then Some (Inl (?x1, ?x1 - (bisDelta a b - k)))
       else Some (Inr (st\<lparr>bv2 := w\<rparr>)))"
    using x(1-5) snakeRev_snake [of x0 "x0 - k" a b]
    unfolding revDiag_def Let_def by (simp add: cell_def add_diff_eq)
  consider "x > int (length a)" | "x \<le> int (length a)" "x - k > int (length b)"
    | "x \<le> int (length a)" "x - k \<le> int (length b)" by linarith
  then show ?thesis
  proof cases
    case 1
    have "RevInv a b d st0 (k + 2) (st\<lparr>bv2 := w, k2start := k2start st, k2end := k2end st + 2\<rparr>)"
      using 1 i good_right [OF good] g by (intro step) auto
    then show ?thesis using out 1 by auto
  next
    case 2
    have "RevInv a b d st0 (k + 2) (st\<lparr>bv2 := w, k2start := k2start st + 2, k2end := k2end st\<rparr>)"
      using 2 i good_below [OF good] by (intro step) auto
    then show ?thesis using out 2 by auto
  next
    case 3
    show ?thesis
    proof (cases "\<not> front a b \<and> overlaps a b (bv1 st0) k (\<lambda>z. z \<ge> int (length a) - x)")
      case True
      then have "optSplit a b ?x1 (?x1 - (bisDelta a b - k))"
        using rev_split [OF F d(1,3), of k x] lo good 3 i(2) by auto
      then show ?thesis using out 3 True i(2) by auto
    next
      case False
      have "RevInv a b d st0 (k + 2) (st\<lparr>bv2 := w, k2start := k2start st, k2end := k2end st\<rparr>)"
        using False i by (intro step) auto
      then show ?thesis using out 3 False i(2) by auto
    qed
  qed
qed

lemma revLoop_unroll:
  "k \<le> d - k2end st \<Longrightarrow> revDiag a b d k st = Some (Inl p) \<Longrightarrow> revLoop a b d k st = Some (Inl p)"
  "k \<le> d - k2end st \<Longrightarrow> revDiag a b d k st = Some (Inr st') \<Longrightarrow> revLoop a b d k st = revLoop a b d (k + 2) st'"
  "\<not> k \<le> d - k2end st \<Longrightarrow> revLoop a b d k st = Some (Inr st)"
  by (simp_all add: revLoop.simps [of a b d k st])

lemma revLoop_ok:
  assumes R: "Ready (rev a) (rev b) d (k2start st0) (k2end st0) (bv2 st0)"
    and F: "Ready a b (d + 1) ks1 ke1 (bv1 st0)"
    and d: "0 \<le> d" "d \<le> maxD a b" "2 * d - 1 \<le> dist a b"
    and I: "RevInv a b d st0 k st"
  shows "(\<exists>x y. revLoop a b d k st = Some (Inl (x, y)) \<and> optSplit a b x y) \<or>
    (\<exists>k' st'. revLoop a b d k st = Some (Inr st') \<and> RevInv a b d st0 k' st' \<and> d - k2end st' < k')"
  using I
proof (induction "nat (d + 1 - k)" arbitrary: k st rule: less_induct)
  case less
  show ?case
  proof (cases "k \<le> d - k2end st")
    case True
    have "0 \<le> k2end st" using less.prems R by (auto simp: RevInv_def Ready_def Let_def)
    then have small: "nat (d + 1 - (k + 2)) < nat (d + 1 - k)" using True by auto
    consider x y where "revDiag a b d k st = Some (Inl (x, y))" "optSplit a b x y"
      | st' where "revDiag a b d k st = Some (Inr st')" "RevInv a b d st0 (k + 2) st'"
      using revDiag_ok [OF R F d less.prems True] by blast
    then show ?thesis
    proof cases
      case (1 x y)
      then show ?thesis using revLoop_unroll(1) [OF True] by blast
    next
      case (2 st')
      then show ?thesis using less.hyps [OF small 2(2)] revLoop_unroll(2) [OF True 2(1)] by simp
    qed
  next
    case False
    then show ?thesis using less.prems revLoop_unroll(3) [OF False] by auto
  qed
qed

lemma rev_pass:
  assumes R: "Ready (rev a) (rev b) d (k2start st0) (k2end st0) (bv2 st0)"
    and F: "Ready a b (d + 1) ks1 ke1 (bv1 st0)"
    and d: "0 \<le> d" "d \<le> maxD a b" "2 * d - 1 \<le> dist a b"
  shows "(\<exists>x y. revLoop a b d (- d + k2start st0) st0 = Some (Inl (x, y)) \<and>
      optSplit a b x y) \<or>
    (\<exists>st'. revLoop a b d (- d + k2start st0) st0 = Some (Inr st') \<and>
      Ready (rev a) (rev b) (d + 1) (k2start st') (k2end st') (bv2 st') \<and>
      bv1 st' = bv1 st0 \<and> k1start st' = k1start st0 \<and> k1end st' = k1end st0 \<and>
      windowDone (rev a) (rev b) d (bv2 st0) (bv2 st')
        (\<lambda>j x. \<not> front a b \<and> overlaps a b (bv1 st0) j (\<lambda>z. z \<ge> int (length a) - x)))"
proof -
  let ?B = "- d + k2start st0"
  have r: "sized a b (bv2 st0)" "0 \<le> k2start st0" "even (k2start st0)" "0 \<le> k2end st0" "even (k2end st0)"
    "min d (bisDelta a b + dist a b - d + 2) \<le> d - k2end st0" "?B \<le> max (- d) (bisDelta a b - dist a b + d - 2)"
    "d \<le> 1 \<longrightarrow> k2start st0 = 0 \<and> k2end st0 = 0"
    using R by (auto simp: Ready_def)
  have "RevInv a b d st0 ?B st0"
    unfolding RevInv_def Let_def using r d dist_bounds [of a b] by auto
  from revLoop_ok [OF R F d this] show ?thesis
  proof (elim disjE exE conjE)
    fix k st' assume out: "revLoop a b d ?B st0 = Some (Inr st')" and I: "RevInv a b d st0 k st'"
      and stop: "d - k2end st' < k"
    have i: "sized a b (bv2 st')" "bv1 st' = bv1 st0" "k1start st' = k1start st0" "k1end st' = k1end st0"
        "even (k - d)" "k - 2 \<le> d" "k2start st0 \<le> k2start st'" "even (k2start st')"
        "k2start st' = k2start st0 \<or> - d + k2start st' \<le> bisDelta a b - dist a b + d"
        "k2end st0 \<le> k2end st'" "even (k2end st')"
        "k2end st' = k2end st0 \<or> bisDelta a b + dist a b - d \<le> d - k2end st' \<and> bisDelta a b + dist a b - d + 4 \<le> k"
      and dn: "\<And>j. even (j - d) \<Longrightarrow> ?B \<le> j \<Longrightarrow> j < k \<Longrightarrow> stepVal (rev a) (rev b) d (bv2 st0) j (cell a b (bv2 st') j) \<and>
        \<not> (\<not> front a b \<and> cell a b (bv2 st') j \<le> int (length a) \<and> cell a b (bv2 st') j - j \<le> int (length b) \<and>
           overlaps a b (bv1 st0) j (\<lambda>z. z \<ge> int (length a) - cell a b (bv2 st') j))"
      and keep: "\<And>j. - maxD a b \<le> j \<Longrightarrow> \<not> (even (j - d) \<and> ?B \<le> j \<and> j < k) \<Longrightarrow>
        cell a b (bv2 st') j = cell a b (bv2 st0) j"
      using I unfolding RevInv_def Let_def by blast+
    have kk: "d - k2end st' \<le> k - 2" using stop i(5,11) by presburger
    have one: "d = 1 \<longrightarrow> 1 \<le> k - 2" using kk r(8) i(12) dist_bounds [of a b] by auto
    have "Ready (rev a) (rev b) (d + 1) (k2start st') (k2end st') (bv2 st')"
    proof (rule round_done [OF R d(1), of "bv2 st'" ?B "k - 2"])
      show "stepVal (rev a) (rev b) d (bv2 st0) j (cell (rev a) (rev b) (bv2 st') j)"
        if "even (j - d)" "?B \<le> j" "j \<le> k - 2" for j
        using dn that by auto
      show "cell (rev a) (rev b) (bv2 st') j = cell (rev a) (rev b) (bv2 st0) j"
        if "- maxD (rev a) (rev b) \<le> j" "\<not> (even (j - d) \<and> ?B \<le> j \<and> j \<le> k - 2)" for j
      proof -
        have "\<not> (even (j - d) \<and> ?B \<le> j \<and> j < k)" using that(2) i(5) by presburger
        then show ?thesis using keep [of j] that(1) by simp
      qed
    qed (use r i kk one d in auto)
    moreover have "windowDone (rev a) (rev b) d (bv2 st0) (bv2 st')
        (\<lambda>j x. \<not> front a b \<and> overlaps a b (bv1 st0) j (\<lambda>z. z \<ge> int (length a) - x))"
      unfolding windowDone_def
    proof (intro allI impI)
      fix j assume j: "even (j - d)" "\<bar>j\<bar> \<le> d" "\<bar>bisDelta (rev a) (rev b) - j\<bar> \<le> dist (rev a) (rev b) - d"
      have "j < k" "?B \<le> j" using j kk r(6,7) i(12) by (auto simp: min_def max_def split: if_splits)
      then show "stepVal (rev a) (rev b) d (bv2 st0) j (cell (rev a) (rev b) (bv2 st') j) \<and>
        \<not> (cell (rev a) (rev b) (bv2 st') j \<le> int (length (rev a)) \<and>
           cell (rev a) (rev b) (bv2 st') j - j \<le> int (length (rev b)) \<and>
           \<not> front a b \<and> overlaps a b (bv1 st0) j (\<lambda>z. z \<ge> int (length a) - cell (rev a) (rev b) (bv2 st') j))"
        using dn [OF j(1)] by simp
    qed
    ultimately show ?thesis using out i by blast
  qed blast
qed

section \<open>The two searches meet\<close>

text \<open>
  When the distance is \<open>d + (e - 1)\<close>, a cheapest path passes a point that the round \<open>d\<close> of one search and the
  round \<open>e - 1\<close> of the opposite search have both reached.
\<close>

lemma meet:
  assumes R: "Ready a b d ks ke v" and W: "windowDone a b d v w Q"
    and R': "Ready (rev a) (rev b) e ks' ke' v'"
    and d: "0 \<le> d" "1 \<le> e" "e \<le> maxD a b + 1" "dist a b = d + (e - 1)"
  shows "\<exists>j x. \<not> Q j x \<and> 0 \<le> maxD a b + (bisDelta a b - j) \<and> maxD a b + (bisDelta a b - j) < 2 * maxD a b + 4 \<and>
    cell a b v' (bisDelta a b - j) \<noteq> - 1 \<and> int (length a) - cell a b v' (bisDelta a b - j) \<le> x"
proof -
  let ?n = "length a" and ?m = "length b"
  have D: "ed a b = nat d + nat (e - 1)" using d by (simp add: dist_def)
  have "path a b (nat d + nat (e - 1)) 0 0 ?n ?m" using path_exists [of 0 a 0 b] D by simp
  then obtain x y where p: "path a b (nat d) 0 0 x y" and q: "path a b (nat (e - 1)) x y ?n ?m"
    using path_cut [of a b "nat d + nat (e - 1)" 0 0 ?n ?m "nat d"] by auto
  have xy: "x \<le> ?n" "y \<le> ?m" using path_bounds [OF p] by auto
  have rest: "int (nat d) + int (ed (drop x a) (drop y b)) = dist a b"
    using path_ed [OF p] path_ed [OF q] D d by (simp add: dist_def)
  let ?j = "int x - int y"
  have win: "\<bar>?j\<bar> \<le> d" "\<bar>bisDelta a b - ?j\<bar> \<le> dist a b - d" using opt_window [OF p rest] d(1) by auto
  have par: "even (?j - d)" using path_parity [OF p] d(1) by simp
  have W': "stepVal a b d v ?j (cell a b w ?j)"
      "\<not> (cell a b w ?j \<le> int ?n \<and> cell a b w ?j - ?j \<le> int ?m \<and> Q ?j (cell a b w ?j))"
    using W par win unfolding windowDone_def by blast+
  have dom: "int x \<le> cell a b w ?j"
  proof (rule dominate_step [OF _ _ p rest, of v])
    fix x y f assume f: "nat d = Suc f" "path a b f 0 0 x y" "int f + int (ed (drop x a) (drop y b)) = dist a b"
    have "f = nat (d - 1)" "int f = d - 1" "1 \<le> d" using f(1) by auto
    then show "int x \<le> cell a b v (int x - int y)" using R f unfolding Ready_def by metis
  next
    fix k assume "\<bar>k\<bar> \<le> int (nat d)" "\<bar>bisDelta a b - k\<bar> \<le> dist a b - int (nat d)" "even (k - int (nat d))"
    then show "stepVal a b (int (nat d)) v k (cell a b w k)" using W d(1) unfolding windowDone_def by simp
  qed (use par d(1) in simp)
  have g: "good a b d ?j (cell a b w ?j)" using W'(1) by (simp add: stepVal_def)
  have "cell a b w ?j \<le> int ?n" "cell a b w ?j - ?j \<le> int ?m"
    using good_right [OF g] good_below [OF g] win by linarith+
  then have nQ: "\<not> Q ?j (cell a b w ?j)" using W'(2) by blast
  have pr: "path (rev a) (rev b) (nat (e - 1)) 0 0 (?n - x) (?m - y)"
    using path_rev [OF q] by simp
  have "path (rev a) (rev b) (nat d) (?n - x) (?m - y) ?n ?m" using path_rev [OF p] by simp
  then have restr: "e - 1 + int (ed (drop (?n - x) (rev a)) (drop (?m - y) (rev b))) = dist (rev a) (rev b)"
    using path_ed [OF pr] path_ed [of "rev a" "rev b" "nat d" "?n - x" "?m - y" ?n ?m] D d
    by (simp add: dist_def ed_rev)
  have eq: "int (?n - x) - int (?m - y) = bisDelta a b - ?j" "int (?n - x) = int ?n - int x"
    using xy by (simp_all add: bisDelta_def)
  have "int (?n - x) \<le> cell (rev a) (rev b) v' (int (?n - x) - int (?m - y))"
    using R' d(2) pr restr unfolding Ready_def by blast
  then have bk: "int ?n - int x \<le> cell a b v' (bisDelta a b - ?j)" unfolding eq(1) rev_same unfolding eq(2) .
  have "0 \<le> maxD a b + (bisDelta a b - ?j)" "maxD a b + (bisDelta a b - ?j) < 2 * maxD a b + 4"
    using win d by linarith+
  moreover have "cell a b v' (bisDelta a b - ?j) \<noteq> - 1" using bk xy by linarith
  ultimately show ?thesis using nQ bk dom by (intro exI [of _ ?j] exI [of _ "cell a b w ?j"]) auto
qed

lemma fwd_meets:
  assumes "Ready a b d ks ke v" "front a b" "0 \<le> d" "d \<le> maxD a b"
    "windowDone a b d v w (\<lambda>j x. front a b \<and> overlaps a b v' j (\<lambda>z. x \<ge> int (length a) - z))"
    "Ready (rev a) (rev b) d ks' ke' v'"
  shows "dist a b \<noteq> 2 * d - 1"
proof
  assume "dist a b = 2 * d - 1"
  then have "1 \<le> d" "d \<le> maxD a b + 1" "dist a b = d + (d - 1)" using assms(4) by (auto simp: dist_def)
  from meet [OF assms(1,5,6,3) this] show False
    using assms(2) by (auto simp: overlaps_def Let_def cell_def add_diff_eq)
qed

lemma rev_meets:
  assumes "Ready (rev a) (rev b) d ks ke v" "\<not> front a b" "0 \<le> d" "d \<le> maxD a b"
    "windowDone (rev a) (rev b) d v w (\<lambda>j x. \<not> front a b \<and> overlaps a b v' j (\<lambda>z. z \<ge> int (length a) - x))"
    "Ready a b (d + 1) ks' ke' v'"
  shows "dist a b \<noteq> 2 * d"
proof
  assume "dist a b = 2 * d"
  then have "1 \<le> d + 1" "d + 1 \<le> maxD (rev a) (rev b) + 1" "dist (rev a) (rev b) = d + (d + 1 - 1)" using assms(3,4) by auto
  moreover have "Ready (rev (rev a)) (rev (rev b)) (d + 1) ks' ke' v'" using assms(6) by simp
  ultimately have "\<exists>j x. \<not> (\<not> front a b \<and> overlaps a b v' j (\<lambda>z. z \<ge> int (length a) - x)) \<and>
      0 \<le> maxD a b + (bisDelta a b - j) \<and> maxD a b + (bisDelta a b - j) < 2 * maxD a b + 4 \<and>
      cell a b v' (bisDelta a b - j) \<noteq> - 1 \<and> int (length a) - cell a b v' (bisDelta a b - j) \<le> x"
    using meet [OF assms(1,5) _ assms(3), of "d + 1" ks' ke' v'] by simp
  then show False
    using assms(2) by (auto simp: overlaps_def Let_def cell_def add_diff_eq)
qed

section \<open>The bisection always finds a split point\<close>

lemma bisectLoop_ok:
  assumes "Ready a b d (k1start st) (k1end st) (bv1 st)" "Ready (rev a) (rev b) d (k2start st) (k2end st) (bv2 st)"
    "0 \<le> d" "2 * d - 1 \<le> dist a b"
  shows "\<exists>x y. bisectLoop a b d st = Some (x, y, True) \<and> optSplit a b x y"
  using assms
proof (induction "nat (maxD a b + 1 - d)" arbitrary: d st rule: less_induct)
  case less
  note R = less.prems(1) and R' = less.prems(2) and d = less.prems(3,4)
  have dM: "d \<le> maxD a b" using d dist_bounds(3) [of a b] by (simp add: maxD_def)
  note unroll = bisectLoop.simps [of a b d st]
  show ?case
  proof (cases "\<exists>x y. fwdLoop a b d (d - k1end st) st = Some (Inl (x, y)) \<and>
      optSplit a b x y")
    case True
    then show ?thesis using unroll dM by auto
  next
    case False
    then obtain s where s: "fwdLoop a b d (d - k1end st) st = Some (Inr s)"
      "Ready a b (d + 1) (k1start s) (k1end s) (bv1 s)"
      "bv2 s = bv2 st" "k2start s = k2start st" "k2end s = k2end st"
      "windowDone a b d (bv1 st) (bv1 s) (\<lambda>j x. front a b \<and> overlaps a b (bv2 st) j (\<lambda>z. x \<ge> int (length a) - z))"
      using fwd_pass [OF R R' d(1) dM d(2)] by blast
    have Rs: "Ready (rev a) (rev b) d (k2start s) (k2end s) (bv2 s)" using R' s by simp
    have f: "front a b \<Longrightarrow> dist a b \<noteq> 2 * d - 1" using fwd_meets [OF R _ d(1) dM s(6) R'] by blast
    show ?thesis
    proof (cases "\<exists>x y. revLoop a b d (- d + k2start s) s = Some (Inl (x, y)) \<and>
        optSplit a b x y")
      case True
      then show ?thesis using unroll dM s(1) by auto
    next
      case False
      then obtain t where t: "revLoop a b d (- d + k2start s) s = Some (Inr t)"
        "Ready (rev a) (rev b) (d + 1) (k2start t) (k2end t) (bv2 t)"
        "bv1 t = bv1 s" "k1start t = k1start s" "k1end t = k1end s"
        "windowDone (rev a) (rev b) d (bv2 s) (bv2 t)
          (\<lambda>j x. \<not> front a b \<and> overlaps a b (bv1 s) j (\<lambda>z. z \<ge> int (length a) - x))"
        using rev_pass [OF Rs s(2) d(1) dM d(2)] by blast
      have r: "\<not> front a b \<Longrightarrow> dist a b \<noteq> 2 * d" using rev_meets [OF Rs _ d(1) dM t(6) s(2)] by blast
      have "2 * (d + 1) - 1 \<le> dist a b"
        using f r d(2) dist_parity [of a b] unfolding front_def by presburger
      moreover have "bisectLoop a b d st = bisectLoop a b (d + 1) t" using unroll dM s(1) t(1) by simp
      moreover have "Ready a b (d + 1) (k1start t) (k1end t) (bv1 t)" using s(2) t by simp
      ultimately show ?thesis using less.hyps [of "d + 1" t] t(2) d(1) dM by simp
    qed
  qed
qed

lemma Ready_init: "Ready a b 0 0 0 ((replicate (nat (2 * maxD a b + 4)) (- 1))[nat (maxD a b + 1) := 0])"
proof -
  have M: "0 \<le> maxD a b" by (rule maxD_nonneg)
  have far: "cell a b ((replicate (nat (2 * maxD a b + 4)) (- 1))[nat (maxD a b + 1) := 0]) j = - 1 \<or> j = 1"
    if "- maxD a b \<le> j" "j < maxD a b + 4" for j
    using that by (auto simp: cell_def nth_list_update)
  show ?thesis using M far by (auto simp: Ready_def sized_def cell_def max_def)
qed

lemma bisect_splits:
  "\<exists>x y. bisect a b = Some (x, y, True) \<and> optSplit a b x y"
  unfolding bisect_def
proof (rule bisectLoop_ok)
  show "Ready a b 0 (k1start (bisInit a b)) (k1end (bisInit a b)) (bv1 (bisInit a b))"
    using Ready_init [of a b] by (simp add: bisInit_def Let_def)
  show "Ready (rev a) (rev b) 0 (k2start (bisInit a b)) (k2end (bisInit a b)) (bv2 (bisInit a b))"
    using Ready_init [of "rev a" "rev b"] by (simp add: bisInit_def Let_def)
qed (simp_all add: dist_def)

end
