(* ===== verification/Myers_Script.thy ===== *)
theory Myers_Script
  imports Bisect_Meet
begin

text \<open>
  The edit script that \<open>myersOps\<close> of \<open>src/cmds/diff/myers.go\<close> returns: it is always produced, it leads
  from the one list to the other, and no script needs fewer insertions and deletions.
\<close>

section \<open>Edit scripts\<close>

text \<open>\<open>aligned ops a b\<close>: the operations lead from \<open>a\<close> to \<open>b\<close>, an \<open>opEq\<close> only across equal elements.\<close>

fun aligned :: "opKind list \<Rightarrow> 'a list \<Rightarrow> 'a list \<Rightarrow> bool" where
  "aligned [] a b = (a = [] \<and> b = [])"
| "aligned (opEq # ops) (x # a) (y # b) = (x = y \<and> aligned ops a b)"
| "aligned (opDel # ops) (x # a) b = aligned ops a b"
| "aligned (opIns # ops) a (y # b) = aligned ops a b"
| "aligned _ _ _ = False"

definition edits :: "opKind list \<Rightarrow> nat" where
  "edits ops = length (filter (\<lambda>k. k \<noteq> opEq) ops)"

lemma edits_simps [simp]: "edits [] = 0" "edits (opEq # ops) = edits ops" "edits (opDel # ops) = Suc (edits ops)"
  "edits (opIns # ops) = Suc (edits ops)" "edits (o1 @ o2) = edits o1 + edits o2"
  "edits (replicate n opEq) = 0" "edits (replicate n opDel) = n" "edits (replicate n opIns) = n"
  by (simp_all add: edits_def)

lemma aligned_append: "aligned o1 a1 b1 \<Longrightarrow> aligned o2 a2 b2 \<Longrightarrow> aligned (o1 @ o2) (a1 @ a2) (b1 @ b2)"
  by (induction o1 a1 b1 rule: aligned.induct) auto

lemma aligned_runs: "aligned (replicate (length a) opEq) a a" "aligned (replicate (length a) opDel) a []"
  "aligned (replicate (length b) opIns) [] b"
  by (induction a, auto) (induction b, auto)

lemma aligned_ed: "aligned ops a b \<Longrightarrow> ed a b \<le> edits ops"
proof (induction ops a b rule: aligned.induct)
  case (3 ops x a b)
  then show ?case using ed_Cons_bounds [of a b] by (metis aligned.simps(3) edits_simps(3) Suc_le_mono le_trans)
next
  case (4 ops a y b)
  then show ?case using ed_Cons_bounds [of a b] by (metis aligned.simps(4) edits_simps(4) Suc_le_mono le_trans)
qed auto

section \<open>Stripping the common ends\<close>

lemma ed_0: "ed a b = 0 \<longleftrightarrow> a = b"
  by (induction a b rule: ed.induct) auto

lemma ed_prefix [simp]: "ed (p @ a) (p @ b) = ed a b"
  by (induction p) auto

lemma ed_suffix [simp]: "ed (a @ s) (b @ s) = ed a b"
  using ed_rev [of "a @ s" "b @ s"] ed_rev [of a b] by simp

lemma commonPrefix_split:
  "\<exists>p a' b'. xs = p @ a' \<and> ys = p @ b' \<and> length p = commonPrefix xs ys \<and> (a' \<noteq> [] \<longrightarrow> b' \<noteq> [] \<longrightarrow> hd a' \<noteq> hd b')"
proof (induction xs ys rule: commonPrefix.induct)
  case (1 x xs y ys)
  show ?case
  proof (cases "x = y")
    case True
    then obtain p a' b' where "xs = p @ a'" "ys = p @ b'" "length p = commonPrefix xs ys"
      "a' \<noteq> [] \<longrightarrow> b' \<noteq> [] \<longrightarrow> hd a' \<noteq> hd b'" using 1 by blast
    then show ?thesis using True by (intro exI [of _ "x # p"] exI [of _ a'] exI [of _ b']) simp
  next
    case False
    show ?thesis by (rule exI [of _ "[]"]) (use False in simp)
  qed
qed auto

lemma strip_ok:
  assumes "strip a b = (p, s, ma, mb)"
  shows "\<exists>l r. a = l @ ma @ r \<and> b = l @ mb @ r \<and> length l = p \<and> length r = s \<and>
    (ma \<noteq> [] \<longrightarrow> mb \<noteq> [] \<longrightarrow> hd ma \<noteq> hd mb \<and> last ma \<noteq> last mb)"
proof -
  obtain l a' b' where l: "a = l @ a'" "b = l @ b'" "length l = commonPrefix a b" "a' \<noteq> [] \<longrightarrow> b' \<noteq> [] \<longrightarrow> hd a' \<noteq> hd b'"
    using commonPrefix_split by blast
  obtain r a'' b'' where r: "rev a' = r @ a''" "rev b' = r @ b''" "length r = commonPrefix (rev a') (rev b')"
    "a'' \<noteq> [] \<longrightarrow> b'' \<noteq> [] \<longrightarrow> hd a'' \<noteq> hd b''"
    using commonPrefix_split by blast
  have ab: "a' = rev a'' @ rev r" "b' = rev b'' @ rev r" using r(1,2) by (metis rev_append rev_rev_ident)+
  have "p = length l" "s = length r" "ma = rev a''" "mb = rev b''"
    using assms l(3) r(3) ab by (auto simp: strip_def commonSuffix_def Let_def l(1,2))
  then show ?thesis using l r(4) ab
    by (intro exI [of _ l] exI [of _ "rev r"]) (auto simp: hd_append last_rev hd_rev)
qed

lemma stripped_distance:
  assumes "ma \<noteq> []" "mb \<noteq> []" "hd ma \<noteq> hd mb" "last ma \<noteq> last mb" shows "2 \<le> ed ma mb"
proof -
  obtain x xs y ys where xy: "ma = x # xs" "mb = y # ys" using assms(1,2) by (meson list.exhaust)
  have "ed xs mb \<noteq> 0" "ed ma ys \<noteq> 0" using assms xy by (auto simp: ed_0 split: if_splits)
  then show ?thesis using xy assms(3) by (auto simp: min_def)
qed

section \<open>The script is valid and shortest\<close>

lemma path_take:
  assumes "path a b p 0 0 x y" shows "ed (take x a) (take y b) \<le> p"
proof -
  have "path (rev a) (rev b) p (length a - x) (length b - y) (length a) (length b)" using path_rev [OF assms] by simp
  then have "ed (drop (length a - x) (rev a)) (drop (length b - y) (rev b)) \<le> p" using path_ed by fastforce
  then show ?thesis using ed_rev [of "take x a" "take y b"] by (simp add: rev_take)
qed

lemma optSplit_cut:
  assumes "optSplit a b x y" "2 \<le> dist a b"
  shows "\<exists>a1 b1 a2 b2. cutAt a b x y = Some (a1, b1, a2, b2) \<and> a = a1 @ a2 \<and> b = b1 @ b2 \<and>
    ed a1 b1 + ed a2 b2 \<le> ed a b \<and> \<not> (x = 0 \<and> y = 0) \<and> \<not> (x = int (length a) \<and> y = int (length b))"
proof -
  obtain p where g: "0 \<le> x" "x \<le> int (length a)" "0 \<le> y" "y \<le> int (length b)"
    and p: "path a b p 0 0 (nat x) (nat y)" "int p + int (ed (drop (nat x) a) (drop (nat y) b)) = dist a b"
      "2 * int p \<le> dist a b + 1" "2 * int (ed (drop (nat x) a) (drop (nat y) b)) \<le> dist a b"
    using assms(1) unfolding optSplit_def by blast
  have cut: "cutAt a b x y = Some (take (nat x) a, take (nat y) b, drop (nat x) a, drop (nat y) b)"
    using g by (simp add: cutAt_def goSlice_def)
  have "ed (take (nat x) a) (take (nat y) b) \<le> p" using path_take [OF p(1)] .
  then have "ed (take (nat x) a) (take (nat y) b) + ed (drop (nat x) a) (drop (nat y) b) \<le> ed a b"
    using p(2) by (simp add: dist_def)
  moreover have "\<not> (x = 0 \<and> y = 0)" using p(4) assms(2) by (auto simp: dist_def)
  moreover have "\<not> (x = int (length a) \<and> y = int (length b))" using p(2,3) assms(2) by auto
  ultimately show ?thesis using cut by simp
qed

lemma myersRec_ok: "\<exists>ops. myersRec a b = Some ops \<and> aligned ops a b \<and> edits ops = ed a b"
proof (induction "length a + length b" arbitrary: a b rule: less_induct)
  case less
  obtain p s ma mb where st: "strip a b = (p, s, ma, mb)" by (metis prod_cases4)
  obtain l r where l: "a = l @ ma @ r" "b = l @ mb @ r" "length l = p" "length r = s"
    "ma \<noteq> [] \<longrightarrow> mb \<noteq> [] \<longrightarrow> hd ma \<noteq> hd mb \<and> last ma \<noteq> last mb"
    using strip_ok [OF st] by blast
  have wrap: "aligned (wrapEq p s ops) a b \<and> edits (wrapEq p s ops) = edits ops" if "aligned ops ma mb" for ops
    using that l aligned_runs(1) [of l] aligned_runs(1) [of r] by (simp add: wrapEq_def aligned_append)
  have dist_eq: "ed a b = ed ma mb" using l by simp
  note unroll = myersRec.simps [of a b]
  consider "ma = []" | "ma \<noteq> []" "mb = []" | "ma \<noteq> []" "mb \<noteq> []" by blast
  then show ?case
  proof cases
    case 1
    then show ?thesis using unroll st wrap [OF aligned_runs(3) [of mb, folded 1]] dist_eq by simp
  next
    case 2
    then show ?thesis using unroll st wrap [OF aligned_runs(2) [of ma, folded 2(2)]] dist_eq by simp
  next
    case 3
    have two: "2 \<le> dist ma mb" using stripped_distance [OF 3] 3 l(5) by (simp add: dist_def)
    obtain x y where xy: "bisect ma mb = Some (x, y, True)" "optSplit ma mb x y" using bisect_splits by blast
    obtain a1 b1 a2 b2 where c: "cutAt ma mb x y = Some (a1, b1, a2, b2)" "ma = a1 @ a2" "mb = b1 @ b2"
      "ed a1 b1 + ed a2 b2 \<le> ed ma mb" "\<not> (x = 0 \<and> y = 0)" "\<not> (x = int (length ma) \<and> y = int (length mb))"
      using optSplit_cut [OF xy(2) two] by blast
    note small = cutAt_smaller [OF c(1,5,6)]
    have "length ma + length mb \<le> length a + length b" using l by simp
    then obtain o1 o2 where o: "myersRec a1 b1 = Some o1" "aligned o1 a1 b1" "edits o1 = ed a1 b1"
      "myersRec a2 b2 = Some o2" "aligned o2 a2 b2" "edits o2 = ed a2 b2"
      using less small by (meson less_le_trans)
    have al: "aligned (o1 @ o2) ma mb" unfolding c(2,3) by (rule aligned_append [OF o(2,5)])
    have "myersRec a b = Some (wrapEq p s (o1 @ o2))"
      using unroll st 3 xy(1) c(1,5,6) o(1,4) by simp
    moreover have "edits (o1 @ o2) = ed ma mb" using aligned_ed [OF al] c(4) o(3,6) by simp
    ultimately show ?thesis using wrap [OF al] dist_eq by simp
  qed
qed

text \<open>C4: For any two sequences \<open>myersOps\<close> returns an edit script (no index of the two
  arrays is out of range, and the recursion ends); the script leads from the first sequence to the
  second, and no script that does has fewer insertions and deletions.\<close>

theorem myersOps_shortest:
  "\<exists>ops. myersOps a b = Some ops \<and> is_arg_min edits (\<lambda>s. aligned s a b) ops"
proof -
  obtain ops where "myersOps a b = Some ops" "aligned ops a b" "edits ops = ed a b"
    using myersRec_ok [of a b] unfolding myersOps_def by blast
  then show ?thesis using aligned_ed by (fastforce simp: is_arg_min_def not_less)
qed

end
