(* ===== verification/Diff_Emit.thy ===== *)
theory Diff_Emit
  imports Go_Prelude
begin

text \<open>
  \<open>cmds/diff/diff.go\<close>, from the change groups to the five output formats. An emitter returns the
  lines it prints, each one \<open>Fprintf\<close> or \<open>Fprintln\<close> of the source; \<^term>\<open>None\<close> is an index out of range.
  The two time stamps of a header are fields of the side, already formatted.
\<close>

record side =
  sideName :: string
  sideLines :: "string list"
  sideKeys :: "int list"
  sideNoEOL :: bool
  sideStamp :: string

record group =
  a0 :: int
  a1 :: int
  b0 :: int
  b1 :: int

definition noNewline :: string where
  "noNewline = BSL # '' No newline at end of file''"

text \<open>
  The loops that print the lines \<open>i\<close> up to \<open>hi\<close> of a side behind a mark, with the marker for a
  last line that lacks its newline.
\<close>

function emitRange :: "string \<Rightarrow> side \<Rightarrow> int \<Rightarrow> int \<Rightarrow> string list option" where
  "emitRange mark s i hi =
     (if i < hi then
        (case index (sideLines s) i of
           None \<Rightarrow> None
         | Some t \<Rightarrow>
             map_option
               (\<lambda>rest. (mark @ t) #
                  (if sideNoEOL s \<and> i = int (length (sideLines s)) - 1 then [noNewline] else []) @ rest)
               (emitRange mark s (i + 1) hi))
      else Some [])"
  by pat_completeness auto
termination
  by (relation "measure (\<lambda>(mark, s, i, hi). nat (hi - i))") auto

declare emitRange.simps [simp del]

text \<open>Concatenation of outputs, where a panic ends the run.\<close>

fun seqOut :: "string list option list \<Rightarrow> string list option" where
  "seqOut [] = Some []"
| "seqOut (None # outs) = None"
| "seqOut (Some ls # outs) = map_option (\<lambda>rest. ls @ rest) (seqOut outs)"

section \<open>Ranges\<close>

definition normalRange :: "int \<Rightarrow> int \<Rightarrow> string" where
  "normalRange start0 count =
     (if count = 1 then Itoa (start0 + 1) else Itoa (start0 + 1) @ '','' @ Itoa (start0 + count))"

definition forwardEdRange :: "int \<Rightarrow> int \<Rightarrow> string" where
  "forwardEdRange start0 count =
     (if count = 1 then Itoa (start0 + 1) else Itoa (start0 + 1) @ '' '' @ Itoa (start0 + count))"

definition unifiedRange :: "int \<Rightarrow> int \<Rightarrow> string" where
  "unifiedRange start0 count =
     (if count = 1 then Itoa (start0 + 1)
      else if count = 0 then Itoa start0 @ '',0''
      else Itoa (start0 + 1) @ '','' @ Itoa count)"

definition contextRange :: "int \<Rightarrow> int \<Rightarrow> string" where
  "contextRange start0 count =
     (if count \<le> 1 then Itoa (start0 + count)
      else Itoa (start0 + 1) @ '','' @ Itoa (start0 + count))"

section \<open>Ed scripts\<close>

fun emitEdBlock_loop :: "string list \<Rightarrow> bool \<Rightarrow> string list" where
  "emitEdBlock_loop [] inInput = (if inInput then [''.''] else [])"
| "emitEdBlock_loop (line # rest) inInput =
     (if line \<noteq> ''.'' then line # emitEdBlock_loop rest inInput
      else [''..'', ''.'', ''s/.//''] @
           (if rest \<noteq> [] then ''a'' # emitEdBlock_loop rest True else emitEdBlock_loop rest False))"

definition emitEdBlock :: "string list \<Rightarrow> string list" where
  "emitEdBlock ls = emitEdBlock_loop ls True"

definition emitEdGroup :: "side \<Rightarrow> group \<Rightarrow> string list option" where
  "emitEdGroup sb g =
     (let da = a1 g - a0 g; db = b1 g - b0 g
      in if da > 0 \<and> db > 0
         then map_option (\<lambda>ls. (normalRange (a0 g) da @ ''c'') # emitEdBlock ls)
                (goSlice (sideLines sb) (b0 g) (b1 g))
         else if da > 0 then Some [normalRange (a0 g) da @ ''d'']
         else map_option (\<lambda>ls. (Itoa (a0 g) @ ''a'') # emitEdBlock ls)
                (goSlice (sideLines sb) (b0 g) (b1 g)))"

definition emitEd :: "side \<Rightarrow> group list \<Rightarrow> string list option" where
  "emitEd sb gs = seqOut (map (emitEdGroup sb) (rev gs))"

definition emitForwardEdBlock :: "string list \<Rightarrow> string list" where
  "emitForwardEdBlock ls = ls @ [''.'']"

definition emitForwardEdGroup :: "side \<Rightarrow> group \<Rightarrow> string list option" where
  "emitForwardEdGroup sb g =
     (let da = a1 g - a0 g; db = b1 g - b0 g
      in if da > 0 \<and> db > 0
         then map_option (\<lambda>ls. (''c'' @ forwardEdRange (a0 g) da) # emitForwardEdBlock ls)
                (goSlice (sideLines sb) (b0 g) (b1 g))
         else if da > 0 then Some [''d'' @ forwardEdRange (a0 g) da]
         else map_option (\<lambda>ls. (''a'' @ Itoa (a0 g)) # emitForwardEdBlock ls)
                (goSlice (sideLines sb) (b0 g) (b1 g)))"

definition emitForwardEd :: "side \<Rightarrow> group list \<Rightarrow> string list option" where
  "emitForwardEd sb gs = seqOut (map (emitForwardEdGroup sb) gs)"

section \<open>Normal format\<close>

definition emitNormalGroup :: "side \<Rightarrow> side \<Rightarrow> group \<Rightarrow> string list option" where
  "emitNormalGroup sa sb g =
     (let da = a1 g - a0 g; db = b1 g - b0 g;
          header = (if da > 0 \<and> db > 0 then normalRange (a0 g) da @ ''c'' @ normalRange (b0 g) db
                    else if da > 0 then normalRange (a0 g) da @ ''d'' @ Itoa (b0 g)
                    else Itoa (a0 g) @ ''a'' @ normalRange (b0 g) db)
      in seqOut [Some [header], emitRange ''< '' sa (a0 g) (a1 g),
                 Some (if da > 0 \<and> db > 0 then [''---''] else []), emitRange ''> '' sb (b0 g) (b1 g)])"

definition emitNormal :: "side \<Rightarrow> side \<Rightarrow> group list \<Rightarrow> string list option" where
  "emitNormal sa sb gs = seqOut (map (emitNormalGroup sa sb) gs)"

section \<open>Hunks of unified and context format\<close>

text \<open>The groups that join the hunk of \<open>g\<close>, and those left.\<close>

fun mergeRun :: "int \<Rightarrow> group \<Rightarrow> group list \<Rightarrow> group list \<times> group list" where
  "mergeRun ctx g [] = ([], [])"
| "mergeRun ctx g (g' # gs) =
     (if a0 g' - a1 g \<le> i64 (2 * ctx)
      then (case mergeRun ctx g' gs of (xs, ys) \<Rightarrow> (g' # xs, ys))
      else ([], g' # gs))"

lemma mergeRun_append: "mergeRun ctx g gs = (xs, ys) \<Longrightarrow> gs = xs @ ys"
  by (induction gs arbitrary: g xs ys) (auto split: if_splits prod.splits)

text \<open>The old range \<open>hs\<close> to \<open>he\<close> and the new range \<open>hbs\<close> to \<open>hbe\<close> of a hunk from its first and last group.\<close>

definition hunkSpan :: "int \<Rightarrow> nat \<Rightarrow> group \<Rightarrow> group \<Rightarrow> int \<times> int \<times> int \<times> int" where
  "hunkSpan ctx n gi gj =
     (let hs = (if a0 gi - ctx < 0 then 0 else a0 gi - ctx);
          he0 = i64 (a1 gj + ctx);
          he = (if he0 > int n then int n else he0);
          hbs = b0 gi - (a0 gi - hs);
          hbe = i64 (b1 gj + i64 (he - a1 gj))
      in (hs, he, hbs, hbe))"

text \<open>The body of a unified hunk; \<open>ai\<close> and \<open>bi\<close> are the positions in the two files.\<close>

fun emitUnifiedBody :: "side \<Rightarrow> side \<Rightarrow> int \<Rightarrow> int \<Rightarrow> int \<Rightarrow> group list \<Rightarrow> string list option" where
  "emitUnifiedBody sa sb he ai bi [] = emitRange '' '' sa ai he"
| "emitUnifiedBody sa sb he ai bi (g # gs) =
     (let ai1 = max ai (a0 g); bi1 = bi + (ai1 - ai)
      in seqOut [emitRange '' '' sa ai (a0 g), emitRange ''-'' sa ai1 (a1 g),
                 emitRange ''+'' sb bi1 (b1 g),
                 emitUnifiedBody sa sb he (max ai1 (a1 g)) (max bi1 (b1 g)) gs])"

definition emitUnifiedHunk :: "int \<Rightarrow> side \<Rightarrow> side \<Rightarrow> group \<Rightarrow> group list \<Rightarrow> string list option" where
  "emitUnifiedHunk ctx sa sb g gs =
     (let (hs, he, hbs, hbe) = hunkSpan ctx (length (sideLines sa)) g (last (g # gs))
      in seqOut [Some [''@@ -'' @ unifiedRange hs (i64 (he - hs)) @ '' +'' @
                       unifiedRange hbs (i64 (hbe - hbs)) @ '' @@''],
                 emitUnifiedBody sa sb he hs hbs (g # gs)])"

function emitUnifiedHunks :: "int \<Rightarrow> side \<Rightarrow> side \<Rightarrow> group list \<Rightarrow> string list option" where
  "emitUnifiedHunks ctx sa sb [] = Some []"
| "emitUnifiedHunks ctx sa sb (g # gs) =
     (case mergeRun ctx g gs of
        (run, rest) \<Rightarrow> seqOut [emitUnifiedHunk ctx sa sb g run, emitUnifiedHunks ctx sa sb rest])"
  by pat_completeness auto
termination
  by (relation "measure (\<lambda>(ctx, sa, sb, gs). length gs)") (auto dest!: mergeRun_append [OF sym])

definition emitUnified :: "int \<Rightarrow> side \<Rightarrow> side \<Rightarrow> group list \<Rightarrow> string list option" where
  "emitUnified ctx sa sb gs =
     seqOut [Some [''--- '' @ sideName sa @ TAB # sideStamp sa, ''+++ '' @ sideName sb @ TAB # sideStamp sb],
             emitUnifiedHunks ctx sa sb gs]"

text \<open>One half of a context hunk: the lines of one side, marked by whether the group also changes the other side.\<close>

fun emitContextOld :: "side \<Rightarrow> int \<Rightarrow> int \<Rightarrow> group list \<Rightarrow> string list option" where
  "emitContextOld sa he ai [] = emitRange ''  '' sa ai he"
| "emitContextOld sa he ai (g # gs) =
     (let ai1 = max ai (a0 g)
      in seqOut [emitRange ''  '' sa ai (a0 g),
                 emitRange (if b1 g > b0 g then ''! '' else ''- '') sa ai1 (a1 g),
                 emitContextOld sa he (max ai1 (a1 g)) gs])"

fun emitContextNew :: "side \<Rightarrow> int \<Rightarrow> int \<Rightarrow> group list \<Rightarrow> string list option" where
  "emitContextNew sb hbe bi [] = emitRange ''  '' sb bi hbe"
| "emitContextNew sb hbe bi (g # gs) =
     (let bi1 = max bi (b0 g)
      in seqOut [emitRange ''  '' sb bi (b0 g),
                 emitRange (if a1 g > a0 g then ''! '' else ''+ '') sb bi1 (b1 g),
                 emitContextNew sb hbe (max bi1 (b1 g)) gs])"

definition emitContextHunk :: "int \<Rightarrow> side \<Rightarrow> side \<Rightarrow> group \<Rightarrow> group list \<Rightarrow> string list option" where
  "emitContextHunk ctx sa sb g gs =
     (let (hs, he, hbs, hbe) = hunkSpan ctx (length (sideLines sa)) g (last (g # gs));
          hasDel = list_ex (\<lambda>g. a1 g > a0 g) (g # gs);
          hasIns = list_ex (\<lambda>g. b1 g > b0 g) (g # gs)
      in seqOut [Some [''***************'', ''*** '' @ contextRange hs (i64 (he - hs)) @ '' ****''],
                 if hasDel then emitContextOld sa he hs (g # gs) else Some [],
                 Some [''--- '' @ contextRange hbs (i64 (hbe - hbs)) @ '' ----''],
                 if hasIns then emitContextNew sb hbe hbs (g # gs) else Some []])"

function emitContextHunks :: "int \<Rightarrow> side \<Rightarrow> side \<Rightarrow> group list \<Rightarrow> string list option" where
  "emitContextHunks ctx sa sb [] = Some []"
| "emitContextHunks ctx sa sb (g # gs) =
     (case mergeRun ctx g gs of
        (run, rest) \<Rightarrow> seqOut [emitContextHunk ctx sa sb g run, emitContextHunks ctx sa sb rest])"
  by pat_completeness auto
termination
  by (relation "measure (\<lambda>(ctx, sa, sb, gs). length gs)") (auto dest!: mergeRun_append [OF sym])

definition emitContext :: "int \<Rightarrow> side \<Rightarrow> side \<Rightarrow> group list \<Rightarrow> string list option" where
  "emitContext ctx sa sb gs =
     seqOut [Some [''*** '' @ sideName sa @ TAB # sideStamp sa, ''--- '' @ sideName sb @ TAB # sideStamp sb],
             emitContextHunks ctx sa sb gs]"

end
