(* ===== verification/Go_Path.thy ===== *)
theory Go_Path
  imports Go_Args
begin

text \<open>
  Path names: \<open>path/filepath\<close> on a platform whose separator is \<open>/\<close>, and the resolution of an operand
  against the invocation directory (\<open>RunContext.Path\<close> of \<open>src/tool/tool.go\<close> with \<open>src/tool/path_unix.go\<close>).
\<close>

abbreviation SLASH :: char where "SLASH \<equiv> CHR ''/''"

definition filepathIsAbs :: "string \<Rightarrow> bool" where
  "filepathIsAbs p = hasPrefix p ''/''"

text \<open>
  \<open>filepath.Clean\<close>: one component at a time; the components kept so far are a stack, \<open>..\<close> removes the
  top unless there is nothing to remove.
\<close>

definition cleanStep :: "bool \<Rightarrow> string list \<Rightarrow> string \<Rightarrow> string list" where
  "cleanStep rooted stack c =
     (if c = [] \<or> c = ''.'' then stack
      else if c = ''..'' then
        (if stack \<noteq> [] \<and> hd stack \<noteq> ''..'' then tl stack
         else if rooted then stack else c # stack)
      else c # stack)"

definition filepathClean :: "string \<Rightarrow> string" where
  "filepathClean p =
     (let rooted = filepathIsAbs p;
          stack = foldl (cleanStep rooted) [] (splitByte SLASH p);
          body = joinByte SLASH (rev stack)
      in if rooted then SLASH # body else if body = [] then ''.'' else body)"

definition filepathJoin :: "string \<Rightarrow> string \<Rightarrow> string" where
  "filepathJoin a b =
     (if a \<noteq> [] then filepathClean (a @ SLASH # b)
      else if b \<noteq> [] then filepathClean b else [])"

definition filepathDir :: "string \<Rightarrow> string" where
  "filepathDir p = filepathClean (rev (dropWhile (\<lambda>c. c \<noteq> SLASH) (rev p)))"

section \<open>Resolving an operand\<close>

record runDir =
  rcDir :: string
  rcDirIsCwd :: bool

definition pathLengthLimit :: nat where
  "pathLengthLimit = 4095"

definition hasTrailingPathSeparator :: "string \<Rightarrow> bool" where
  "hasTrailingPathSeparator p = hasSuffixByte p SLASH"

definition rcPath :: "runDir \<Rightarrow> string \<Rightarrow> string" where
  "rcPath rc operand =
     (if filepathIsAbs operand \<or> rcDir rc = [] then operand
      else let joined0 = filepathJoin (rcDir rc) operand;
               joined = (if hasTrailingPathSeparator operand \<and> \<not> hasTrailingPathSeparator joined0
                         then joined0 @ [SLASH] else joined0)
           in if rcDirIsCwd rc \<and> length joined > pathLengthLimit then operand else joined)"

section \<open>Absolute paths\<close>

lemma filepathClean_abs: "filepathIsAbs p \<Longrightarrow> filepathIsAbs (filepathClean p)"
  by (simp add: filepathClean_def filepathIsAbs_def Let_def hasPrefix_Cons)

lemma filepathIsAbs_append: "filepathIsAbs p \<Longrightarrow> filepathIsAbs (p @ s)"
  by (cases p) (auto simp: filepathIsAbs_def hasPrefix_Cons)

lemma filepathIsAbs_not_Nil: "filepathIsAbs p \<Longrightarrow> p \<noteq> []"
  by (auto simp: filepathIsAbs_def hasPrefix_Cons)

lemma filepathJoin_abs: "filepathIsAbs a \<Longrightarrow> filepathIsAbs (filepathJoin a b)"
  using filepathIsAbs_not_Nil [of a] by (simp add: filepathJoin_def filepathIsAbs_append filepathClean_abs)

lemma rcPath_abs_or_same:
  assumes "filepathIsAbs (rcDir rc)"
  shows "filepathIsAbs (rcPath rc p) \<or> rcPath rc p = p"
  using assms by (auto simp: rcPath_def Let_def filepathJoin_abs filepathIsAbs_append)



end
