(* ===== verification/Patch_World.thy ===== *)
theory Patch_World
  imports Go_Path Patch_Parse Patch_Ed "HOL-Library.Word" "HOL-Library.Sublist"
begin

unbundle bit_operations_syntax

text \<open>
  What \<open>cmds/patch\<close> does to the file system and the terminal. A file system is a finite or infinite map
  from path names to entries; every call that changes it is a value of \<open>fsOp\<close>, kept in a log, so that the
  states between two calls can be spoken about. Any call may fail: the runtime is a record of functions that say
  which call fails and how (the number of calls made so far is an argument, so that the same call may fail once
  and succeed later), how many bytes a failing write has written, and which name \<open>os.CreateTemp\<close> picks. On top of it stand
  \<open>writeFileContent\<close>, \<open>replaceExisting\<close>, \<open>backupFile\<close>, \<open>backupOnce\<close> and \<open>askPrompt\<close> of \<open>src/cmds/patch/patch.go\<close>.
\<close>

section \<open>Files\<close>

type_synonym fileMode = "32 word"

datatype fsEntry = FsFile string fileMode | FsDir fileMode

type_synonym files = "string \<Rightarrow> fsEntry option"

datatype fsOp =
    MkdirAll string fileMode
  | OpenTrunc string fileMode
  | OpenAppend string fileMode
  | WriteData string string
  | CloseFile string
  | CreateTemp string
  | Chmod string fileMode
  | Rename string string
  | RemoveFile string

text \<open>The directories \<open>os.MkdirAll\<close> makes: the path itself and its proper ancestors.\<close>

definition dirChain :: "string \<Rightarrow> string list" where
  "dirChain d = d # map (\<lambda>i. take i d) (filter (\<lambda>i. 0 < i \<and> d ! i = SLASH) [0..<length d])"

definition appendData :: "string \<Rightarrow> fsEntry option \<Rightarrow> fsEntry option" where
  "appendData d e = (case e of Some (FsFile c m) \<Rightarrow> Some (FsFile (c @ d) m) | _ \<Rightarrow> e)"

fun fsStep :: "fsOp \<Rightarrow> files \<Rightarrow> files" where
  "fsStep (MkdirAll d perm) fs = (\<lambda>p. if fs p = None \<and> p \<in> set (dirChain d) then Some (FsDir perm) else fs p)"
| "fsStep (OpenTrunc p perm) fs =
     (case fs p of Some (FsFile c m) \<Rightarrow> fs(p \<mapsto> FsFile [] m) | Some (FsDir m) \<Rightarrow> fs | None \<Rightarrow> fs(p \<mapsto> FsFile [] perm))"
| "fsStep (OpenAppend p perm) fs = (case fs p of None \<Rightarrow> fs(p \<mapsto> FsFile [] perm) | Some e \<Rightarrow> fs)"
| "fsStep (WriteData p d) fs = fs(p := appendData d (fs p))"
| "fsStep (CloseFile p) fs = fs"
| "fsStep (CreateTemp p) fs = fs(p \<mapsto> FsFile [] 0x180)"
| "fsStep (Chmod p perm) fs = (case fs p of Some (FsFile c m) \<Rightarrow> fs(p \<mapsto> FsFile c perm) | _ \<Rightarrow> fs)"
| "fsStep (Rename p q) fs = fs(q := fs p, p := None)"
| "fsStep (RemoveFile p) fs = fs(p := None)"

section \<open>The runtime and the state of a run\<close>

record patchCtx =
  pcDir :: runDir
  pcUmask :: "fileMode option"
  osUmask :: fileMode
  pcNoInput :: bool
  osFault :: "nat \<Rightarrow> fsOp \<Rightarrow> string option"
  osPartial :: "nat \<Rightarrow> fsOp \<Rightarrow> nat"
  osStatFault :: "nat \<Rightarrow> string \<Rightarrow> string option"
  osReadFault :: "nat \<Rightarrow> string \<Rightarrow> string option"
  osTempName :: "string \<Rightarrow> string \<Rightarrow> files \<Rightarrow> string"
  matchAffirmative :: "string \<Rightarrow> string + bool"

text \<open>The messages on standard error, one constructor per format string.\<close>

datatype usageProblem =
    StripNegative | GetUnsupported | FormatHints | ExtraOperand string | InvalidDefine string
  | ReverseWithEd | RejectMultiFile | OperandMultiFile

datatype patchMsg =
    MsgPrompt string | MsgNoInput | MsgUsage usageProblem | MsgError string | MsgParse ParseError
  | MsgFormat Format Format | MsgUnsupported string string | MsgCantFind "string option"
  | MsgCantDetermine "string option" | MsgDirectory string | MsgVerb string string bool
  | MsgFuzzy int int int | MsgAlready int | MsgFailed int | MsgBackup string | MsgRejectWrite string
  | MsgRejects int int string | MsgEdError edError | MsgEdRejects int string

record patchState =
  psFiles :: files
  psOps :: "fsOp list"
  psTick :: nat
  psErr :: "patchMsg list"
  psTTY :: "(string \<times> string option) list"
  psNoInputHit :: bool
  psBackedUp :: "string list"
  psIntermediate :: "(string \<times> string) list"
  psRejectStarted :: "string list"
  psReverse :: bool
  psProbe :: bool
  psHard :: bool
  psAggregate :: "string option"

definition say :: "patchMsg \<Rightarrow> patchState \<Rightarrow> patchState" where
  "say m st = st\<lparr>psErr := psErr st @ [m]\<rparr>"

text \<open>The effect of a call that fails: a write may have written some of its bytes.\<close>

definition partialOp :: "nat \<Rightarrow> fsOp \<Rightarrow> fsOp option" where
  "partialOp n op = (case op of WriteData p d \<Rightarrow> Some (WriteData p (take n d)) | _ \<Rightarrow> None)"

definition logOp :: "fsOp \<Rightarrow> patchState \<Rightarrow> patchState" where
  "logOp op st = st\<lparr>psFiles := fsStep op (psFiles st), psOps := op # psOps st\<rparr>"

definition doOp :: "patchCtx \<Rightarrow> fsOp \<Rightarrow> patchState \<Rightarrow> string option \<times> patchState" where
  "doOp ctx op st =
     (let st1 = st\<lparr>psTick := psTick st + 1\<rparr>
      in case osFault ctx (psTick st) op of
           None \<Rightarrow> (None, logOp op st1)
         | Some e \<Rightarrow> (Some e, case partialOp (osPartial ctx (psTick st) op) op of None \<Rightarrow> st1 | Some op' \<Rightarrow> logOp op' st1))"

text \<open>A sequence of calls up to the first that fails.\<close>

fun doOps :: "patchCtx \<Rightarrow> fsOp list \<Rightarrow> patchState \<Rightarrow> string option \<times> patchState" where
  "doOps ctx [] st = (None, st)"
| "doOps ctx (op # ops) st =
     (case doOp ctx op st of (Some e, st') \<Rightarrow> (Some e, st') | (None, st') \<Rightarrow> doOps ctx ops st')"

definition osStat :: "patchCtx \<Rightarrow> patchState \<Rightarrow> string \<Rightarrow> osError + fsEntry" where
  "osStat ctx st p =
     (case osStatFault ctx (psTick st) p of
        Some e \<Rightarrow> Inl (OtherError e)
      | None \<Rightarrow> (case psFiles st p of None \<Rightarrow> Inl ErrNotExist | Some e \<Rightarrow> Inr e))"

definition osReadFile :: "patchCtx \<Rightarrow> patchState \<Rightarrow> string \<Rightarrow> osError + string" where
  "osReadFile ctx st p =
     (case osReadFault ctx (psTick st) p of
        Some e \<Rightarrow> Inl (OtherError e)
      | None \<Rightarrow> (case psFiles st p of
                   None \<Rightarrow> Inl ErrNotExist
                 | Some (FsDir m) \<Rightarrow> Inl (OtherError ''is a directory'')
                 | Some (FsFile c m) \<Rightarrow> Inr c))"

fun entryPerm :: "fsEntry \<Rightarrow> fileMode" where
  "entryPerm (FsFile c m) = m"
| "entryPerm (FsDir m) = m"

fun entryIsDir :: "fsEntry \<Rightarrow> bool" where
  "entryIsDir (FsDir m) = True"
| "entryIsDir (FsFile c m) = False"

definition describeErr :: "string \<Rightarrow> osError \<Rightarrow> string" where
  "describeErr p e = p @ '': '' @ (case e of ErrNotExist \<Rightarrow> ''no such file or directory'' | OtherError t \<Rightarrow> t)"

text \<open>The mode \<open>RunContext.OpenFile\<close> gives a new file.\<close>

definition createMask :: "patchCtx \<Rightarrow> fileMode \<Rightarrow> fileMode" where
  "createMask ctx perm = perm AND NOT (case pcUmask ctx of Some u \<Rightarrow> u AND 0x1FF | None \<Rightarrow> osUmask ctx)"

section \<open>Replacing and writing a file\<close>

text \<open>Put a new file over an existing one; the fallback moves the old file out of the way first.\<close>

definition replaceExisting :: "patchCtx \<Rightarrow> string \<Rightarrow> string \<Rightarrow> patchState \<Rightarrow> string option \<times> patchState" where
  "replaceExisting ctx src dst st =
     (case doOp ctx (Rename src dst) st of
        (None, st1) \<Rightarrow> (None, st1)
      | (Some e, st1) \<Rightarrow>
          let old = osTempName ctx (filepathDir dst) ''.patch-old-*'' (psFiles st1)
          in case doOps ctx [CreateTemp old, CloseFile old, RemoveFile old, Rename dst old] st1 of
               (Some e, st2) \<Rightarrow> (Some e, st2)
             | (None, st2) \<Rightarrow>
                 (case doOp ctx (Rename src dst) st2 of
                    (Some e, st3) \<Rightarrow> (Some e, snd (doOp ctx (Rename old dst) st3))
                  | (None, st3) \<Rightarrow> doOp ctx (RemoveFile old) st3))"

definition writeFileContent :: "patchCtx \<Rightarrow> string \<Rightarrow> string \<Rightarrow> fileMode \<Rightarrow> bool \<Rightarrow> patchState \<Rightarrow> string option \<times> patchState" where
  "writeFileContent ctx path content perm existed st =
     (if \<not> existed
      then doOps ctx [MkdirAll (filepathDir path) (0x1FF AND NOT (osUmask ctx)), OpenTrunc path (createMask ctx perm), WriteData path content, CloseFile path] st
      else
        let tmp = osTempName ctx (filepathDir path) ''.patch-*'' (psFiles st)
        in case doOp ctx (CreateTemp tmp) st of
             (Some e, st1) \<Rightarrow> (Some e, st1)
           | (None, st1) \<Rightarrow>
               (case doOps ctx [WriteData tmp content, Chmod tmp perm, CloseFile tmp] st1 of
                  (Some e, st2) \<Rightarrow> (Some e, snd (doOp ctx (RemoveFile tmp) st2))
                | (None, st2) \<Rightarrow>
                    (case replaceExisting ctx tmp path st2 of
                       (Some e, st3) \<Rightarrow> (Some e, snd (doOp ctx (RemoveFile tmp) st3))
                     | (None, st3) \<Rightarrow> (None, st3))))"

section \<open>Backups\<close>

definition backupFile :: "patchCtx \<Rightarrow> string \<Rightarrow> patchState \<Rightarrow> string option \<times> patchState" where
  "backupFile ctx path st =
     (case osReadFile ctx st path of
        Inl e \<Rightarrow> (Some (describeErr path e), st)
      | Inr content \<Rightarrow>
          (case osStat ctx st path of
             Inl e \<Rightarrow> (Some (describeErr path e), st)
           | Inr fi \<Rightarrow>
               let backup = path @ ''.orig''
               in doOps ctx [OpenTrunc backup (entryPerm fi AND NOT (osUmask ctx)), WriteData backup content, CloseFile backup] st))"

definition backupOnce :: "patchCtx \<Rightarrow> string \<Rightarrow> patchState \<Rightarrow> string option \<times> patchState" where
  "backupOnce ctx path st =
     (if path \<in> set (psBackedUp st) then (None, st)
      else case backupFile ctx path st of
             (Some e, st1) \<Rightarrow> (Some e, st1)
           | (None, st1) \<Rightarrow> (None, st1\<lparr>psBackedUp := path # psBackedUp st1\<rparr>))"

section \<open>The prompt\<close>

definition readPromptLine :: "patchState \<Rightarrow> (string \<times> string option) \<times> patchState" where
  "readPromptLine st =
     (case psTTY st of
        [] \<Rightarrow> (([], Some ''EOF''), st)
      | a # as \<Rightarrow> (a, st\<lparr>psTTY := as\<rparr>))"

definition askPrompt :: "patchCtx \<Rightarrow> string \<Rightarrow> patchState \<Rightarrow> (string \<times> string option) \<times> patchState" where
  "askPrompt ctx prompt st =
     (if pcNoInput ctx
      then (([], Some ''--no-input forbids prompting''),
            if psNoInputHit st then st else say MsgNoInput (st\<lparr>psNoInputHit := True\<rparr>))
      else readPromptLine (say (MsgPrompt prompt) st))"

end
