(* ===== verification/Patch_Reject.thy ===== *)
theory Patch_Reject
  imports Patch_Parse
begin

text \<open>
  Reject files (\<open>src/pkg/patch/reject.go\<close>): failed hunks as text, in the copied-context form \<open>patch\<close> writes and in
  the unified form.
\<close>

definition rejectMark :: "LineKind \<Rightarrow> string" where
  "rejectMark k = (case k of LineContext \<Rightarrow> '' '' | LineDelete \<Rightarrow> ''-'' | LineAdd \<Rightarrow> ''+'')"

definition noNewlineText :: string where
  "noNewlineText = BSL # '' No newline at end of file'' @ [NL]"

definition unifiedRangeText :: "int \<Rightarrow> int \<Rightarrow> string" where
  "unifiedRangeText start0 count =
     (if count = 1 then Itoa (start0 + 1)
      else if count = 0 then Itoa start0 @ '',0''
      else Itoa (start0 + 1) @ '','' @ Itoa count)"

definition hunkHeader :: "Hunk \<Rightarrow> string" where
  "hunkHeader h =
     ''@@ -'' @ unifiedRangeText (OldStart h) (OldCount h) @ '' +'' @ unifiedRangeText (NewStart h) (NewCount h) @ '' @@'' @ [NL]"

definition unifiedRejectLine :: "HunkLine \<Rightarrow> string" where
  "unifiedRejectLine l = rejectMark (Kind l) @ Text l @ NL # (if NoEOL l then noNewlineText else [])"

definition writeUnifiedReject :: "string \<Rightarrow> string \<Rightarrow> Hunk list \<Rightarrow> string" where
  "writeUnifiedReject oldName newName hunks =
     ''--- '' @ oldName @ NL # ''+++ '' @ newName @ NL #
     concat (map (\<lambda>h. hunkHeader h @ concat (map unifiedRejectLine (Lines h))) hunks)"

definition contextRangeText :: "int \<Rightarrow> int \<Rightarrow> string" where
  "contextRangeText start0 count =
     (if count \<le> 1 then Itoa (start0 + count)
      else Itoa (start0 + 1) @ '','' @ Itoa (start0 + count))"

definition appendContextRejectLine :: "string \<Rightarrow> HunkLine \<Rightarrow> string" where
  "appendContextRejectLine mk l = mk @ Text l @ NL # (if NoEOL l then noNewlineText else [])"

text \<open>One half of a hunk: the lines it keeps, each with the mark of its kind.\<close>

definition contextRejectOld :: "Hunk \<Rightarrow> string" where
  "contextRejectOld h =
     (let hasAdd = list_ex (\<lambda>l. Kind l = LineAdd) (Lines h)
      in concat (map (\<lambda>l. if Kind l = LineAdd then []
                          else appendContextRejectLine
                            (if Kind l = LineDelete then (if hasAdd then ''! '' else ''- '') else ''  '') l) (Lines h)))"

definition contextRejectNew :: "Hunk \<Rightarrow> string" where
  "contextRejectNew h =
     (let hasDelete = list_ex (\<lambda>l. Kind l = LineDelete) (Lines h)
      in concat (map (\<lambda>l. if Kind l = LineDelete then []
                          else appendContextRejectLine
                            (if Kind l = LineAdd then (if hasDelete then ''! '' else ''+ '') else ''  '') l) (Lines h)))"

definition writeContextReject :: "string \<Rightarrow> string \<Rightarrow> Hunk list \<Rightarrow> string" where
  "writeContextReject oldName newName hunks =
     (if oldName \<noteq> [] \<or> newName \<noteq> [] then ''*** '' @ oldName @ NL # ''--- '' @ newName @ [NL] else []) @
     concat (map (\<lambda>h. ''***************'' @ NL #
        ''*** '' @ contextRangeText (OldStart h) (OldCount h) @ '' ****'' @ NL # contextRejectOld h @
        ''--- '' @ contextRangeText (NewStart h) (NewCount h) @ '' ----'' @ NL # contextRejectNew h) hunks)"

definition WriteRejectFormat :: "string \<Rightarrow> string \<Rightarrow> Format \<Rightarrow> Hunk list \<Rightarrow> string" where
  "WriteRejectFormat oldName newName format hunks = writeContextReject oldName newName hunks"

definition WriteReject :: "string \<Rightarrow> string \<Rightarrow> Hunk list \<Rightarrow> string" where
  "WriteReject oldName newName hunks = WriteRejectFormat oldName newName FormatUnified hunks"

end
