(* ===== verification/Patch_Apply.thy ===== *)
theory Patch_Apply
  imports Patch_Types
begin

text \<open>
  \<open>pkg/patch/apply.go\<close>: placing the hunks of a patch in the lines of a file. The search for a
  hunk, its fuzz rounds, the replacement of a matched region and the walk of \<open>Apply\<close> over the
  hunks are translated with their slice bounds checked: \<^term>\<open>None\<close> is a run-time panic.
\<close>

section \<open>Searching for a run of lines\<close>

fun normalizeWS_loop :: "string \<Rightarrow> bool \<Rightarrow> string" where
  "normalizeWS_loop [] inBlank = []"
| "normalizeWS_loop (c # s) inBlank =
     (if c = SP \<or> c = TAB
      then (if inBlank then normalizeWS_loop s True else SP # normalizeWS_loop s True)
      else c # normalizeWS_loop s False)"

definition normalizeWS :: "string \<Rightarrow> string" where
  "normalizeWS s = normalizeWS_loop s False"

definition sameLine :: "bool \<Rightarrow> string \<Rightarrow> string \<Rightarrow> bool" where
  "sameLine ignoreWS t w = (if ignoreWS then normalizeWS t = normalizeWS w else t = w)"

fun matchAt :: "string list \<Rightarrow> string list \<Rightarrow> int \<Rightarrow> bool \<Rightarrow> bool option" where
  "matchAt target [] pos ignoreWS = Some True"
| "matchAt target (w # want) pos ignoreWS =
     (case index target pos of
        None \<Rightarrow> None
      | Some t \<Rightarrow> if sameLine ignoreWS t w then matchAt target want (pos + 1) ignoreWS else Some False)"

function searchOrder_loop :: "int \<Rightarrow> int \<Rightarrow> int \<Rightarrow> int \<Rightarrow> int list" where
  "searchOrder_loop start minStart maxStart d =
     (if start - d \<ge> minStart \<or> start + d \<le> maxStart
      then (if start - d \<ge> minStart then [start - d] else []) @
           (if start + d \<le> maxStart then [start + d] else []) @
           searchOrder_loop start minStart maxStart (d + 1)
      else [])"
  by pat_completeness auto
termination
  by (relation "measure (\<lambda>(start, lo, hi, d). nat (max (start - lo) (hi - start) + 1 - d))") auto

declare searchOrder_loop.simps [simp del]

definition searchOrderWithin :: "int \<Rightarrow> int \<Rightarrow> int \<Rightarrow> int list" where
  "searchOrderWithin start minStart maxStart = start # searchOrder_loop start minStart maxStart 1"

fun firstMatch :: "string list \<Rightarrow> string list \<Rightarrow> bool \<Rightarrow> int list \<Rightarrow> int option option" where
  "firstMatch target want ignoreWS [] = Some None"
| "firstMatch target want ignoreWS (cand # cands) =
     (case matchAt target want cand ignoreWS of
        None \<Rightarrow> None
      | Some True \<Rightarrow> Some (Some cand)
      | Some False \<Rightarrow> firstMatch target want ignoreWS cands)"

text \<open>The outer option is the panic, the inner one the \<open>found\<close> flag.\<close>

definition searchWithin ::
  "string list \<Rightarrow> string list \<Rightarrow> int \<Rightarrow> int \<Rightarrow> int \<Rightarrow> bool \<Rightarrow> int option option" where
  "searchWithin target want hint minStart0 maxStart0 ignoreWS =
     (let l = int (length want);
          sequenceMax = int (length target) - l;
          minStart = (if minStart0 < 0 then 0 else minStart0);
          maxStart = (if maxStart0 > sequenceMax then sequenceMax else maxStart0)
      in if minStart > maxStart then Some None
         else if l = 0 then Some (Some (clampInt hint minStart maxStart))
         else firstMatch target want ignoreWS
                (searchOrderWithin (clampInt hint minStart maxStart) minStart maxStart))"

definition search :: "string list \<Rightarrow> string list \<Rightarrow> int \<Rightarrow> bool \<Rightarrow> int option option" where
  "search target want hint ignoreWS =
     searchWithin target want hint 0 (int (length target) - int (length want)) ignoreWS"

section \<open>Locating a hunk\<close>

definition edgeContextCounts :: "HunkLine list \<Rightarrow> nat \<times> nat" where
  "edgeContextCounts ls =
     (let lead = length (takeWhile (\<lambda>l. Kind l = LineContext) ls);
          trail = length (takeWhile (\<lambda>l. Kind l = LineContext) (rev ls))
      in (lead, if lead + trail > length ls then length ls - lead else trail))"

text \<open>
  One round of the fuzz loop at fuzz \<open>f\<close>: the core of the hunk, its edge context peeled, is
  searched where the complete old side still fits.
\<close>

definition fuzzRound :: "string list \<Rightarrow> Hunk \<Rightarrow> int \<Rightarrow> ApplyOptions \<Rightarrow> nat \<Rightarrow> nat \<Rightarrow> nat \<Rightarrow>
    int option option" where
  "fuzzRound oldLines h expected opts lead trail f =
     (let peelLead = min f lead;
          peelTrail = min f trail;
          core = take (length (Lines h) - peelTrail - peelLead) (drop peelLead (Lines h));
          subOld = oldSeq core;
          minCoreStart = int peelLead;
          maxCoreStart = i64 (int (length oldLines) - OldCount h + int peelLead)
      in map_option (map_option (\<lambda>pos. pos - int peelLead))
           (searchWithin oldLines subOld (i64 (expected + int peelLead)) minCoreStart maxCoreStart
              (IgnoreWhitespace opts)))"

function fuzzLoop :: "string list \<Rightarrow> Hunk \<Rightarrow> int \<Rightarrow> ApplyOptions \<Rightarrow> nat \<Rightarrow> nat \<Rightarrow> nat \<Rightarrow> nat \<Rightarrow>
    (int \<times> int \<times> HunkOutcome) option option" where
  "fuzzLoop oldLines h expected opts lead trail maxFuzz f =
     (if f \<le> maxFuzz
      then (case fuzzRound oldLines h expected opts lead trail f of
              None \<Rightarrow> None
            | Some (Some pos) \<Rightarrow>
                Some (Some (pos, int f, if f > 0 then HunkAppliedFuzzy else HunkApplied))
            | Some None \<Rightarrow>
                if min f lead = lead \<and> min f trail = trail \<and> f < maxFuzz then Some None
                else fuzzLoop oldLines h expected opts lead trail maxFuzz (Suc f))
      else Some None)"
  by pat_completeness auto
termination
  by (relation "measure (\<lambda>(oldLines, h, expected, opts, lead, trail, maxFuzz, f). Suc maxFuzz - f)") auto

declare fuzzLoop.simps [simp del]

definition locateHunk :: "string list \<Rightarrow> Hunk \<Rightarrow> int \<Rightarrow> ApplyOptions \<Rightarrow>
    (int \<times> int \<times> HunkOutcome) option" where
  "locateHunk oldLines h expected opts =
     (let (lead, trail) = edgeContextCounts (Lines h);
          maxFuzz = nat (max (Fuzz opts) 0);
          failed = (clampInt expected 0 (int (length oldLines)), 0, HunkFailed)
      in case fuzzLoop oldLines h expected opts lead trail maxFuzz 0 of
           None \<Rightarrow> None
         | Some (Some r) \<Rightarrow> Some r
         | Some None \<Rightarrow>
             if \<not> Force opts \<and> newSeq (Lines h) \<noteq> []
             then (case search oldLines (newSeq (Lines h)) expected (IgnoreWhitespace opts) of
                     None \<Rightarrow> None
                   | Some (Some pos) \<Rightarrow> Some (pos, 0, HunkAlreadyApplied)
                   | Some None \<Rightarrow> Some failed)
             else Some failed)"

section \<open>Replacing a matched region\<close>

text \<open>The loop carries \<open>repl\<close>, \<open>lastNoEOL\<close> and \<open>sawAny\<close>; \<open>ti\<close> is the index into the target.\<close>

fun buildReplacement_loop :: "string list \<Rightarrow> int \<Rightarrow> HunkLine list \<Rightarrow> string list \<Rightarrow> bool \<Rightarrow> bool \<Rightarrow>
    (string list \<times> bool \<times> bool) option" where
  "buildReplacement_loop oldLines ti [] repl lastNoEOL sawAny = Some (repl, lastNoEOL, sawAny)"
| "buildReplacement_loop oldLines ti (l # ls) repl lastNoEOL sawAny =
     (case Kind l of
        LineContext \<Rightarrow>
          (case index oldLines ti of
             None \<Rightarrow> None
           | Some t \<Rightarrow> buildReplacement_loop oldLines (ti + 1) ls (repl @ [t]) (NoEOL l) True)
      | LineDelete \<Rightarrow> buildReplacement_loop oldLines (ti + 1) ls repl lastNoEOL sawAny
      | LineAdd \<Rightarrow> buildReplacement_loop oldLines ti ls (repl @ [Text l]) (NoEOL l) True)"

definition buildReplacement :: "string list \<Rightarrow> int \<Rightarrow> HunkLine list \<Rightarrow> bool \<Rightarrow>
    (string list \<times> bool \<times> bool) option" where
  "buildReplacement oldLines matchStart ls oldNoFinalNewline =
     buildReplacement_loop oldLines matchStart ls [] oldNoFinalNewline False"

section \<open>The walk over the hunks\<close>

text \<open>The variables \<open>Apply\<close> carries from hunk to hunk.\<close>

record ApplyState =
  outLines :: "string list"
  finalNoEOL :: bool
  cur :: int
  offset :: int
  reports :: "HunkReport list"
  rejects :: "Hunk list"

definition appendVerbatim :: "string list \<Rightarrow> bool \<Rightarrow> int \<Rightarrow> int \<Rightarrow> ApplyState \<Rightarrow> ApplyState option" where
  "appendVerbatim oldLines oldNoFinalNewline lo hi st =
     (if hi \<le> lo then Some st
      else case goSlice oldLines lo hi of
             None \<Rightarrow> None
           | Some xs \<Rightarrow>
               Some (st\<lparr>outLines := outLines st @ xs,
                        finalNoEOL := (oldNoFinalNewline \<and> hi = int (length oldLines))\<rparr>))"

definition failedReport :: "int \<Rightarrow> HunkReport" where
  "failedReport idx = \<lparr>Index = idx, Outcome = HunkFailed, FuzzUsed = 0, At = 0\<rparr>"

definition rejectHunk :: "int \<Rightarrow> Hunk \<Rightarrow> ApplyState \<Rightarrow> ApplyState" where
  "rejectHunk idx h st =
     st\<lparr>rejects := rejects st @ [h], reports := reports st @ [failedReport idx]\<rparr>"

text \<open>The three arms of the \<open>switch\<close> on the outcome.\<close>

definition applyFailed :: "string list \<Rightarrow> bool \<Rightarrow> int \<Rightarrow> Hunk \<Rightarrow> int \<Rightarrow> ApplyState \<Rightarrow> ApplyState option" where
  "applyFailed oldLines oldNo idx h matchStart0 st =
     (let matchStart = (if matchStart0 < cur st then cur st else matchStart0);
          stop = (if matchStart0 < cur st then cur st
                  else min (i64 (matchStart0 + OldCount h)) (int (length oldLines)))
      in case appendVerbatim oldLines oldNo (cur st) matchStart st of
           None \<Rightarrow> None
         | Some st1 \<Rightarrow>
             map_option (\<lambda>st2. rejectHunk idx h (st2\<lparr>cur := stop\<rparr>))
               (appendVerbatim oldLines oldNo matchStart stop st1))"

definition applyAlready :: "string list \<Rightarrow> bool \<Rightarrow> int \<Rightarrow> Hunk \<Rightarrow> int \<Rightarrow> ApplyState \<Rightarrow> ApplyState option" where
  "applyAlready oldLines oldNo idx h matchStart st =
     (let stop = i64 (matchStart + NewCount h)
      in if stop > int (length oldLines) \<or> matchStart < cur st then Some (rejectHunk idx h st)
         else case appendVerbatim oldLines oldNo (cur st) matchStart st of
                None \<Rightarrow> None
              | Some st1 \<Rightarrow>
                  map_option
                    (\<lambda>st2. st2\<lparr>cur := stop, offset := i64 (matchStart - OldStart h),
                       reports := reports st2 @
                         [\<lparr>Index = idx, Outcome = HunkAlreadyApplied, FuzzUsed = 0, At = matchStart\<rparr>]\<rparr>)
                    (appendVerbatim oldLines oldNo matchStart stop st1))"

definition applyPlaced :: "string list \<Rightarrow> bool \<Rightarrow> int \<Rightarrow> Hunk \<Rightarrow> int \<Rightarrow> int \<Rightarrow> HunkOutcome \<Rightarrow>
    ApplyState \<Rightarrow> ApplyState option" where
  "applyPlaced oldLines oldNo idx h matchStart peelUsed outcome st =
     (let n = int (length oldLines)
      in if matchStart < cur st
         then (let stop = max (min (i64 (matchStart + OldCount h)) n) (cur st)
               in map_option (\<lambda>st1. rejectHunk idx h (st1\<lparr>cur := stop\<rparr>))
                    (appendVerbatim oldLines oldNo (cur st) stop st))
         else case appendVerbatim oldLines oldNo (cur st) matchStart st of
                None \<Rightarrow> None
              | Some st1 \<Rightarrow>
                  (case buildReplacement oldLines matchStart (Lines h) oldNo of
                     None \<Rightarrow> None
                   | Some (repl, lastNoEOL, ok) \<Rightarrow>
                       let cur' = i64 (matchStart + OldCount h)
                       in Some (st1\<lparr>
                            outLines := outLines st1 @ repl,
                            cur := cur',
                            finalNoEOL := (if cur' = n \<and> ok then lastNoEOL
                                           else if cur' \<ge> n then False else finalNoEOL st1),
                            offset := i64 (matchStart - OldStart h),
                            reports := reports st1 @
                              [\<lparr>Index = idx, Outcome = outcome, FuzzUsed = peelUsed, At = matchStart\<rparr>]\<rparr>)))"

definition applyHunk :: "string list \<Rightarrow> bool \<Rightarrow> ApplyOptions \<Rightarrow> int \<Rightarrow> Hunk \<Rightarrow> ApplyState \<Rightarrow>
    ApplyState option" where
  "applyHunk oldLines oldNo opts idx h st =
     (case locateHunk oldLines h (i64 (OldStart h + offset st)) opts of
        None \<Rightarrow> None
      | Some (matchStart, peelUsed, outcome) \<Rightarrow>
          (case outcome of
             HunkFailed \<Rightarrow> applyFailed oldLines oldNo idx h matchStart st
           | HunkAlreadyApplied \<Rightarrow> applyAlready oldLines oldNo idx h matchStart st
           | _ \<Rightarrow> applyPlaced oldLines oldNo idx h matchStart peelUsed outcome st))"

fun applyHunks :: "string list \<Rightarrow> bool \<Rightarrow> ApplyOptions \<Rightarrow> int \<Rightarrow> Hunk list \<Rightarrow> ApplyState \<Rightarrow>
    ApplyState option" where
  "applyHunks oldLines oldNo opts idx [] st = Some st"
| "applyHunks oldLines oldNo opts idx (h # hs) st =
     (case applyHunk oldLines oldNo opts idx h st of
        None \<Rightarrow> None
      | Some st' \<Rightarrow> applyHunks oldLines oldNo opts (idx + 1) hs st')"

definition orientHunks :: "ApplyOptions \<Rightarrow> Hunk list \<Rightarrow> Hunk list" where
  "orientHunks opts hs = map (\<lambda>h. if Reverse opts then reverseHunk h else h) hs"

definition initState :: "bool \<Rightarrow> ApplyState" where
  "initState oldNo = \<lparr>outLines = [], finalNoEOL = oldNo, cur = 0, offset = 0, reports = [], rejects = []\<rparr>"

definition Apply :: "string list \<Rightarrow> bool \<Rightarrow> Hunk list \<Rightarrow> ApplyOptions \<Rightarrow> Result option" where
  "Apply oldLines oldNo hunks opts =
     (case applyHunks oldLines oldNo opts 1 (orientHunks opts hunks) (initState oldNo) of
        None \<Rightarrow> None
      | Some st \<Rightarrow>
          map_option
            (\<lambda>st'. \<lparr>ResLines = outLines st', NoFinalNewline = finalNoEOL st',
                    Reports = reports st', Rejects = rejects st'\<rparr>)
            (appendVerbatim oldLines oldNo (cur st) (int (length oldLines)) st))"


section \<open>What placing the hunks means\<close>

text \<open>
  A hunk is well formed when its header counts are the numbers of lines of its two sides, as the
  unified and the normal notation guarantee.
\<close>

definition wfHunk :: "Hunk \<Rightarrow> bool" where
  "wfHunk h = (OldCount h = int (length (oldSeq (Lines h))) \<and>
               NewCount h = int (length (newSeq (Lines h))) \<and> fits (Lines h))"

text \<open>The new text of a region: its own lines for the context, the patch's lines for the additions.\<close>

fun replaceRegion :: "HunkLine list \<Rightarrow> string list \<Rightarrow> string list" where
  "replaceRegion [] rs = []"
| "replaceRegion (l # ls) rs =
     (case Kind l of
        LineContext \<Rightarrow> hd rs # replaceRegion ls (tl rs)
      | LineDelete \<Rightarrow> replaceRegion ls (tl rs)
      | LineAdd \<Rightarrow> Text l # replaceRegion ls rs)"

text \<open>The region agrees with the old side of the hunk, but for peeled edge lines.\<close>

definition regionMatches :: "bool \<Rightarrow> HunkLine list \<Rightarrow> string list \<Rightarrow> nat \<Rightarrow> nat \<Rightarrow> bool" where
  "regionMatches ws ls region p q =
     (list_all (\<lambda>l. Kind l = LineContext) (take p ls) \<and>
      list_all (\<lambda>l. Kind l = LineContext) (drop (length ls - q) ls) \<and>
      p + q \<le> length ls \<and> length region = length (oldSeq ls) \<and>
      list_all2 (sameLine ws) (take (length region - p - q) (drop p region))
        (oldSeq (take (length ls - q - p) (drop p ls))))"

text \<open>
  The abstract specification of \<open>Apply\<close>: the old file is cut into kept segments and one region
  per placed hunk, in the order of the hunks; the output has the regions replaced and nothing else
  changed. A rejected hunk changes nothing.
\<close>

inductive placed :: "ApplyOptions \<Rightarrow> (Hunk \<times> HunkOutcome) list \<Rightarrow> string list \<Rightarrow> string list \<Rightarrow> bool"
  for opts where
  placed_done: "placed opts [] rest rest"
| placed_failed: "placed opts evs old out \<Longrightarrow> placed opts ((h, HunkFailed) # evs) old out"
| placed_already:
    "list_all2 (sameLine (IgnoreWhitespace opts)) seg (newSeq (Lines h)) \<Longrightarrow> placed opts evs old out \<Longrightarrow>
     placed opts ((h, HunkAlreadyApplied) # evs) (pre @ seg @ old) (pre @ seg @ out)"
| placed_exact:
    "regionMatches (IgnoreWhitespace opts) (Lines h) region 0 0 \<Longrightarrow> placed opts evs old out \<Longrightarrow>
     placed opts ((h, HunkApplied) # evs) (pre @ region @ old)
       (pre @ replaceRegion (Lines h) region @ out)"
| placed_fuzzy:
    "regionMatches (IgnoreWhitespace opts) (Lines h) region p q \<Longrightarrow>
     int p \<le> Fuzz opts \<Longrightarrow> int q \<le> Fuzz opts \<Longrightarrow> placed opts evs old out \<Longrightarrow>
     placed opts ((h, HunkAppliedFuzzy) # evs) (pre @ region @ old)
       (pre @ replaceRegion (Lines h) region @ out)"

section \<open>The search finds the nearest match and stays in bounds\<close>

lemma matchAt_Some:
  assumes "0 \<le> pos" "nat pos + length want \<le> length target"
  shows "matchAt target want pos ws =
    Some (list_all2 (sameLine ws) (take (length want) (drop (nat pos) target)) want)"
  using assms
proof (induction want arbitrary: pos)
  case (Cons w want)
  then have lt: "nat pos < length target" by simp
  have suc: "nat (pos + 1) = Suc (nat pos)" using Cons.prems by simp
  have "drop (nat pos) target = target ! nat pos # drop (Suc (nat pos)) target"
    using lt by (rule Cons_nth_drop_Suc [symmetric])
  moreover have "index target pos = Some (target ! nat pos)"
    using lt Cons.prems by (simp add: index_def)
  ultimately show ?case using Cons.IH [of "pos + 1"] Cons.prems suc by auto
qed simp

lemma searchOrder_loop_bounds:
  assumes "c \<in> set (searchOrder_loop start lo hi d)" "lo \<le> start" "start \<le> hi" "0 \<le> d"
  shows "lo \<le> c \<and> c \<le> hi"
  using assms
proof (induction start lo hi d rule: searchOrder_loop.induct)
  case (1 start lo hi d)
  show ?case
  proof (cases "start - d \<ge> lo \<or> start + d \<le> hi")
    case True
    with "1.prems" have "c = start - d \<and> lo \<le> c \<or> c = start + d \<and> c \<le> hi \<or>
        c \<in> set (searchOrder_loop start lo hi (d + 1))"
      by (auto simp: searchOrder_loop.simps [of start lo hi d] split: if_splits)
    with "1.IH" True "1.prems" show ?thesis by auto
  next
    case False
    with "1.prems" show ?thesis by (simp add: searchOrder_loop.simps [of start lo hi d])
  qed
qed

lemma searchOrderWithin_bounds:
  "c \<in> set (searchOrderWithin start lo hi) \<Longrightarrow> lo \<le> start \<Longrightarrow> start \<le> hi \<Longrightarrow> lo \<le> c \<and> c \<le> hi"
  using searchOrder_loop_bounds [of c start lo hi 1] by (auto simp: searchOrderWithin_def)

lemma firstMatch_total:
  assumes "\<forall>c \<in> set cands. 0 \<le> c \<and> nat c + length want \<le> length target"
  shows "\<exists>r. firstMatch target want ws cands = Some r \<and>
    (\<forall>c. r = Some c \<longrightarrow> c \<in> set cands \<and>
       list_all2 (sameLine ws) (take (length want) (drop (nat c) target)) want)"
  using assms
proof (induction cands)
  case (Cons c cands)
  then show ?case by (auto simp: matchAt_Some split: bool.splits)
qed simp

lemma searchWithin_total:
  "\<exists>r. searchWithin target want hint lo hi ws = Some r \<and>
    (\<forall>c. r = Some c \<longrightarrow> 0 \<le> c \<and> lo \<le> c \<and> c \<le> hi \<and> nat c + length want \<le> length target \<and>
       list_all2 (sameLine ws) (take (length want) (drop (nat c) target)) want)"
proof -
  define mn mx where "mn = (if lo < 0 then 0 else lo)"
    and "mx = (if hi > int (length target) - int (length want)
               then int (length target) - int (length want) else hi)"
  show ?thesis
  proof (cases "mn \<le> mx")
    case False
    then show ?thesis by (auto simp: searchWithin_def Let_def mn_def mx_def)
  next
    case True
    define start where "start = clampInt hint mn mx"
    have b: "0 \<le> mn" "lo \<le> mn" "mx \<le> hi" "mx \<le> int (length target) - int (length want)"
      by (auto simp: mn_def mx_def)
    have st: "mn \<le> start" "start \<le> mx"
      using clampInt_bounds [OF True] by (auto simp: start_def)
    have eq: "searchWithin target want hint lo hi ws =
        (if want = [] then Some (Some start)
         else firstMatch target want ws (searchOrderWithin start mn mx))"
      using True by (auto simp: searchWithin_def Let_def mn_def mx_def start_def)
    have "\<forall>c \<in> set (searchOrderWithin start mn mx).
        0 \<le> c \<and> lo \<le> c \<and> c \<le> hi \<and> nat c + length want \<le> length target"
      using b searchOrderWithin_bounds [OF _ st] by fastforce
    then show ?thesis
      using firstMatch_total [of "searchOrderWithin start mn mx" want target ws] b st
      by (auto simp: eq) 
  qed
qed

text \<open>A match at the hinted place wins.\<close>

lemma searchWithin_hint:
  assumes "lo \<le> hint" "hint \<le> hi" "0 \<le> hint" "nat hint + length want \<le> length target"
    and "list_all2 (sameLine ws) (take (length want) (drop (nat hint) target)) want"
  shows "searchWithin target want hint lo hi ws = Some (Some hint)"
  using assms by (auto simp: searchWithin_def Let_def clampInt_def searchOrderWithin_def matchAt_Some)

lemma oldSeq_context: "list_all (\<lambda>l. Kind l = LineContext) ls \<Longrightarrow> length (oldSeq ls) = length ls"
  by (induction ls) auto

lemma edgeContextCounts_props:
  assumes "edgeContextCounts ls = (lead, trail)"
  shows "lead + trail \<le> length ls"
    and "p \<le> lead \<Longrightarrow> list_all (\<lambda>l. Kind l = LineContext) (take p ls)"
    and "q \<le> trail \<Longrightarrow> list_all (\<lambda>l. Kind l = LineContext) (drop (length ls - q) ls)"
proof -
  have le: "lead \<le> length ls"
    using assms length_takeWhile_le by (fastforce simp: edgeContextCounts_def Let_def)
  show "lead + trail \<le> length ls"
    using assms le by (auto simp: edgeContextCounts_def Let_def split: if_splits)
  show "list_all (\<lambda>l. Kind l = LineContext) (take p ls)" if "p \<le> lead"
    using that assms by (auto simp: edgeContextCounts_def Let_def intro!: list_all_take_takeWhile)
  show "list_all (\<lambda>l. Kind l = LineContext) (drop (length ls - q) ls)" if "q \<le> trail"
    using that assms le
    by (auto simp: edgeContextCounts_def Let_def intro!: list_all_drop_takeWhile_rev split: if_splits)
qed

lemma oldSeq_peel:
  assumes "list_all (\<lambda>l. Kind l = LineContext) (take p ls)"
    and "list_all (\<lambda>l. Kind l = LineContext) (drop (length ls - q) ls)"
    and "p + q \<le> length ls"
  shows "length (oldSeq (take (length ls - q - p) (drop p ls))) + p + q = length (oldSeq ls)"
proof -
  have "take (p + (length ls - q - p)) ls = take p ls @ take (length ls - q - p) (drop p ls)"
    by (rule take_add)
  then have "ls = take p ls @ take (length ls - q - p) (drop p ls) @ drop (length ls - q) ls"
    using assms(3) append_take_drop_id [of "length ls - q" ls] by simp
  then have "oldSeq ls = oldSeq (take p ls) @ oldSeq (take (length ls - q - p) (drop p ls)) @
      oldSeq (drop (length ls - q) ls)"
    using oldSeq_simps(3) by metis
  then show ?thesis using oldSeq_context [OF assms(1)] oldSeq_context [OF assms(2)] assms(3)
    by simp
qed

lemma fuzzRound_total:
  assumes wf: "wfHunk h" and small: "fits oldLines"
    and edge: "edgeContextCounts (Lines h) = (lead, trail)"
  shows "\<exists>r. fuzzRound oldLines h expected opts lead trail f = Some r \<and>
    (\<forall>pos. r = Some pos \<longrightarrow> 0 \<le> pos \<and> nat pos + length (oldSeq (Lines h)) \<le> length oldLines \<and>
      regionMatches (IgnoreWhitespace opts) (Lines h)
        (take (length (oldSeq (Lines h))) (drop (nat pos) oldLines)) (min f lead) (min f trail))"
proof -
  define p q where "p = min f lead" and "q = min f trail"
  define ls where "ls = Lines h"
  define core where "core = take (length ls - q - p) (drop p ls)"
  have ctx: "list_all (\<lambda>l. Kind l = LineContext) (take p ls)"
      "list_all (\<lambda>l. Kind l = LineContext) (drop (length ls - q) ls)" "p + q \<le> length ls"
    using edgeContextCounts_props [OF edge] by (auto simp: p_def q_def ls_def)
  have len: "length (oldSeq core) + p + q = length (oldSeq ls)"
    unfolding core_def by (rule oldSeq_peel [OF ctx])
  have hi: "i64 (int (length oldLines) - OldCount h + int p) =
      int (length oldLines) - int (length (oldSeq ls)) + int p"
    using wf small len length_oldSeq [of ls]
    by (intro i64_small [THEN trans]) (auto simp: wfHunk_def fits_def ls_def)
  obtain r where r: "searchWithin oldLines (oldSeq core) (i64 (expected + int p)) (int p)
      (int (length oldLines) - int (length (oldSeq ls)) + int p) (IgnoreWhitespace opts) = Some r"
    and found: "\<And>c. r = Some c \<Longrightarrow> 0 \<le> c \<and> int p \<le> c \<and>
      c \<le> int (length oldLines) - int (length (oldSeq ls)) + int p \<and>
      nat c + length (oldSeq core) \<le> length oldLines \<and>
      list_all2 (sameLine (IgnoreWhitespace opts))
        (take (length (oldSeq core)) (drop (nat c) oldLines)) (oldSeq core)"
    using searchWithin_total by meson
  have eq: "fuzzRound oldLines h expected opts lead trail f =
      Some (map_option (\<lambda>pos. pos - int p) r)"
    using r hi unfolding core_def p_def q_def ls_def by (simp add: fuzzRound_def Let_def)
  have "regionMatches (IgnoreWhitespace opts) ls
        (take (length (oldSeq ls)) (drop (nat (c - int p)) oldLines)) p q \<and>
      0 \<le> c - int p \<and> nat (c - int p) + length (oldSeq ls) \<le> length oldLines"
    if "r = Some c" for c
  proof -
    note f = found [OF that]
    have pos: "nat (c - int p) + p = nat c" using f by auto
    have "take (length (oldSeq ls) - p - q)
        (drop p (take (length (oldSeq ls)) (drop (nat (c - int p)) oldLines))) =
        take (length (oldSeq core)) (drop (nat c) oldLines)"
      using len pos by (simp add: drop_take add.commute flip: len)
    moreover have "nat (c - int p) + length (oldSeq ls) \<le> length oldLines"
      using f by auto
    ultimately show ?thesis
      using f ctx by (auto simp: regionMatches_def core_def)
  qed
  then show ?thesis using eq by (auto simp: p_def q_def ls_def)
qed

lemma fuzzLoop_total:
  assumes wf: "wfHunk h" and small: "fits oldLines"
    and edge: "edgeContextCounts (Lines h) = (lead, trail)"
  shows "\<exists>r. fuzzLoop oldLines h expected opts lead trail maxFuzz f = Some r \<and>
    (\<forall>pos u oc. r = Some (pos, u, oc) \<longrightarrow>
      0 \<le> pos \<and> nat pos + length (oldSeq (Lines h)) \<le> length oldLines \<and>
      (\<exists>g \<le> maxFuzz. u = int g \<and> oc = (if g > 0 then HunkAppliedFuzzy else HunkApplied) \<and>
        regionMatches (IgnoreWhitespace opts) (Lines h)
          (take (length (oldSeq (Lines h))) (drop (nat pos) oldLines)) (min g lead) (min g trail)))"
  using assms
proof (induction oldLines h expected opts lead trail maxFuzz f rule: fuzzLoop.induct)
  case (1 oldLines h expected opts lead trail maxFuzz f)
  show ?case
  proof (cases "f \<le> maxFuzz")
    case False
    then show ?thesis by (simp add: fuzzLoop.simps)
  next
    case True
    obtain r where r: "fuzzRound oldLines h expected opts lead trail f = Some r"
      and found: "\<And>pos. r = Some pos \<Longrightarrow> 0 \<le> pos \<and>
        nat pos + length (oldSeq (Lines h)) \<le> length oldLines \<and>
        regionMatches (IgnoreWhitespace opts) (Lines h)
          (take (length (oldSeq (Lines h))) (drop (nat pos) oldLines)) (min f lead) (min f trail)"
      using fuzzRound_total [OF "1.prems"] by meson
    show ?thesis
    proof (cases r)
      case None
      with r True "1.IH" [OF True r None] "1.prems" show ?thesis
        by (cases "min f lead = lead \<and> min f trail = trail \<and> f < maxFuzz")
          (simp_all add: fuzzLoop.simps [of _ _ _ _ _ _ _ f])
    next
      case (Some pos)
      with r True found show ?thesis
        by (auto simp: fuzzLoop.simps [of _ _ _ _ _ _ _ f] intro!: exI [of _ f])
    qed
  qed
qed

lemma locateHunk_total:
  assumes wf: "wfHunk h" and small: "fits oldLines"
  shows "\<exists>pos u oc. locateHunk oldLines h expected opts = Some (pos, u, oc) \<and>
    0 \<le> pos \<and> pos \<le> int (length oldLines) \<and>
    (oc = HunkApplied \<longrightarrow> u = 0 \<and> nat pos + length (oldSeq (Lines h)) \<le> length oldLines \<and>
      regionMatches (IgnoreWhitespace opts) (Lines h)
        (take (length (oldSeq (Lines h))) (drop (nat pos) oldLines)) 0 0) \<and>
    (oc = HunkAppliedFuzzy \<longrightarrow> u > 0 \<and> nat pos + length (oldSeq (Lines h)) \<le> length oldLines \<and>
      (\<exists>p q. int p \<le> Fuzz opts \<and> int q \<le> Fuzz opts \<and>
        regionMatches (IgnoreWhitespace opts) (Lines h)
          (take (length (oldSeq (Lines h))) (drop (nat pos) oldLines)) p q)) \<and>
    (oc = HunkAlreadyApplied \<longrightarrow> nat pos + length (newSeq (Lines h)) \<le> length oldLines \<and>
      list_all2 (sameLine (IgnoreWhitespace opts))
        (take (length (newSeq (Lines h))) (drop (nat pos) oldLines)) (newSeq (Lines h)))"
proof -
  obtain lead trail where edge: "edgeContextCounts (Lines h) = (lead, trail)" by fastforce
  define mf where "mf = nat (max (Fuzz opts) 0)"
  obtain r where r: "fuzzLoop oldLines h expected opts lead trail mf 0 = Some r"
    and found: "\<And>pos u oc. r = Some (pos, u, oc) \<Longrightarrow>
      0 \<le> pos \<and> nat pos + length (oldSeq (Lines h)) \<le> length oldLines \<and>
      (\<exists>g \<le> mf. u = int g \<and> oc = (if g > 0 then HunkAppliedFuzzy else HunkApplied) \<and>
        regionMatches (IgnoreWhitespace opts) (Lines h)
          (take (length (oldSeq (Lines h))) (drop (nat pos) oldLines)) (min g lead) (min g trail))"
    using fuzzLoop_total [OF wf small edge] by meson
  obtain r' where r': "search oldLines (newSeq (Lines h)) expected (IgnoreWhitespace opts) = Some r'"
    and already: "\<And>c. r' = Some c \<Longrightarrow> 0 \<le> c \<and>
      nat c + length (newSeq (Lines h)) \<le> length oldLines \<and>
      list_all2 (sameLine (IgnoreWhitespace opts))
        (take (length (newSeq (Lines h))) (drop (nat c) oldLines)) (newSeq (Lines h))"
    unfolding search_def using searchWithin_total by meson
  have loc: "locateHunk oldLines h expected opts = Some (case r of Some x \<Rightarrow> x | None \<Rightarrow>
      (case (if Force opts \<or> newSeq (Lines h) = [] then None else r') of
         Some pos \<Rightarrow> (pos, 0, HunkAlreadyApplied)
       | None \<Rightarrow> (clampInt expected 0 (int (length oldLines)), 0, HunkFailed)))"
    using r r' by (auto simp: locateHunk_def Let_def edge mf_def split: option.splits)
  show ?thesis
  proof (cases r)
    case (Some x)
    obtain pos u oc where x: "x = (pos, u, oc)" by (cases x)
    from found [OF Some [unfolded x]] obtain g where g: "g \<le> mf" "u = int g"
        "oc = (if g > 0 then HunkAppliedFuzzy else HunkApplied)"
        "0 \<le> pos" "nat pos + length (oldSeq (Lines h)) \<le> length oldLines"
        "regionMatches (IgnoreWhitespace opts) (Lines h)
          (take (length (oldSeq (Lines h))) (drop (nat pos) oldLines)) (min g lead) (min g trail)"
      by blast
    have "int (min g lead) \<le> Fuzz opts \<and> int (min g trail) \<le> Fuzz opts" if "0 < g"
      using that g(1) by (auto simp: mf_def)
    with g show ?thesis using loc Some x by (auto split: if_splits)
  next
    case None
    show ?thesis
    proof (cases "if Force opts \<or> newSeq (Lines h) = [] then None else r'")
      case None
      then show ?thesis using loc \<open>r = None\<close> clampInt_bounds [of 0 "int (length oldLines)" expected]
        by simp
    next
      case (Some pos)
      then have "r' = Some pos" by (auto split: if_splits)
      from already [OF this] show ?thesis using loc \<open>r = None\<close> Some by auto
    qed
  qed
qed

lemma locateHunk_expected:
  assumes wf: "wfHunk h" and small: "fits oldLines"
    and at: "0 \<le> expected" "nat expected + length (oldSeq (Lines h)) \<le> length oldLines"
    and region: "take (length (oldSeq (Lines h))) (drop (nat expected) oldLines) = oldSeq (Lines h)"
  shows "locateHunk oldLines h expected opts = Some (expected, 0, HunkApplied)"
proof -
  obtain lead trail where edge: "edgeContextCounts (Lines h) = (lead, trail)" by fastforce
  have hi: "i64 (int (length oldLines) - OldCount h) = int (length oldLines) - OldCount h"
    using wf small length_oldSeq [of "Lines h"]
    by (intro i64_small) (auto simp: wfHunk_def fits_def)
  have ex: "i64 expected = expected"
    using small at by (intro i64_small) (auto simp: fits_def)
  have "list_all2 (sameLine (IgnoreWhitespace opts)) (oldSeq (Lines h)) (oldSeq (Lines h))"
    by (rule list_all2_refl) (simp add: sameLine_def)
  then have "fuzzRound oldLines h expected opts lead trail 0 = Some (Some expected)"
    using wf at by (simp add: fuzzRound_def Let_def hi ex, subst searchWithin_hint)
      (auto simp: region wfHunk_def)
  then show ?thesis by (simp add: locateHunk_def edge fuzzLoop.simps)
qed

section \<open>\<open>Apply\<close> implements its specification\<close>

lemma appendVerbatim_eq:
  "0 \<le> lo \<Longrightarrow> hi \<le> int (length oldLines) \<Longrightarrow>
   appendVerbatim oldLines oldNo lo hi st =
     Some (st\<lparr>outLines := outLines st @ take (nat hi - nat lo) (drop (nat lo) oldLines),
              finalNoEOL := (if hi \<le> lo then finalNoEOL st
                             else oldNo \<and> hi = int (length oldLines))\<rparr>)"
  by (auto simp: appendVerbatim_def goSlice_def)

definition lastFlag :: "HunkLine list \<Rightarrow> bool \<Rightarrow> bool" where
  "lastFlag ls e = (let ks = filter (\<lambda>l. Kind l \<noteq> LineDelete) ls
                    in if ks = [] then e else NoEOL (last ks))"

lemma buildReplacement_loop_eq:
  "0 \<le> ti \<Longrightarrow> nat ti + length (oldSeq ls) \<le> length oldLines \<Longrightarrow>
   buildReplacement_loop oldLines ti ls repl e s =
     Some (repl @ replaceRegion ls (drop (nat ti) oldLines), lastFlag ls e, s \<or> newSeq ls \<noteq> [])"
proof (induction ls arbitrary: ti repl e s)
  case Nil
  then show ?case by (simp add: lastFlag_def)
next
  case (Cons l ls)
  have suc: "nat (ti + 1) = Suc (nat ti)" using Cons.prems by simp
  show ?case
  proof (cases "Kind l")
    case LineContext
    with Cons.prems have "nat ti < length oldLines" by simp
    then show ?thesis
      using LineContext Cons.prems Cons.IH [of "ti + 1"] suc
      by (simp add: index_def hd_drop_conv_nth tl_drop drop_Suc lastFlag_def Let_def)
  next
    case LineDelete
    then show ?thesis
      using Cons.prems Cons.IH [of "ti + 1"] suc by (simp add: tl_drop drop_Suc lastFlag_def Let_def)
  next
    case LineAdd
    then show ?thesis using Cons.prems Cons.IH [of ti] by (simp add: lastFlag_def Let_def)
  qed
qed

lemma replaceRegion_take:
  "length (oldSeq ls) \<le> k \<Longrightarrow> replaceRegion ls (take k rs) = replaceRegion ls rs"
proof (induction ls arbitrary: k rs)
  case (Cons l ls)
  show ?case
  proof (cases "Kind l = LineAdd")
    case True
    with Cons show ?thesis by simp
  next
    case False
    with Cons.prems obtain k' where "k = Suc k'" "length (oldSeq ls) \<le> k'"
      by (cases k) auto
    with Cons.IH False show ?thesis by (cases "Kind l"; cases rs) auto
  qed
qed simp

lemma placed_prefix:
  "placed opts evs old out \<Longrightarrow> placed opts evs (pre @ old) (pre @ out)"
proof (induction arbitrary: pre rule: placed.induct)
  case (placed_already seg h evs old out pre0)
  then show ?case using placed.placed_already [of opts seg h evs old out "pre @ pre0"] by simp
next
  case (placed_exact h region evs old out pre0)
  then show ?case using placed.placed_exact [of opts h region evs old out "pre @ pre0"] by simp
next
  case (placed_fuzzy h region p q evs old out pre0)
  then show ?case using placed.placed_fuzzy [of opts h region p q evs old out "pre @ pre0"] by simp
qed (auto intro: placed.intros)

lemma drop_split:
  "i \<le> j \<Longrightarrow> drop i xs = take (j - i) (drop i xs) @ drop j xs"
  using append_take_drop_id [of "j - i" "drop i xs"] by simp

text \<open>What one hunk does to the state, whatever its outcome.\<close>

definition stepOK :: "string list \<Rightarrow> ApplyOptions \<Rightarrow> Hunk \<Rightarrow> ApplyState \<Rightarrow> ApplyState \<Rightarrow> bool" where
  "stepOK oldLines opts h st st' =
     (cur st \<le> cur st' \<and> cur st' \<le> int (length oldLines) \<and>
      (\<exists>seg rep. outLines st' = outLines st @ seg \<and> reports st' = reports st @ [rep] \<and>
         rejects st' = rejects st @ (if Outcome rep = HunkFailed then [h] else []) \<and>
         (\<forall>evs out. placed opts evs (drop (nat (cur st')) oldLines) out \<longrightarrow>
            placed opts ((h, Outcome rep) # evs) (drop (nat (cur st)) oldLines) (seg @ out))))"

lemma applyFailed_step:
  assumes "wfHunk h" "fits oldLines" "0 \<le> cur st" "cur st \<le> int (length oldLines)"
    "0 \<le> m" "m \<le> int (length oldLines)"
  shows "\<exists>st'. applyFailed oldLines oldNo idx h m st = Some st' \<and> stepOK oldLines opts h st st'"
proof -
  have i: "i64 (m + OldCount h) = m + int (length (oldSeq (Lines h)))"
    using assms length_oldSeq [of "Lines h"]
    by (intro i64_small [THEN trans]) (auto simp: wfHunk_def fits_def)
  define ms where "ms = (if m < cur st then cur st else m)"
  define e where "e = (if m < cur st then cur st
      else min (i64 (m + OldCount h)) (int (length oldLines)))"
  have b: "cur st \<le> ms" "ms \<le> e" "e \<le> int (length oldLines)"
    using assms by (auto simp: ms_def e_def i)
  obtain fe where eq: "applyFailed oldLines oldNo idx h m st =
      Some (rejectHunk idx h (st\<lparr>outLines := outLines st @
        take (nat ms - nat (cur st)) (drop (nat (cur st)) oldLines) @
        take (nat e - nat ms) (drop (nat ms) oldLines), finalNoEOL := fe, cur := e\<rparr>))"
    using assms b unfolding applyFailed_def Let_def ms_def [symmetric] e_def [symmetric]
    by (auto simp: appendVerbatim_eq rejectHunk_def)
  have "placed opts ((h, HunkFailed) # evs) (drop (nat (cur st)) oldLines)
      ((take (nat ms - nat (cur st)) (drop (nat (cur st)) oldLines) @
        take (nat e - nat ms) (drop (nat ms) oldLines)) @ out)"
    if "placed opts evs (drop (nat e) oldLines) out" for evs out
  proof -
    have "drop (nat (cur st)) oldLines =
        (take (nat ms - nat (cur st)) (drop (nat (cur st)) oldLines) @
         take (nat e - nat ms) (drop (nat ms) oldLines)) @ drop (nat e) oldLines"
      using b assms drop_split [of "nat (cur st)" "nat ms" oldLines] drop_split [of "nat ms" "nat e" oldLines]
      by simp
    then show ?thesis using placed_prefix [OF placed_failed [OF that]] by metis
  qed
  then show ?thesis using b by (auto simp: eq stepOK_def rejectHunk_def failedReport_def)
qed

lemma applyAlready_step:
  assumes "wfHunk h" "fits oldLines" "0 \<le> cur st" "cur st \<le> int (length oldLines)"
    "0 \<le> m" "nat m + length (newSeq (Lines h)) \<le> length oldLines"
    "list_all2 (sameLine (IgnoreWhitespace opts))
       (take (length (newSeq (Lines h))) (drop (nat m) oldLines)) (newSeq (Lines h))"
  shows "\<exists>st'. applyAlready oldLines oldNo idx h m st = Some st' \<and> stepOK oldLines opts h st st'"
proof (cases "m < cur st")
  case True
  then show ?thesis using assms
    by (auto simp: applyAlready_def Let_def stepOK_def rejectHunk_def failedReport_def
        intro: placed_failed)
next
  case False
  define e where "e = i64 (m + NewCount h)"
  have e: "e = m + int (length (newSeq (Lines h)))"
    unfolding e_def using assms length_newSeq [of "Lines h"]
    by (intro i64_small [THEN trans]) (auto simp: wfHunk_def fits_def)
  have in_range: "\<not> (e > int (length oldLines) \<or> m < cur st)" "m \<le> int (length oldLines)"
    using e assms False by auto
  obtain st' where eq: "applyAlready oldLines oldNo idx h m st = Some st'"
    and st': "outLines st' = outLines st @
        (take (nat m - nat (cur st)) (drop (nat (cur st)) oldLines) @
         take (nat e - nat m) (drop (nat m) oldLines))"
      "cur st' = e" "rejects st' = rejects st" "reports st' = reports st @
          [\<lparr>Index = idx, Outcome = HunkAlreadyApplied, FuzzUsed = 0, At = m\<rparr>]"
    using in_range assms(3,5) unfolding applyAlready_def Let_def e_def [symmetric]
    by (auto simp: appendVerbatim_eq)
  have len: "nat e - nat m = length (newSeq (Lines h))" using e assms by simp
  have "placed opts ((h, HunkAlreadyApplied) # evs) (drop (nat (cur st)) oldLines)
      ((take (nat m - nat (cur st)) (drop (nat (cur st)) oldLines) @
        take (nat e - nat m) (drop (nat m) oldLines)) @ out)"
    if "placed opts evs (drop (nat e) oldLines) out" for evs out
  proof -
    have "drop (nat (cur st)) oldLines =
        take (nat m - nat (cur st)) (drop (nat (cur st)) oldLines) @
         take (nat e - nat m) (drop (nat m) oldLines) @ drop (nat e) oldLines"
      using False e assms drop_split [of "nat (cur st)" "nat m" oldLines] drop_split [of "nat m" "nat e" oldLines]
      by simp
    then show ?thesis
      using placed_already [OF assms(7) that, of "take (nat m - nat (cur st)) (drop (nat (cur st)) oldLines)"]
      by (metis append.assoc len)
  qed
  then show ?thesis using in_range e st' by (auto simp: eq stepOK_def)
qed

lemma applyPlaced_step:
  assumes "wfHunk h" "fits oldLines" "0 \<le> cur st" "cur st \<le> int (length oldLines)"
    "0 \<le> m" "nat m + length (oldSeq (Lines h)) \<le> length oldLines"
    and oc: "oc = HunkApplied \<and>
        regionMatches (IgnoreWhitespace opts) (Lines h)
          (take (length (oldSeq (Lines h))) (drop (nat m) oldLines)) 0 0 \<or>
      oc = HunkAppliedFuzzy \<and> (\<exists>p q. int p \<le> Fuzz opts \<and> int q \<le> Fuzz opts \<and>
        regionMatches (IgnoreWhitespace opts) (Lines h)
          (take (length (oldSeq (Lines h))) (drop (nat m) oldLines)) p q)"
  shows "\<exists>st'. applyPlaced oldLines oldNo idx h m u oc st = Some st' \<and> stepOK oldLines opts h st st'"
proof -
  define e where "e = i64 (m + OldCount h)"
  have e: "e = m + int (length (oldSeq (Lines h)))"
    unfolding e_def using assms(1-6) length_oldSeq [of "Lines h"]
    by (intro i64_small [THEN trans]) (auto simp: wfHunk_def fits_def)
  show ?thesis
  proof (cases "m < cur st")
    case True
    define stop where "stop = max (min e (int (length oldLines))) (cur st)"
    obtain fe where eq: "applyPlaced oldLines oldNo idx h m u oc st =
        Some (rejectHunk idx h (st\<lparr>outLines := outLines st @
          take (nat stop - nat (cur st)) (drop (nat (cur st)) oldLines),
          finalNoEOL := fe, cur := stop\<rparr>))"
      using assms(1-6) True unfolding applyPlaced_def Let_def e_def [symmetric] stop_def [symmetric]
      by (auto simp: appendVerbatim_eq rejectHunk_def stop_def)
    have "placed opts ((h, HunkFailed) # evs) (drop (nat (cur st)) oldLines)
        (take (nat stop - nat (cur st)) (drop (nat (cur st)) oldLines) @ out)"
      if "placed opts evs (drop (nat stop) oldLines) out" for evs out
      using placed_prefix [OF placed_failed [OF that]] drop_split [of "nat (cur st)" "nat stop" oldLines]
        assms(3) by (metis max.cobounded2 nat_mono stop_def)
    then show ?thesis using assms(4) by (auto simp: eq stepOK_def rejectHunk_def failedReport_def stop_def)
  next
    case False
    define region where "region = take (length (oldSeq (Lines h))) (drop (nat m) oldLines)"
    define pre where "pre = take (nat m - nat (cur st)) (drop (nat (cur st)) oldLines)"
    define seg where "seg = pre @ replaceRegion (Lines h) region"
    obtain st' where eq: "applyPlaced oldLines oldNo idx h m u oc st = Some st'"
      and st': "outLines st' = outLines st @ seg" "cur st' = e" "rejects st' = rejects st"
        "reports st' = reports st @ [\<lparr>Index = idx, Outcome = oc, FuzzUsed = u, At = m\<rparr>]"
      using assms(1-6) False unfolding applyPlaced_def Let_def e_def [symmetric] buildReplacement_def
      by (auto simp: appendVerbatim_eq buildReplacement_loop_eq replaceRegion_take seg_def
          region_def pre_def)
    have split: "drop (nat (cur st)) oldLines = pre @ region @ drop (nat e) oldLines"
    proof -
      have len: "nat e - nat m = length (oldSeq (Lines h))" "nat (cur st) \<le> nat m" "nat m \<le> nat e"
        using False e assms(3,5,6) by auto
      show ?thesis
        using drop_split [OF len(2), of oldLines] drop_split [OF len(3), of oldLines]
        unfolding len(1) region_def pre_def by simp
    qed
    have "placed opts ((h, oc) # evs) (drop (nat (cur st)) oldLines) (seg @ out)"
      if "placed opts evs (drop (nat e) oldLines) out" for evs out
      using oc that unfolding split seg_def append.assoc region_def [symmetric]
      by (auto intro: placed_exact placed_fuzzy)
    moreover have "oc \<noteq> HunkFailed" using oc by auto
    ultimately show ?thesis using e assms(3-6) False st' by (auto simp: eq stepOK_def)
  qed
qed

lemma applyHunk_step:
  assumes "wfHunk h" "fits oldLines" "0 \<le> cur st" "cur st \<le> int (length oldLines)"
  shows "\<exists>st'. applyHunk oldLines oldNo opts idx h st = Some st' \<and> stepOK oldLines opts h st st'"
proof -
  obtain m u oc where loc: "locateHunk oldLines h (i64 (OldStart h + offset st)) opts = Some (m, u, oc)"
    and at: "0 \<le> m" "m \<le> int (length oldLines)"
    and outcomes: "(oc = HunkApplied \<longrightarrow> nat m + length (oldSeq (Lines h)) \<le> length oldLines \<and>
      regionMatches (IgnoreWhitespace opts) (Lines h)
        (take (length (oldSeq (Lines h))) (drop (nat m) oldLines)) 0 0)"
    "(oc = HunkAppliedFuzzy \<longrightarrow> nat m + length (oldSeq (Lines h)) \<le> length oldLines \<and>
      (\<exists>p q. int p \<le> Fuzz opts \<and> int q \<le> Fuzz opts \<and>
        regionMatches (IgnoreWhitespace opts) (Lines h)
          (take (length (oldSeq (Lines h))) (drop (nat m) oldLines)) p q))"
    "(oc = HunkAlreadyApplied \<longrightarrow> nat m + length (newSeq (Lines h)) \<le> length oldLines \<and>
      list_all2 (sameLine (IgnoreWhitespace opts))
        (take (length (newSeq (Lines h))) (drop (nat m) oldLines)) (newSeq (Lines h)))"
    using locateHunk_total [OF assms(1,2), of "i64 (OldStart h + offset st)" opts] by blast
  show ?thesis
  proof (cases oc)
    case HunkApplied
    then show ?thesis using applyPlaced_step [OF assms at(1), of oc opts oldNo idx u] loc outcomes(1)
      by (simp add: applyHunk_def)
  next
    case HunkAppliedFuzzy
    then show ?thesis using applyPlaced_step [OF assms at(1), of oc opts oldNo idx u] loc outcomes(2)
      by (simp add: applyHunk_def)
  next
    case HunkAlreadyApplied
    then show ?thesis using applyAlready_step [OF assms at(1), of opts oldNo idx] loc outcomes(3)
      by (simp add: applyHunk_def)
  next
    case HunkFailed
    then show ?thesis using applyFailed_step [OF assms at] loc by (simp add: applyHunk_def)
  qed
qed

lemma applyHunks_steps:
  assumes "list_all wfHunk hs" "fits oldLines" "0 \<le> cur st" "cur st \<le> int (length oldLines)"
  shows "\<exists>st' seg reps. applyHunks oldLines oldNo opts idx hs st = Some st' \<and>
    cur st \<le> cur st' \<and> cur st' \<le> int (length oldLines) \<and>
    outLines st' = outLines st @ seg \<and> reports st' = reports st @ reps \<and> length reps = length hs \<and>
    rejects st' = rejects st @ map fst (filter (\<lambda>(h, r). Outcome r = HunkFailed) (zip hs reps)) \<and>
    placed opts (zip hs (map Outcome reps)) (drop (nat (cur st)) oldLines)
      (seg @ drop (nat (cur st')) oldLines)"
  using assms
proof (induction hs arbitrary: st idx)
  case Nil
  then show ?case by (auto intro: placed_done)
next
  case (Cons h hs)
  then obtain st1 where st1: "applyHunk oldLines oldNo opts idx h st = Some st1"
      "stepOK oldLines opts h st st1"
    using applyHunk_step [of h oldLines st oldNo opts idx] by auto
  from st1(2) obtain seg1 rep where s1: "cur st \<le> cur st1" "cur st1 \<le> int (length oldLines)"
      "outLines st1 = outLines st @ seg1" "reports st1 = reports st @ [rep]"
      "rejects st1 = rejects st @ (if Outcome rep = HunkFailed then [h] else [])"
    and pl: "\<And>evs out. placed opts evs (drop (nat (cur st1)) oldLines) out \<Longrightarrow>
            placed opts ((h, Outcome rep) # evs) (drop (nat (cur st)) oldLines) (seg1 @ out)"
    unfolding stepOK_def by blast
  obtain st' seg reps where r: "applyHunks oldLines oldNo opts (idx + 1) hs st1 = Some st'"
    "cur st1 \<le> cur st'" "cur st' \<le> int (length oldLines)"
    "outLines st' = outLines st1 @ seg" "reports st' = reports st1 @ reps" "length reps = length hs"
    "rejects st' = rejects st1 @ map fst (filter (\<lambda>(h, r). Outcome r = HunkFailed) (zip hs reps))"
    "placed opts (zip hs (map Outcome reps)) (drop (nat (cur st1)) oldLines)
      (seg @ drop (nat (cur st')) oldLines)"
    using Cons.IH [of st1 "idx + 1"] Cons.prems s1 by auto
  show ?case
    by (rule exI [of _ st'], rule exI [of _ "seg1 @ seg"], rule exI [of _ "rep # reps"])
      (use st1 s1 r pl [OF r(8)] in auto)
qed

lemma wfHunk_reverse [simp]: "wfHunk (reverseHunk h) = wfHunk h"
  by (auto simp: wfHunk_def fits_def)

lemma wfHunk_orient: "list_all wfHunk hs \<Longrightarrow> list_all wfHunk (orientHunks opts hs)"
  by (auto simp: orientHunks_def list_all_iff)

text \<open>
  C11: On hunks whose header counts agree with their bodies, for every file and every
  combination of options, \<open>Apply\<close> returns (no index or slice is out of range), with one report
  per hunk; the lines it returns are the old lines with the regions of the placed hunks
  replaced, each region agreeing with the old side of its hunk but for at most \<open>Fuzz\<close> edge lines,
  and the rejects are the hunks reported as failed, in order.
\<close>

theorem Apply_places_hunks:
  assumes "list_all wfHunk hs" and "fits oldLines"
  shows "\<exists>r. Apply oldLines oldNo hs opts = Some r \<and>
    length (Reports r) = length hs \<and>
    placed opts (zip (orientHunks opts hs) (map Outcome (Reports r))) oldLines (ResLines r) \<and>
    Rejects r = map fst (filter (\<lambda>(h, rep). Outcome rep = HunkFailed)
                  (zip (orientHunks opts hs) (Reports r)))"
proof -
  obtain st seg reps where st: "applyHunks oldLines oldNo opts 1 (orientHunks opts hs) (initState oldNo) = Some st"
    "0 \<le> cur st" "cur st \<le> int (length oldLines)" "outLines st = seg" "reports st = reps"
    "length reps = length (orientHunks opts hs)"
    "rejects st = map fst (filter (\<lambda>(h, r). Outcome r = HunkFailed) (zip (orientHunks opts hs) reps))"
    "placed opts (zip (orientHunks opts hs) (map Outcome reps)) oldLines
      (seg @ drop (nat (cur st)) oldLines)"
    using applyHunks_steps [OF wfHunk_orient [OF assms(1), of opts] assms(2),
        of "initState oldNo" oldNo opts 1]
    by (auto simp: initState_def)
  have "length (orientHunks opts hs) = length hs" by (simp add: orientHunks_def)
  then show ?thesis using st by (simp add: Apply_def appendVerbatim_eq)
qed

section \<open>Applying hunks that fit\<close>

text \<open>
  The hunks describe exactly the way from the old lines to the new: every header names the
  place its body has in both files. \<open>rest\<close> is the common tail after the last hunk.
\<close>

inductive fitHunks :: "nat \<Rightarrow> nat \<Rightarrow> string list \<Rightarrow> Hunk list \<Rightarrow> string list \<Rightarrow> string list \<Rightarrow> bool" where
  fit_done: "fitHunks i j rest [] rest rest"
| fit_hunk:
    "OldStart h = int (i + length pre) \<Longrightarrow> NewStart h = int (j + length pre) \<Longrightarrow> wfHunk h \<Longrightarrow>
     fitHunks (i + length pre + length (oldSeq (Lines h))) (j + length pre + length (newSeq (Lines h)))
       old hs new rest \<Longrightarrow>
     fitHunks i j (pre @ oldSeq (Lines h) @ old) (h # hs) (pre @ newSeq (Lines h) @ new) rest"

text \<open>Whether the result lacks its final newline.\<close>

definition finalEOL :: "bool \<Rightarrow> Hunk list \<Rightarrow> string list \<Rightarrow> bool" where
  "finalEOL oldNo hs rest =
     (if rest \<noteq> [] \<or> hs = [] then oldNo else lastFlag (Lines (last hs)) False)"

lemma fitHunks_reverse:
  "fitHunks i j old hs new rest \<Longrightarrow> fitHunks j i new (map reverseHunk hs) old rest"
proof (induction rule: fitHunks.induct)
  case (fit_hunk h i pre j old hs new rest)
  then show ?case using fitHunks.fit_hunk [of "reverseHunk h" j pre i new "map reverseHunk hs" old rest]
    by simp
qed (auto intro: fit_done)

lemma fitHunks_wf: "fitHunks i j old hs new rest \<Longrightarrow> list_all wfHunk hs"
  by (induction rule: fitHunks.induct) auto

lemma replaceRegion_exact: "replaceRegion ls (oldSeq ls @ rs) = newSeq ls"
proof (induction ls)
  case (Cons l ls)
  then show ?case by (cases "Kind l") auto
qed simp

lemma lastFlag_False: "newSeq ls \<noteq> [] \<Longrightarrow> lastFlag ls e = lastFlag ls False"
  by (auto simp: lastFlag_def Let_def newSeq_def)

lemma lastFlag_Nil: "newSeq ls = [] \<Longrightarrow> lastFlag ls e = e"
  by (auto simp: lastFlag_def Let_def newSeq_def)

lemma applyHunk_fit:
  assumes small: "fits oldLines" and wf: "wfHunk h"
    and at: "OldStart h = int (i + length pre)" and off: "offset st = 0" and cur: "cur st = int i"
    and old: "drop i oldLines = pre @ oldSeq (Lines h) @ old" and i: "i \<le> length oldLines"
  shows "\<exists>st'. applyHunk oldLines oldNo opts idx h st = Some st' \<and>
    outLines st' = outLines st @ pre @ newSeq (Lines h) \<and> offset st' = 0 \<and>
    cur st' = int (i + length pre + length (oldSeq (Lines h))) \<and>
    reports st' = reports st @
      [\<lparr>Index = idx, Outcome = HunkApplied, FuzzUsed = 0, At = int (i + length pre)\<rparr>] \<and>
    rejects st' = rejects st \<and>
    (old = [] \<longrightarrow> finalNoEOL st' = lastFlag (Lines h) False)"
proof -
  define m where "m = i + length pre"
  have len: "m + length (oldSeq (Lines h)) + length old = length oldLines"
    using arg_cong [OF old, of length] i by (simp add: m_def)
  have dm: "drop m oldLines = oldSeq (Lines h) @ old"
    using arg_cong [OF old, of "drop (length pre)"] by (simp add: m_def add.commute)
  have tk: "take (m - i) (drop i oldLines) = pre" by (simp add: m_def old)
  have ex: "i64 (OldStart h + offset st) = int m"
    using at off len small by (simp add: m_def, intro i64_small) (auto simp: fits_def)
  have loc: "locateHunk oldLines h (i64 (OldStart h + offset st)) opts = Some (int m, 0, HunkApplied)"
    unfolding ex using wf small len dm by (intro locateHunk_expected) auto
  have e: "i64 (int m + OldCount h) = int (m + length (oldSeq (Lines h)))"
    using wf len small by (intro i64_small [THEN trans]) (auto simp: fits_def wfHunk_def)
  have br: "buildReplacement oldLines (int m) (Lines h) oldNo =
      Some (newSeq (Lines h), lastFlag (Lines h) oldNo, newSeq (Lines h) \<noteq> [])"
    unfolding buildReplacement_def
    using len by (subst buildReplacement_loop_eq) (auto simp: dm replaceRegion_exact)
  have at': "OldStart h = int m" using at by (simp add: m_def)
  have ge: "\<not> m < i" "cur st = int i" using cur by (simp_all add: m_def)
  have pre: "appendVerbatim oldLines oldNo (cur st) (int m) st =
      Some (st\<lparr>outLines := outLines st @ pre, finalNoEOL := (if m \<le> i then finalNoEOL st
         else oldNo \<and> m = length oldLines)\<rparr>)"
    using len tk by (simp add: appendVerbatim_eq ge)
  have "applyHunk oldLines oldNo opts idx h st =
      applyPlaced oldLines oldNo idx h (int m) 0 HunkApplied st"
    by (simp add: applyHunk_def loc)
  also have "\<dots> = Some (st\<lparr>outLines := outLines st @ pre @ newSeq (Lines h),
      finalNoEOL := (if m + length (oldSeq (Lines h)) = length oldLines \<and> newSeq (Lines h) \<noteq> []
         then lastFlag (Lines h) oldNo
         else if m + length (oldSeq (Lines h)) \<ge> length oldLines then False
         else if m \<le> i then finalNoEOL st else oldNo \<and> m = length oldLines),
      cur := int (m + length (oldSeq (Lines h))), offset := 0,
      reports := reports st @ [\<lparr>Index = idx, Outcome = HunkApplied, FuzzUsed = 0, At = int m\<rparr>]\<rparr>)"
    unfolding applyPlaced_def Let_def pre br e by (simp add: ge at' i64_0)
  finally show ?thesis
    using len lastFlag_False [of "Lines h" oldNo] lastFlag_Nil [of "Lines h" False]
    by (auto simp: m_def)
qed

lemma applyHunks_fit:
  assumes "fitHunks i j old hs new rest" "fits oldLines" "drop i oldLines = old" "i \<le> length oldLines"
    "offset st = 0" "cur st = int i"
  shows "\<exists>st' seg. applyHunks oldLines oldNo opts idx hs st = Some st' \<and>
    outLines st' = outLines st @ seg \<and> new = seg @ rest \<and>
    cur st' = int (length oldLines - length rest) \<and> length rest \<le> length oldLines \<and>
    drop (length oldLines - length rest) oldLines = rest \<and>
    length (reports st') = length (reports st) + length hs \<and>
    (list_all (\<lambda>rep. Outcome rep = HunkApplied) (reports st) \<longrightarrow>
       list_all (\<lambda>rep. Outcome rep = HunkApplied) (reports st')) \<and>
    rejects st' = rejects st \<and>
    (rest = [] \<longrightarrow> hs \<noteq> [] \<longrightarrow> finalNoEOL st' = lastFlag (Lines (last hs)) False) \<and>
    (hs = [] \<longrightarrow> st' = st)"
  using assms
proof (induction arbitrary: st idx rule: fitHunks.induct)
  case (fit_done i j rest)
  then show ?case by auto
next
  case (fit_hunk h i pre j old hs new rest)
  obtain st1 where st1: "applyHunk oldLines oldNo opts idx h st = Some st1"
    "outLines st1 = outLines st @ pre @ newSeq (Lines h)" "offset st1 = 0"
    "cur st1 = int (i + length pre + length (oldSeq (Lines h)))"
    "reports st1 = reports st @
      [\<lparr>Index = idx, Outcome = HunkApplied, FuzzUsed = 0, At = int (i + length pre)\<rparr>]"
    "rejects st1 = rejects st" "old = [] \<longrightarrow> finalNoEOL st1 = lastFlag (Lines h) False"
    using applyHunk_fit [OF fit_hunk.prems(1) fit_hunk.hyps(3,1) fit_hunk.prems(4,5,2,3)] by blast
  define k where "k = i + length pre + length (oldSeq (Lines h))"
  have dk: "drop k oldLines = old"
    using arg_cong [OF fit_hunk.prems(2), of "drop (length pre + length (oldSeq (Lines h)))"]
    by (simp add: k_def add.commute add.left_commute add.assoc)
  have kle: "k \<le> length oldLines"
    using arg_cong [OF fit_hunk.prems(2), of length] fit_hunk.prems(3) by (simp add: k_def)
  have old_rest: "hs = [] \<Longrightarrow> old = rest" using fit_hunk.hyps(4) by (auto elim: fitHunks.cases)
  from fit_hunk.IH [OF fit_hunk.prems(1), folded k_def, OF dk kle st1(3) st1(4) [folded k_def], of "idx + 1"]
  show ?case using st1 old_rest by auto
qed

text \<open>
  Hunks that fit the way from \<open>old\<close> to \<open>new\<close> turn \<open>old\<close> into \<open>new\<close>; every hunk is
  reported as applied at its place without fuzz, nothing is rejected, and the missing final
  newline is what the last hunk, or the untouched tail, says.
\<close>

theorem Apply_fit:
  assumes "fitHunks 0 0 old hs new rest" "fits old" "\<not> Reverse opts"
  shows "\<exists>r. Apply old oldNo hs opts = Some r \<and> ResLines r = new \<and> Rejects r = [] \<and>
    length (Reports r) = length hs \<and>
    list_all (\<lambda>rep. Outcome rep = HunkApplied) (Reports r) \<and>
    NoFinalNewline r = finalEOL oldNo hs rest"
proof -
  have or: "orientHunks opts hs = hs" using assms(3) by (simp add: orientHunks_def)
  obtain st seg where st: "applyHunks old oldNo opts 1 hs (initState oldNo) = Some st"
    "outLines st = seg" "new = seg @ rest" "cur st = int (length old - length rest)"
    "length rest \<le> length old" "drop (length old - length rest) old = rest"
    "length (reports st) = length hs" "list_all (\<lambda>rep. Outcome rep = HunkApplied) (reports st)"
    "rejects st = []" "rest = [] \<longrightarrow> hs \<noteq> [] \<longrightarrow> finalNoEOL st = lastFlag (Lines (last hs)) False"
    "hs = [] \<longrightarrow> finalNoEOL st = oldNo"
    using applyHunks_fit [OF assms(1,2), of "initState oldNo" oldNo opts 1]
    by (fastforce simp: initState_def)
  then show ?thesis
    by (cases "rest = []") (auto simp: Apply_def or appendVerbatim_eq finalEOL_def simp del: of_nat_diff)
qed

text \<open>The direction matters only for the orientation of the hunks.\<close>

lemma fuzzRound_Reverse [simp]:
  "fuzzRound oldLines h e (opts\<lparr>Reverse := b\<rparr>) = fuzzRound oldLines h e opts"
  by (intro ext) (simp add: fuzzRound_def)

lemma fuzzLoop_Reverse [simp]:
  "fuzzLoop oldLines h e (opts\<lparr>Reverse := b\<rparr>) lead trail mf f = fuzzLoop oldLines h e opts lead trail mf f"
proof (induction oldLines h e opts lead trail mf f rule: fuzzLoop.induct)
  case (1 oldLines h e opts lead trail mf f)
  then show ?case
    by (auto simp: fuzzLoop.simps [of _ _ _ _ _ _ _ f] split: option.splits)
qed

lemma locateHunk_Reverse [simp]:
  "locateHunk oldLines h e (opts\<lparr>Reverse := b\<rparr>) = locateHunk oldLines h e opts"
  by (auto simp: locateHunk_def Let_def split: prod.splits option.splits)

lemma applyHunk_Reverse [simp]:
  "applyHunk oldLines oldNo (opts\<lparr>Reverse := b\<rparr>) = applyHunk oldLines oldNo opts"
  by (intro ext) (simp add: applyHunk_def)

lemma applyHunks_Reverse [simp]:
  "applyHunks oldLines oldNo (opts\<lparr>Reverse := b\<rparr>) idx hs st = applyHunks oldLines oldNo opts idx hs st"
  by (induction hs arbitrary: idx st) (auto split: option.splits)

lemma Apply_oriented:
  "Reverse opts \<Longrightarrow> Apply ls no hs opts = Apply ls no (map reverseHunk hs) (opts\<lparr>Reverse := False\<rparr>)"
  by (simp add: Apply_def orientHunks_def)

lemma Apply_fit_back:
  assumes "fitHunks 0 0 old hs new rest" "fits new" "Reverse opts"
  shows "\<exists>r. Apply new newNo hs opts = Some r \<and> ResLines r = old \<and> Rejects r = [] \<and>
    length (Reports r) = length hs \<and>
    list_all (\<lambda>rep. Outcome rep = HunkApplied) (Reports r) \<and>
    NoFinalNewline r = finalEOL newNo (map reverseHunk hs) rest"
  using Apply_fit [OF fitHunks_reverse [OF assms(1)] assms(2), of "opts\<lparr>Reverse := False\<rparr>" newNo]
  by (simp add: Apply_oriented [OF assms(3)])

text \<open>C18: With \<open>-R\<close> the same hunks turn the new file back into the old one.\<close>

theorem Apply_fit_reverse:
  assumes "fitHunks 0 0 old hs new rest" "fits new" "Reverse opts"
  shows "\<exists>r. Apply new newNo hs opts = Some r \<and> ResLines r = old \<and> Rejects r = [] \<and>
    list_all (\<lambda>rep. Outcome rep = HunkApplied) (Reports r) \<and>
    NoFinalNewline r = finalEOL newNo (map reverseHunk hs) rest"
  using Apply_fit_back [OF assms] by blast

section \<open>A concrete patch\<close>

text \<open>One hunk that changes the second of three lines.\<close>

definition demoHunk :: Hunk where
  "demoHunk = \<lparr>OldStart = 0, OldCount = 3, NewStart = 0, NewCount = 3, Lines =
     [\<lparr>Kind = LineContext, Text = ''a'', NoEOL = False\<rparr>, \<lparr>Kind = LineDelete, Text = ''b'', NoEOL = False\<rparr>,
      \<lparr>Kind = LineAdd, Text = ''B'', NoEOL = False\<rparr>, \<lparr>Kind = LineContext, Text = ''c'', NoEOL = False\<rparr>]\<rparr>"

definition demoOpts :: "bool \<Rightarrow> ApplyOptions" where
  "demoOpts b = \<lparr>Reverse = b, Fuzz = 2, IgnoreWhitespace = False, Force = False\<rparr>"

lemma demo_wf: "list_all wfHunk [demoHunk]"
  by (simp add: wfHunk_def demoHunk_def fits_def)

lemma demo_fit: "fitHunks 0 0 [''a'', ''b'', ''c''] [demoHunk] [''a'', ''B'', ''c''] []"
  using fit_hunk [of demoHunk 0 "[]" 0 "[]" "[]" "[]" "[]"] fit_done [of _ _ "[]"] demo_wf
  by (simp add: demoHunk_def)

theorem Apply_places_hunks_witness:
  "\<exists>r. Apply [''x'', ''a'', ''b'', ''c''] False [demoHunk] (demoOpts False) = Some r \<and>
    length (Reports r) = 1"
  using Apply_places_hunks [OF demo_wf, of "[''x'', ''a'', ''b'', ''c'']" False "demoOpts False"]
  by (auto simp: fits_def)

theorem Apply_fit_reverse_witness:
  "\<exists>r. Apply [''a'', ''B'', ''c''] False [demoHunk] (demoOpts True) = Some r \<and>
    ResLines r = [''a'', ''b'', ''c'']"
  using Apply_fit_reverse [OF demo_fit, of "demoOpts True" False]
  by (auto simp: fits_def demoOpts_def)

end
