(* ===== verification/Patch_Ifdef.thy ===== *)
theory Patch_Ifdef
  imports Patch_Apply
begin

text \<open>
  \<open>pkg/patch/ifdef.go\<close>: \<open>patch -D NAME\<close>, which keeps both versions of every changed run under C
  preprocessor conditionals. The specification is the preprocessor itself: with \<open>NAME\<close> undefined
  the output reads as the old file, with \<open>NAME\<close> defined as the patched one.
\<close>

definition ifndefLine :: "string \<Rightarrow> string" where "ifndefLine define = ''#ifndef '' @ define"
definition ifdefLine :: "string \<Rightarrow> string" where "ifdefLine define = ''#ifdef '' @ define"
definition elseLine :: string where "elseLine = ''#else''"
definition endifLine :: "string \<Rightarrow> string" where "endifLine define = ''#endif /* '' @ define @ '' */''"

text \<open>The \<open>switch\<close> on the collected \<open>oldPart\<close> and \<open>newPart\<close>.\<close>

definition ifdefBlock :: "string \<Rightarrow> string list \<Rightarrow> string list \<Rightarrow> string list" where
  "ifdefBlock define oldPart newPart =
     (if oldPart \<noteq> [] \<and> newPart \<noteq> []
        then [ifndefLine define] @ oldPart @ [elseLine] @ newPart @ [endifLine define]
      else if oldPart \<noteq> [] then [ifndefLine define] @ oldPart @ [endifLine define]
      else if newPart \<noteq> [] then [ifdefLine define] @ newPart @ [endifLine define]
      else [])"

text \<open>
  The walk over the lines of one hunk. The run of changed lines in progress is carried in
  \<open>oldPart\<close> and \<open>newPart\<close> and written at the next context line or at the end of the hunk.
\<close>

fun ifdefBody :: "string \<Rightarrow> string list \<Rightarrow> int \<Rightarrow> HunkLine list \<Rightarrow> string list \<Rightarrow> string list \<Rightarrow>
    string list option" where
  "ifdefBody define oldLines ti [] oldPart newPart = Some (ifdefBlock define oldPart newPart)"
| "ifdefBody define oldLines ti (l # ls) oldPart newPart =
     (case Kind l of
        LineContext \<Rightarrow>
          (case index oldLines ti of
             None \<Rightarrow> None
           | Some t \<Rightarrow> map_option (\<lambda>rest. ifdefBlock define oldPart newPart @ t # rest)
                          (ifdefBody define oldLines (ti + 1) ls [] []))
      | LineDelete \<Rightarrow>
          (case index oldLines ti of
             None \<Rightarrow> None
           | Some t \<Rightarrow> ifdefBody define oldLines (ti + 1) ls (oldPart @ [t]) newPart)
      | LineAdd \<Rightarrow> ifdefBody define oldLines ti ls oldPart (newPart @ [Text l]))"

record IfdefState =
  ifOut :: "string list"
  ifCur :: int
  ifNoFinal :: bool
  ifReports :: "HunkReport list"
  ifRejects :: "Hunk list"

definition applyIfdefHunk :: "string \<Rightarrow> string list \<Rightarrow> ApplyOptions \<Rightarrow> int \<Rightarrow> Hunk \<Rightarrow> IfdefState \<Rightarrow>
    IfdefState option" where
  "applyIfdefHunk define oldLines opts idx h st =
     (case locateHunk oldLines h (OldStart h) opts of
        None \<Rightarrow> None
      | Some (at, fuzz, outcome) \<Rightarrow>
          if outcome = HunkFailed \<or> outcome = HunkAlreadyApplied \<or> at < ifCur st
          then Some (st\<lparr>ifReports := ifReports st @ [failedReport idx], ifRejects := ifRejects st @ [h]\<rparr>)
          else (case (goSlice oldLines (ifCur st) at, ifdefBody define oldLines at (Lines h) [] []) of
                  (Some kept, Some body) \<Rightarrow>
                    let cur' = i64 (at + OldCount h);
                        lastCtx = (Lines h \<noteq> [] \<and> Kind (last (Lines h)) = LineContext)
                    in Some (st\<lparr>ifOut := ifOut st @ kept @ body, ifCur := cur',
                         ifNoFinal := (if cur' = int (length oldLines)
                                       then lastCtx \<and> NoEOL (last (Lines h)) else ifNoFinal st),
                         ifReports := ifReports st @
                           [\<lparr>Index = idx, Outcome = (if fuzz > 0 then HunkAppliedFuzzy else HunkApplied),
                             FuzzUsed = fuzz, At = at\<rparr>]\<rparr>)
                | _ \<Rightarrow> None))"

fun applyIfdefHunks :: "string \<Rightarrow> string list \<Rightarrow> ApplyOptions \<Rightarrow> int \<Rightarrow> Hunk list \<Rightarrow> IfdefState \<Rightarrow>
    IfdefState option" where
  "applyIfdefHunks define oldLines opts idx [] st = Some st"
| "applyIfdefHunks define oldLines opts idx (h # hs) st =
     (case applyIfdefHunk define oldLines opts idx h st of
        None \<Rightarrow> None
      | Some st' \<Rightarrow> applyIfdefHunks define oldLines opts (idx + 1) hs st')"

definition ApplyIfdef :: "string list \<Rightarrow> bool \<Rightarrow> Hunk list \<Rightarrow> ApplyOptions \<Rightarrow> string \<Rightarrow> Result option" where
  "ApplyIfdef oldLines oldNo hunks opts define =
     (case applyIfdefHunks define oldLines opts 1 (orientHunks opts hunks)
             \<lparr>ifOut = [], ifCur = 0, ifNoFinal = oldNo, ifReports = [], ifRejects = []\<rparr> of
        None \<Rightarrow> None
      | Some st \<Rightarrow>
          (case goSlice oldLines (ifCur st) (int (length oldLines)) of
             None \<Rightarrow> None
           | Some rest \<Rightarrow>
               Some \<lparr>ResLines = ifOut st @ rest,
                     NoFinalNewline = (if ifCur st < int (length oldLines) then oldNo else ifNoFinal st),
                     Reports = ifReports st, Rejects = ifRejects st\<rparr>))"

section \<open>The preprocessor\<close>

text \<open>
  The lines a C compiler sees of a file whose only conditionals are those of \<open>NAME\<close>:
  \<open>CppTop\<close> outside a conditional, \<open>CppIn b\<close> inside one whose current branch is live when \<open>b\<close>.
\<close>

datatype cppState = CppTop | CppIn bool

definition isControl :: "string \<Rightarrow> string \<Rightarrow> bool" where
  "isControl define l = (l = ifndefLine define \<or> l = ifdefLine define \<or> l = elseLine \<or> l = endifLine define)"

fun cpp :: "string \<Rightarrow> bool \<Rightarrow> cppState \<Rightarrow> string list \<Rightarrow> string list" where
  "cpp define defined st [] = []"
| "cpp define defined CppTop (l # ls) =
     (if l = ifndefLine define then cpp define defined (CppIn (\<not> defined)) ls
      else if l = ifdefLine define then cpp define defined (CppIn defined) ls
      else l # cpp define defined CppTop ls)"
| "cpp define defined (CppIn live) (l # ls) =
     (if l = elseLine then cpp define defined (CppIn (\<not> live)) ls
      else if l = endifLine define then cpp define defined CppTop ls
      else if live then l # cpp define defined (CppIn live) ls
      else cpp define defined (CppIn live) ls)"

definition plainLines :: "string \<Rightarrow> string list \<Rightarrow> bool" where
  "plainLines define ls = list_all (\<lambda>l. \<not> isControl define l) ls"

section \<open>Both versions are recovered\<close>

lemma control_distinct:
  "ifndefLine d \<noteq> ifdefLine d'" "ifdefLine d \<noteq> ifndefLine d'" "elseLine \<noteq> endifLine d"
  "endifLine d \<noteq> elseLine"
  by (simp_all add: ifndefLine_def ifdefLine_def elseLine_def endifLine_def)

lemma cpp_plain_top:
  "plainLines d xs \<Longrightarrow> cpp d b CppTop (xs @ ys) = xs @ cpp d b CppTop ys"
  by (induction xs) (auto simp: plainLines_def isControl_def)

lemma cpp_plain_in:
  "plainLines d xs \<Longrightarrow> cpp d b (CppIn live) (xs @ ys) = (if live then xs else []) @ cpp d b (CppIn live) ys"
  by (induction xs) (auto simp: plainLines_def isControl_def)

lemma cpp_block:
  assumes "plainLines d op" "plainLines d np"
  shows "cpp d b CppTop (ifdefBlock d op np @ ys) = (if b then np else op) @ cpp d b CppTop ys"
  using assms by (simp add: ifdefBlock_def control_distinct cpp_plain_in)

lemma plainLines_simps [simp]:
  "plainLines d []" "plainLines d (x # xs) \<longleftrightarrow> \<not> isControl d x \<and> plainLines d xs"
  "plainLines d (xs @ ys) \<longleftrightarrow> plainLines d xs \<and> plainLines d ys"
  by (simp_all add: plainLines_def)

lemma plainLines_sub: "plainLines d xs \<Longrightarrow> set ys \<subseteq> set xs \<Longrightarrow> plainLines d ys"
  by (auto simp: plainLines_def list_all_iff)

lemma cpp_top_Cons: "\<not> isControl d x \<Longrightarrow> cpp d b CppTop (x # xs) = x # cpp d b CppTop xs"
  by (simp add: isControl_def)

lemma ifdefBody_cpp:
  assumes "0 \<le> ti" "nat ti + length (oldSeq ls) \<le> length oldLines"
    "plainLines d oldLines" "plainLines d (newSeq ls)" "plainLines d op" "plainLines d np"
  shows "\<exists>body. ifdefBody d oldLines ti ls op np = Some body \<and>
    (\<forall>ys. cpp d False CppTop (body @ ys) =
       op @ take (length (oldSeq ls)) (drop (nat ti) oldLines) @ cpp d False CppTop ys) \<and>
    (\<forall>ys. cpp d True CppTop (body @ ys) =
       np @ replaceRegion ls (drop (nat ti) oldLines) @ cpp d True CppTop ys)"
  using assms
proof (induction ls arbitrary: ti op np)
  case Nil
  then show ?case by (simp add: cpp_block)
next
  case (Cons l ls)
  have suc: "nat (ti + 1) = Suc (nat ti)" using Cons.prems by simp
  have lt: "nat ti < length oldLines" if "Kind l \<noteq> LineAdd" using Cons.prems(2) that by simp
  have ix: "index oldLines ti = Some (oldLines ! nat ti)" if "Kind l \<noteq> LineAdd"
    using lt [OF that] Cons.prems(1) by (simp add: index_def)
  have dr: "drop (nat ti) oldLines = oldLines ! nat ti # drop (Suc (nat ti)) oldLines" if "Kind l \<noteq> LineAdd"
    using lt [OF that] by (rule Cons_nth_drop_Suc [symmetric])
  have pl: "\<not> isControl d (oldLines ! nat ti)" if "Kind l \<noteq> LineAdd"
    using lt [OF that] Cons.prems(3) by (auto simp: plainLines_def list_all_iff)
  show ?case
  proof (cases "Kind l")
    case LineContext
    then show ?thesis
      using Cons.IH [of "ti + 1" "[]" "[]"] Cons.prems ix dr pl suc
      by (auto simp: cpp_block cpp_top_Cons simp del: cpp.simps)
  next
    case LineDelete
    then show ?thesis
      using Cons.IH [of "ti + 1" "op @ [oldLines ! nat ti]" np] Cons.prems ix dr pl suc by auto
  next
    case LineAdd
    then show ?thesis using Cons.IH [of ti op "np @ [Text l]"] Cons.prems by auto
  qed
qed

definition ifStepOK :: "string \<Rightarrow> string list \<Rightarrow> ApplyOptions \<Rightarrow> Hunk \<Rightarrow> IfdefState \<Rightarrow> IfdefState \<Rightarrow> bool" where
  "ifStepOK d oldLines opts h st st' =
     (ifCur st \<le> ifCur st' \<and> ifCur st' \<le> int (length oldLines) \<and>
      (\<exists>seg rep. ifOut st' = ifOut st @ seg \<and> ifReports st' = ifReports st @ [rep] \<and>
         (\<forall>ys. cpp d False CppTop (seg @ ys) =
            take (nat (ifCur st') - nat (ifCur st)) (drop (nat (ifCur st)) oldLines) @ cpp d False CppTop ys) \<and>
         (\<forall>evs ys. placed opts evs (drop (nat (ifCur st')) oldLines) (cpp d True CppTop ys) \<longrightarrow>
            placed opts ((h, Outcome rep) # evs) (drop (nat (ifCur st)) oldLines) (cpp d True CppTop (seg @ ys)))))"

lemma applyIfdefHunk_step:
  assumes "wfHunk h" "fits oldLines" "0 \<le> ifCur st" "ifCur st \<le> int (length oldLines)"
    "plainLines d oldLines" "plainLines d (newSeq (Lines h))"
  shows "\<exists>st'. applyIfdefHunk d oldLines opts idx h st = Some st' \<and> ifStepOK d oldLines opts h st st'"
proof -
  obtain m u oc where loc: "locateHunk oldLines h (OldStart h) opts = Some (m, u, oc)"
    and at: "0 \<le> m" "m \<le> int (length oldLines)"
    and exact: "oc = HunkApplied \<longrightarrow> u = 0 \<and> nat m + length (oldSeq (Lines h)) \<le> length oldLines \<and>
      regionMatches (IgnoreWhitespace opts) (Lines h)
        (take (length (oldSeq (Lines h))) (drop (nat m) oldLines)) 0 0"
    and fuzzy: "oc = HunkAppliedFuzzy \<longrightarrow> u > 0 \<and> nat m + length (oldSeq (Lines h)) \<le> length oldLines \<and>
      (\<exists>p q. int p \<le> Fuzz opts \<and> int q \<le> Fuzz opts \<and>
        regionMatches (IgnoreWhitespace opts) (Lines h)
          (take (length (oldSeq (Lines h))) (drop (nat m) oldLines)) p q)"
    using locateHunk_total [OF assms(1,2), of "OldStart h" opts] by blast
  show ?thesis
  proof (cases "oc = HunkFailed \<or> oc = HunkAlreadyApplied \<or> m < ifCur st")
    case True
    then show ?thesis using loc assms(4)
      by (auto simp: applyIfdefHunk_def ifStepOK_def failedReport_def intro: placed_failed)
  next
    case False
    define len where "len = length (oldSeq (Lines h))"
    define e where "e = i64 (m + OldCount h)"
    have oc: "oc = HunkApplied \<or> oc = HunkAppliedFuzzy" using False by (cases oc) auto
    then have fit: "nat m + len \<le> length oldLines" using exact fuzzy by (auto simp: len_def)
    have e: "e = m + int len"
      unfolding e_def using assms(1,2) fit at
      by (intro i64_small [THEN trans]) (auto simp: wfHunk_def fits_def len_def)
    define pre where "pre = take (nat m - nat (ifCur st)) (drop (nat (ifCur st)) oldLines)"
    have sl: "goSlice oldLines (ifCur st) m = Some pre"
      using False at assms(3) by (simp add: goSlice_def pre_def)
    obtain body where body: "ifdefBody d oldLines m (Lines h) [] [] = Some body"
      and cF: "\<And>ys. cpp d False CppTop (body @ ys) = take len (drop (nat m) oldLines) @ cpp d False CppTop ys"
      and cT: "\<And>ys. cpp d True CppTop (body @ ys) =
        replaceRegion (Lines h) (drop (nat m) oldLines) @ cpp d True CppTop ys"
      using ifdefBody_cpp [of m "Lines h" oldLines d "[]" "[]"] at fit assms(5,6) by (auto simp: len_def)
    obtain st' where st': "applyIfdefHunk d oldLines opts idx h st = Some st'"
      "ifOut st' = ifOut st @ (pre @ body)" "ifCur st' = e"
      "ifReports st' = ifReports st @ [\<lparr>Index = idx,
         Outcome = (if u > 0 then HunkAppliedFuzzy else HunkApplied), FuzzUsed = u, At = m\<rparr>]"
      using loc False sl body by (auto simp: applyIfdefHunk_def Let_def e_def)
    have plain: "plainLines d pre" using assms(5)
      by (rule plainLines_sub) (auto simp: pre_def dest: in_set_takeD in_set_dropD)
    have lens: "nat (ifCur st) \<le> nat m" "nat m \<le> nat e" "nat e - nat m = len"
      using False e at assms(3) by auto
    have split: "drop (nat (ifCur st)) oldLines =
        pre @ take len (drop (nat m) oldLines) @ drop (nat e) oldLines"
      using drop_split [OF lens(1), of oldLines] drop_split [OF lens(2), of oldLines]
      unfolding lens(3) pre_def by simp
    have "cpp d False CppTop ((pre @ body) @ ys) =
        take (nat e - nat (ifCur st)) (drop (nat (ifCur st)) oldLines) @ cpp d False CppTop ys" for ys
    proof -
      have "length pre = nat m - nat (ifCur st)" "length (take len (drop (nat m) oldLines)) = len"
        using at fit by (simp_all add: pre_def)
      moreover have "nat e - nat (ifCur st) = (nat m - nat (ifCur st)) + len" using lens by arith
      ultimately have "take (nat e - nat (ifCur st)) (drop (nat (ifCur st)) oldLines) =
          pre @ take len (drop (nat m) oldLines)"
        unfolding split by simp
      then show ?thesis by (simp add: cpp_plain_top [OF plain] cF)
    qed
    moreover have "placed opts ((h, if u > 0 then HunkAppliedFuzzy else HunkApplied) # evs)
        (drop (nat (ifCur st)) oldLines) (cpp d True CppTop ((pre @ body) @ ys))"
      if "placed opts evs (drop (nat e) oldLines) (cpp d True CppTop ys)" for evs ys
    proof -
      have "replaceRegion (Lines h) (drop (nat m) oldLines) =
          replaceRegion (Lines h) (take len (drop (nat m) oldLines))"
        by (simp add: replaceRegion_take len_def)
      then have "cpp d True CppTop ((pre @ body) @ ys) =
          pre @ replaceRegion (Lines h) (take len (drop (nat m) oldLines)) @ cpp d True CppTop ys"
        by (simp add: cpp_plain_top [OF plain] cT)
      then show ?thesis using oc exact fuzzy that unfolding split
        by (auto intro: placed_exact placed_fuzzy simp: len_def)
    qed
    moreover have "e \<le> int (length oldLines)" "ifCur st \<le> e" using e fit at False by auto
    ultimately show ?thesis using st' by (auto simp: ifStepOK_def)
  qed
qed

lemma applyIfdefHunks_steps:
  assumes "list_all wfHunk hs" "fits oldLines" "0 \<le> ifCur st" "ifCur st \<le> int (length oldLines)"
    "plainLines d oldLines" "list_all (\<lambda>h. plainLines d (newSeq (Lines h))) hs"
  shows "\<exists>st' seg reps. applyIfdefHunks d oldLines opts idx hs st = Some st' \<and>
    0 \<le> ifCur st' \<and> ifCur st' \<le> int (length oldLines) \<and>
    ifOut st' = ifOut st @ seg \<and> ifReports st' = ifReports st @ reps \<and> length reps = length hs \<and>
    cpp d False CppTop (seg @ drop (nat (ifCur st')) oldLines) = drop (nat (ifCur st)) oldLines \<and>
    placed opts (zip hs (map Outcome reps)) (drop (nat (ifCur st)) oldLines)
      (cpp d True CppTop (seg @ drop (nat (ifCur st')) oldLines))"
  using assms
proof (induction hs arbitrary: idx st)
  case Nil
  have "plainLines d (drop (nat (ifCur st)) oldLines)"
    using Nil.prems(5) by (rule plainLines_sub) (auto dest: in_set_dropD)
  then have "cpp d b CppTop (drop (nat (ifCur st)) oldLines) = drop (nat (ifCur st)) oldLines" for b
    using cpp_plain_top [of d "drop (nat (ifCur st)) oldLines" b "[]"] by simp
  with Nil.prems show ?case by (auto intro: placed_done)
next
  case (Cons h hs)
  obtain st1 where st1: "applyIfdefHunk d oldLines opts idx h st = Some st1"
    and ok: "ifStepOK d oldLines opts h st st1"
    using applyIfdefHunk_step [of h oldLines st d opts idx] Cons.prems by auto
  obtain seg rep where ok1: "ifCur st \<le> ifCur st1" "ifCur st1 \<le> int (length oldLines)"
    "ifOut st1 = ifOut st @ seg" "ifReports st1 = ifReports st @ [rep]"
    and cF: "\<And>ys. cpp d False CppTop (seg @ ys) =
      take (nat (ifCur st1) - nat (ifCur st)) (drop (nat (ifCur st)) oldLines) @ cpp d False CppTop ys"
    and cT: "\<And>evs ys. placed opts evs (drop (nat (ifCur st1)) oldLines) (cpp d True CppTop ys) \<Longrightarrow>
      placed opts ((h, Outcome rep) # evs) (drop (nat (ifCur st)) oldLines) (cpp d True CppTop (seg @ ys))"
    using ok unfolding ifStepOK_def by blast
  obtain st2 seg2 reps where st2: "applyIfdefHunks d oldLines opts (idx + 1) hs st1 = Some st2"
    "0 \<le> ifCur st2" "ifCur st2 \<le> int (length oldLines)" "ifOut st2 = ifOut st1 @ seg2"
    "ifReports st2 = ifReports st1 @ reps" "length reps = length hs"
    and c2: "cpp d False CppTop (seg2 @ drop (nat (ifCur st2)) oldLines) = drop (nat (ifCur st1)) oldLines"
      "placed opts (zip hs (map Outcome reps)) (drop (nat (ifCur st1)) oldLines)
        (cpp d True CppTop (seg2 @ drop (nat (ifCur st2)) oldLines))"
    using Cons.IH [of st1 "idx + 1"] Cons.prems ok1 by auto
  have "nat (ifCur st) \<le> nat (ifCur st1)" using ok1 by simp
  then have F: "cpp d False CppTop ((seg @ seg2) @ drop (nat (ifCur st2)) oldLines) = drop (nat (ifCur st)) oldLines"
    using cF [of "seg2 @ drop (nat (ifCur st2)) oldLines"] c2(1)
      drop_split [of "nat (ifCur st)" "nat (ifCur st1)" oldLines] by simp
  have T: "placed opts (zip (h # hs) (map Outcome (rep # reps))) (drop (nat (ifCur st)) oldLines)
      (cpp d True CppTop ((seg @ seg2) @ drop (nat (ifCur st2)) oldLines))"
    using cT [OF c2(2)] by simp
  show ?case
    by (rule exI [of _ st2], rule exI [of _ "seg @ seg2"], rule exI [of _ "rep # reps"])
      (use st1 st2 ok1 F T in simp)
qed

lemma plain_orient:
  "list_all (\<lambda>h. plainLines d (map Text (Lines h))) hs \<Longrightarrow>
   list_all (\<lambda>h. plainLines d (newSeq (Lines h))) (orientHunks opts hs)"
  by (auto simp: list_all_iff orientHunks_def plainLines_def newSeq_def oldSeq_def)

text \<open>
  C17: \<open>patch -D NAME\<close> keeps both versions. For well-formed hunks, and lines that are not themselves
  the control lines of \<open>NAME\<close>, \<open>ApplyIfdef\<close> returns (no index is out of range); preprocessed with
  \<open>NAME\<close> undefined its output is exactly the old file, and with \<open>NAME\<close> defined it is the old file
  with every reported hunk placed, in order and at a region the hunk matches.
\<close>

theorem ApplyIfdef_selects:
  assumes "fits oldLines" "list_all wfHunk hunks" "plainLines d oldLines"
    "list_all (\<lambda>h. plainLines d (map Text (Lines h))) hunks"
  shows "\<exists>r. ApplyIfdef oldLines oldNo hunks opts d = Some r \<and>
    length (Reports r) = length hunks \<and>
    cpp d False CppTop (ResLines r) = oldLines \<and>
    placed opts (zip (orientHunks opts hunks) (map Outcome (Reports r)))
      oldLines (cpp d True CppTop (ResLines r))"
proof -
  let ?st = "\<lparr>ifOut = [], ifCur = 0, ifNoFinal = oldNo, ifReports = [], ifRejects = []\<rparr>"
  obtain st seg reps where
    "applyIfdefHunks d oldLines opts 1 (orientHunks opts hunks) ?st = Some st"
    "0 \<le> ifCur st" "ifCur st \<le> int (length oldLines)" "ifOut st = seg" "ifReports st = reps"
    "length reps = length hunks"
    "cpp d False CppTop (seg @ drop (nat (ifCur st)) oldLines) = oldLines"
    "placed opts (zip (orientHunks opts hunks) (map Outcome reps)) oldLines
      (cpp d True CppTop (seg @ drop (nat (ifCur st)) oldLines))"
    using applyIfdefHunks_steps [OF wfHunk_orient [OF assms(2), of opts] assms(1), of ?st d opts 1]
      plain_orient [OF assms(4), of opts] assms(3) by (auto simp: orientHunks_def)
  then show ?thesis by (auto simp: ApplyIfdef_def goSlice_def)
qed

definition ifdefDemo :: "Hunk list" where
  "ifdefDemo = [\<lparr>OldStart = 1, OldCount = 2, NewStart = 1, NewCount = 2, Lines =
     [\<lparr>Kind = LineContext, Text = ''a'', NoEOL = False\<rparr>, \<lparr>Kind = LineDelete, Text = ''b'', NoEOL = False\<rparr>,
      \<lparr>Kind = LineAdd, Text = ''c'', NoEOL = False\<rparr>]\<rparr>]"

lemma ifdefDemo_ok:
  "fits [''a'', ''b'']" "list_all wfHunk ifdefDemo" "plainLines ''N'' [''a'', ''b'']"
  "list_all (\<lambda>h. plainLines ''N'' (map Text (Lines h))) ifdefDemo"
  by (simp_all add: fits_def wfHunk_def ifdefDemo_def plainLines_def isControl_def
      ifndefLine_def ifdefLine_def elseLine_def endifLine_def)

theorem ApplyIfdef_selects_witness:
  "\<exists>r. ApplyIfdef [''a'', ''b''] False ifdefDemo \<lparr>Reverse = False, Fuzz = 2, IgnoreWhitespace = False,
      Force = False\<rparr> ''N'' = Some r \<and> length (Reports r) = 1 \<and>
    cpp ''N'' False CppTop (ResLines r) = [''a'', ''b'']"
  using ApplyIfdef_selects [OF ifdefDemo_ok, of False
      "\<lparr>Reverse = False, Fuzz = 2, IgnoreWhitespace = False, Force = False\<rparr>"]
  by (auto simp: ifdefDemo_def)

end
