(* ===== verification/Patch_File.thy ===== *)
theory Patch_File
  imports Patch_Ifdef Patch_Parse
begin

text \<open>
  The parts of \<open>cmds/patch/patch.go\<close> between the patch engine and the file system: the lines of a
  file and back, the policy for reversed and already applied patches, and the names \<open>-p\<close> selects.
\<close>

section \<open>Lines of a file\<close>

definition splitFileLines :: "string \<Rightarrow> string list \<times> bool" where
  "splitFileLines content =
     (if content = [] then ([], False)
      else let trailingNL = hasSuffixByte content NL;
               parts = splitByte NL content
           in (if trailingNL then butlast parts else parts, \<not> trailingNL))"

fun joinFileLines :: "string list \<Rightarrow> bool \<Rightarrow> string" where
  "joinFileLines [] noFinalNewline = []"
| "joinFileLines [l] noFinalNewline = l @ (if noFinalNewline then [] else [NL])"
| "joinFileLines (l # ls) noFinalNewline = l @ NL # joinFileLines ls noFinalNewline"

lemma joinFileLines_unlines: "joinFileLines ls False = unlines ls"
  by (induction ls False rule: joinFileLines.induct) auto

lemma joinFileLines_joinByte: "joinFileLines ls True = joinByte NL ls"
  by (induction ls True rule: joinFileLines.induct) auto

lemma splitFileLines_no_NL: "l \<in> set (fst (splitFileLines data)) \<Longrightarrow> NL \<notin> set l"
  by (auto simp: splitFileLines_def Let_def split: if_splits dest: splitByte_parts in_set_butlastD)

lemma splitFileLines_NL: "splitFileLines (d @ [NL]) = (splitByte NL d, False)"
  by (simp add: splitFileLines_def hasSuffixByte_def splitByte_snoc)

lemma splitFileLines_Nil: "fst (splitFileLines data) = [] \<longleftrightarrow> data = []"
proof (cases "hasSuffixByte data NL")
  case True
  then show ?thesis by (auto simp: hasSuffixByte_conv splitFileLines_NL)
qed (simp add: splitFileLines_def)

lemma splitFileLines_empty: "fst (splitFileLines data) = [] \<Longrightarrow> \<not> snd (splitFileLines data)"
  unfolding splitFileLines_Nil by (simp add: splitFileLines_def)

text \<open>Splitting loses nothing.\<close>

lemma join_split_file: "joinFileLines (fst (splitFileLines data)) (snd (splitFileLines data)) = data"
proof (cases "hasSuffixByte data NL")
  case True
  then obtain d where "data = d @ [NL]" by (auto simp: hasSuffixByte_conv)
  then show ?thesis
    by (simp add: splitFileLines_NL joinFileLines_unlines flip: unlines_joinByte)
next
  case False
  then show ?thesis by (simp add: splitFileLines_def joinFileLines_joinByte)
qed

lemma split_join_file:
  assumes "\<forall>l \<in> set ls. NL \<notin> set l" "ls = [] \<longrightarrow> \<not> noEOL" "noEOL \<longrightarrow> last ls \<noteq> []"
  shows "splitFileLines (joinFileLines ls noEOL) = (ls, noEOL)"
proof (cases "ls = []")
  case False
  show ?thesis
  proof (cases noEOL)
    case True
    have "last (joinByte NL ls) \<noteq> NL \<and> joinByte NL ls \<noteq> []"
      using assms(1,3) True False
      by (induction NL ls rule: joinByte.induct) (auto simp: last_append dest: last_in_set split: if_splits)
    then show ?thesis using True False assms(1)
      by (simp add: splitFileLines_def joinFileLines_joinByte hasSuffixByte_def splitByte_joinByte)
  next
    case False
    with assms(1) \<open>ls \<noteq> []\<close> show ?thesis
      using unlines_joinByte [of ls, symmetric]
      by (simp add: joinFileLines_unlines splitFileLines_NL splitByte_joinByte)
  qed
qed (use assms in \<open>simp add: splitFileLines_def\<close>)

section \<open>Names\<close>

text \<open>
  On the platforms where the separator is \<open>/\<close>, \<open>filepath.ToSlash\<close> is the identity. The loop of
  \<open>stripComponents\<close> runs once per component still to strip.
\<close>

definition trimSlashes :: "string \<Rightarrow> string" where
  "trimSlashes s = trimLeft s ''/''"

fun stripLoop :: "string \<Rightarrow> nat \<Rightarrow> string" where
  "stripLoop rest 0 = rest"
| "stripLoop rest (Suc n) =
     (if CHR ''/'' \<notin> set rest then []
      else stripLoop (trimSlashes (dropWhile (\<lambda>c. c \<noteq> CHR ''/'') rest)) n)"

definition stripComponents :: "string \<Rightarrow> int \<Rightarrow> string" where
  "stripComponents name n =
     (if n \<le> 0 then name
      else if hasPrefix name ''/'' then stripLoop (trimSlashes name) (nat (n - 1))
      else stripLoop name (nat n))"

definition baseComponent :: "string \<Rightarrow> string" where
  "baseComponent name =
     (let trimmed = trimRight name ''/''
      in if trimmed = [] then []
         else if CHR ''/'' \<in> set trimmed then rev (takeWhile (\<lambda>c. c \<noteq> CHR ''/'') (rev trimmed))
         else trimmed)"

definition targetName :: "string \<Rightarrow> int \<Rightarrow> string" where
  "targetName name strip = (if strip < 0 then baseComponent name else stripComponents name strip)"

text \<open>The components of a path: the parts between runs of slashes.\<close>

definition components :: "string \<Rightarrow> string list" where
  "components name = filter (\<lambda>c. c \<noteq> []) (splitByte (CHR ''/'') name)"

lemma components_slash: "components (CHR ''/'' # s) = components s"
  by (simp add: components_def)

lemma components_trim: "components (trimSlashes s) = components s"
  by (induction s) (auto simp: trimSlashes_def trimLeft_def components_slash)

lemma components_plain: "CHR ''/'' \<notin> set s \<Longrightarrow> components s = (if s = [] then [] else [s])"
  by (simp add: components_def splitByte_no_sep)

lemma components_append:
  "CHR ''/'' \<notin> set w \<Longrightarrow> components (w @ CHR ''/'' # s) = (if w = [] then [] else [w]) @ components s"
  by (simp add: components_def splitByte_append_sep)

lemma split_at_slash:
  assumes "CHR ''/'' \<in> set s"
  obtains w r where "s = w @ CHR ''/'' # r" "CHR ''/'' \<notin> set w"
    "dropWhile (\<lambda>c. c \<noteq> CHR ''/'') s = CHR ''/'' # r"
  using split_list_first [OF assms] by (auto simp: dropWhile_append)

lemma stripLoop_components:
  assumes "s = [] \<or> hd s \<noteq> CHR ''/''"
  shows "components (stripLoop s n) = drop n (components s)"
  using assms
proof (induction s n rule: stripLoop.induct)
  case (2 rest n)
  show ?case
  proof (cases "CHR ''/'' \<in> set rest")
    case True
    then obtain w r where r: "rest = w @ CHR ''/'' # r" "CHR ''/'' \<notin> set w"
      "dropWhile (\<lambda>c. c \<noteq> CHR ''/'') rest = CHR ''/'' # r" by (rule split_at_slash)
    then have "w \<noteq> []" using 2(2) by (cases w) auto
    have hd: "trimSlashes x = [] \<or> hd (trimSlashes x) \<noteq> CHR ''/''" for x
      using hd_dropWhile [of "\<lambda>c. c \<in> set ''/''" x] by (auto simp: trimSlashes_def trimLeft_def)
    show ?thesis
      using 2(1) [OF _ hd] True r \<open>w \<noteq> []\<close>
      by (simp add: components_trim components_slash components_append)
  qed (simp add: components_plain)
qed simp


lemma components_rev_trim: "components (trimRight s ''/'') = components s"
proof (induction s rule: rev_induct)
  case (snoc x xs)
  have "components (xs @ ''/'') = components xs"
    by (simp add: components_def splitByte_snoc)
  with snoc show ?case by (simp add: trimRight_def)
qed (simp add: trimRight_def)

lemma components_last:
  assumes "CHR ''/'' \<in> set s" "last s \<noteq> CHR ''/''"
  shows "components s \<noteq> [] \<and> last (components s) = rev (takeWhile (\<lambda>c. c \<noteq> CHR ''/'') (rev s))"
proof -
  obtain p w where s: "s = p @ CHR ''/'' # w" "CHR ''/'' \<notin> set w"
    using split_list_last [OF assms(1)] by blast
  then have "w \<noteq> []" using assms(2) by auto
  have "splitByte (CHR ''/'') s = splitByte (CHR ''/'') p @ [w]"
    using s by (simp, induction p arbitrary: s) (auto simp: splitByte_no_sep split: list.splits)
  moreover have "rev (takeWhile (\<lambda>c. c \<noteq> CHR ''/'') (rev s)) = w"
    using s by (simp add: takeWhile_append takeWhile_tail)
  ultimately show ?thesis using \<open>w \<noteq> []\<close> by (simp add: components_def)
qed

text \<open>
  C26: Without \<open>-p\<close> the target is the last component of the name, and no name when the name
  has no component.
\<close>

theorem baseComponent_last:
  "baseComponent name = (if components name = [] then [] else last (components name))"
proof (cases "trimRight name ''/'' = []")
  case True
  then have "components name = []"
    using components_rev_trim [of name] by (simp add: components_def)
  with True show ?thesis by (simp add: baseComponent_def)
next
  case False
  have "last (trimRight name ''/'') \<noteq> CHR ''/''"
    using False hd_dropWhile [of "\<lambda>c. c \<in> set ''/''" "rev name"]
    by (auto simp: trimRight_def last_rev)
  then show ?thesis
    using False components_last [of "trimRight name ''/''"] components_plain [of "trimRight name ''/''"]
      components_rev_trim [of name]
    by (auto simp: baseComponent_def Let_def)
qed

section \<open>The policy for reversed patches\<close>

text \<open>
  The fields of \<open>runOptions\<close> that \<open>applyWithPolicy\<close> reads. \<open>reverseProbe\<close> is the pointer (absent or
  pointing to a flag); \<open>answerYes\<close> stands for the outcome of the prompt: read without an error
  and matched as affirmative.
\<close>

record runOptions =
  roReverse :: bool
  roForce :: bool
  roBatch :: bool
  roForward :: bool
  roDefine :: string
  roReverseProbe :: "bool option"
  roApplyOpts :: ApplyOptions

definition applyEither :: "string list \<Rightarrow> bool \<Rightarrow> Hunk list \<Rightarrow> runOptions \<Rightarrow> ApplyOptions \<Rightarrow> Result option" where
  "applyEither oldLines oldNoEOL hunks ro opts =
     (if roDefine ro \<noteq> [] then ApplyIfdef oldLines oldNoEOL hunks opts (roDefine ro)
      else Apply oldLines oldNoEOL hunks opts)"

definition indexedReports :: "nat \<Rightarrow> HunkOutcome \<Rightarrow> HunkReport list" where
  "indexedReports n oc = map (\<lambda>i. \<lparr>Index = int i + 1, Outcome = oc, FuzzUsed = 0, At = 0\<rparr>) [0..<n]"

definition failedResult :: "string list \<Rightarrow> bool \<Rightarrow> Hunk list \<Rightarrow> Result" where
  "failedResult oldLines oldNoEOL hunks =
     \<lparr>ResLines = oldLines, NoFinalNewline = oldNoEOL,
      Reports = indexedReports (length hunks) HunkFailed, Rejects = hunks\<rparr>"

definition applyWithPolicy :: "string list \<Rightarrow> bool \<Rightarrow> Hunk list \<Rightarrow> runOptions \<Rightarrow> bool \<Rightarrow> bool \<Rightarrow>
    (Result \<times> bool) option" where
  "applyWithPolicy oldLines oldNoEOL hunks ro creationConflict answerYes =
     (let apply = applyEither oldLines oldNoEOL hunks ro
      in if roReverse ro \<or> roForce ro \<or> roBatch ro
         then map_option (\<lambda>r. (r, False)) (apply (roApplyOpts ro))
         else if roForward ro then
           (if \<not> creationConflict then map_option (\<lambda>r. (r, False)) (apply (roApplyOpts ro))
            else case apply ((roApplyOpts ro)\<lparr>Reverse := True\<rparr>) of
                   None \<Rightarrow> None
                 | Some reversed \<Rightarrow>
                     if AllApplied reversed
                     then Some (\<lparr>ResLines = oldLines, NoFinalNewline = oldNoEOL,
                                 Reports = indexedReports (length hunks) HunkAlreadyApplied,
                                 Rejects = []\<rparr>, False)
                     else Some (failedResult oldLines oldNoEOL hunks, False))
         else
           let forwardOpts = (roApplyOpts ro)\<lparr>Force := True\<rparr>
           in case (if \<not> creationConflict then apply forwardOpts
                    else Some (failedResult oldLines oldNoEOL hunks)) of
                None \<Rightarrow> None
              | Some forward \<Rightarrow>
                  if Reports forward = [] \<or> Outcome (hd (Reports forward)) \<noteq> HunkFailed
                  then Some (forward, False)
                  else if roReverseProbe ro = Some False then Some (forward, False)
                  else (case apply (forwardOpts\<lparr>Reverse := True\<rparr>) of
                          None \<Rightarrow> None
                        | Some reversed \<Rightarrow>
                            if \<not> AllApplied reversed then Some (forward, False)
                            else if answerYes then Some (reversed, True)
                            else Some (forward, False)))"

lemma AllApplied_applied:
  "list_all (\<lambda>rep. Outcome rep = HunkApplied) (Reports r) \<Longrightarrow> AllApplied r"
  by (auto simp: AllApplied_def list_all_iff)

text \<open>
  C23: Running \<open>patch\<close> without \<open>-R\<close>, \<open>-N\<close>, \<open>-f\<close> or \<open>-t\<close> on a file that already has the change:
  when the first hunk does not apply forwards, the reversed patch is found to apply in full, and
  the answer to the prompt decides between the file before the change, with the reversal
  recorded, and the result of the forward attempt.
\<close>

theorem policy_offers_reverse:
  assumes "fitHunks 0 0 old hs new rest" "fits new" "roDefine ro = []"
    "\<not> roReverse ro" "\<not> roForce ro" "\<not> roBatch ro" "\<not> roForward ro" "roReverseProbe ro \<noteq> Some False"
    "Apply new newNo hs ((roApplyOpts ro)\<lparr>Force := True\<rparr>) = Some fwd"
    "Reports fwd \<noteq> []" "Outcome (hd (Reports fwd)) = HunkFailed"
  shows "(\<exists>r. applyWithPolicy new newNo hs ro False True = Some (r, True) \<and>
            ResLines r = old \<and> Rejects r = [] \<and> AllApplied r) \<and>
         applyWithPolicy new newNo hs ro False False = Some (fwd, False)"
proof -
  obtain r where r: "Apply new newNo hs ((roApplyOpts ro)\<lparr>Force := True, Reverse := True\<rparr>) = Some r"
    "ResLines r = old" "Rejects r = []" "AllApplied r"
    using Apply_fit_back [OF assms(1,2), of "(roApplyOpts ro)\<lparr>Force := True, Reverse := True\<rparr>" newNo]
      AllApplied_applied by auto
  with assms(3-) show ?thesis by (auto simp: applyWithPolicy_def applyEither_def Let_def)
qed

definition demoRun :: runOptions where
  "demoRun = \<lparr>roReverse = False, roForce = False, roBatch = False, roForward = False, roDefine = [],
     roReverseProbe = Some True, roApplyOpts = demoOpts False\<rparr>"

definition demoForward :: Result where
  "demoForward = \<lparr>ResLines = [''a'', ''B'', ''c''], NoFinalNewline = False,
     Reports = [failedReport 1], Rejects = [demoHunk]\<rparr>"

lemma demo_forward_fails:
  "Apply [''a'', ''B'', ''c''] False [demoHunk] ((roApplyOpts demoRun)\<lparr>Force := True\<rparr>) = Some demoForward"
  by code_simp

theorem policy_offers_reverse_witness:
  "\<exists>r. applyWithPolicy [''a'', ''B'', ''c''] False [demoHunk] demoRun False True = Some (r, True) \<and>
     ResLines r = [''a'', ''b'', ''c'']"
  using policy_offers_reverse [OF demo_fit, of demoRun False demoForward] demo_forward_fails
  by (auto simp: fits_def demoRun_def demoForward_def failedReport_def)

end
