(* ===== verification/Patch_Run.thy ===== *)
theory Patch_Run
  imports Patch_World Patch_Reject Patch_File
begin

text \<open>
  The command \<open>patch\<close> (\<open>src/cmds/patch/patch.go\<close>) from the parsed options on: the choice of the file to patch, the
  application of one section of the patch to it, the output file, backups and rejects, ed scripts, and the exit
  status. The result of a run is \<open>None\<close> for a run-time panic of the engine, otherwise the status and the final
  state. Command-line parsing (\<open>pflag\<close>) is not modelled: the record of option values is an argument.
\<close>

section \<open>Options\<close>

record patchFlags =
  fStrip :: int
  fStripChanged :: bool
  fReverse :: bool
  fForce :: bool
  fBatch :: bool
  fForward :: bool
  fFuzz :: int
  fIgnoreWS :: bool
  fRemoveEmpty :: bool
  fQuiet :: bool
  fSilent :: bool
  fBackup :: bool
  fOutput :: string
  fInput :: string
  fRejectFile :: string
  fDirectory :: string
  fUnified :: bool
  fContext :: bool
  fNormal :: bool
  fDryRun :: bool
  fEd :: bool
  fIfdef :: string
  fGet :: int

definition autoStripSentinel :: int where
  "autoStripSentinel = -1"

definition isIdentStart :: "char \<Rightarrow> bool" where
  "isIdentStart c =
     (let n = (of_char c :: nat) in 65 \<le> n \<and> n \<le> 90 \<or> 97 \<le> n \<and> n \<le> 122 \<or> c = CHR ''_'')"

definition cIdentifierRE :: "string \<Rightarrow> bool" where
  "cIdentifierRE s = (s \<noteq> [] \<and> isIdentStart (hd s) \<and> list_all (\<lambda>c. isIdentStart c \<or> isDigit c) (tl s))"

text \<open>The options of the engine and of the reversal policy for the next section.\<close>

definition policyOptions :: "patchFlags \<Rightarrow> patchState \<Rightarrow> runOptions" where
  "policyOptions f st =
     \<lparr>roReverse = (fReverse f \<or> psReverse st), roForce = fForce f, roBatch = fBatch f, roForward = fForward f,
      roDefine = fIfdef f, roReverseProbe = Some (psProbe st),
      roApplyOpts = \<lparr>Reverse = (fReverse f \<or> psReverse st), Fuzz = fFuzz f, IgnoreWhitespace = fIgnoreWS f,
        Force = (fForce f \<or> fBatch f \<or> \<not> fForward f)\<rparr>\<rparr>"

definition hardFailure :: "patchMsg \<Rightarrow> patchState \<Rightarrow> patchState" where
  "hardFailure m st = (say m st)\<lparr>psHard := True\<rparr>"

section \<open>The file to patch\<close>

definition resolveOperandPath :: "patchCtx \<Rightarrow> string \<Rightarrow> string \<Rightarrow> string" where
  "resolveOperandPath ctx dir name =
     (if filepathIsAbs name then rcPath (pcDir ctx) name else rcPath (pcDir ctx) (filepathJoin dir name))"

definition resolveTargetName :: "patchCtx \<Rightarrow> string \<Rightarrow> string \<Rightarrow> int \<Rightarrow> string" where
  "resolveTargetName ctx dir name strip =
     (let stripped = targetName name strip
      in if stripped = [] then [] else resolveOperandPath ctx dir stripped)"

definition namesFile :: "string \<Rightarrow> bool" where
  "namesFile name = (name \<noteq> [] \<and> name \<noteq> DevNull)"

definition isPlainFile :: "patchCtx \<Rightarrow> patchState \<Rightarrow> string \<Rightarrow> bool" where
  "isPlainFile ctx st p = (case osStat ctx st p of Inl e \<Rightarrow> False | Inr fi \<Rightarrow> \<not> entryIsDir fi)"

fun firstHeaderTarget :: "patchCtx \<Rightarrow> patchState \<Rightarrow> string \<Rightarrow> int \<Rightarrow> string list \<Rightarrow> (string \<times> string) option" where
  "firstHeaderTarget ctx st dir strip [] = None"
| "firstHeaderTarget ctx st dir strip (name # names) =
     (let path = resolveTargetName ctx dir name strip
      in if \<not> namesFile name \<or> path = [] then firstHeaderTarget ctx st dir strip names
         else if map_of (psIntermediate st) path \<noteq> None \<or> isPlainFile ctx st path
         then Some (path, targetName name strip)
         else firstHeaderTarget ctx st dir strip names)"

definition resolveHeaderTarget ::
    "patchCtx \<Rightarrow> patchState \<Rightarrow> string \<Rightarrow> string \<Rightarrow> string \<Rightarrow> string \<Rightarrow> int \<Rightarrow> bool \<Rightarrow> string \<times> string \<times> bool" where
  "resolveHeaderTarget ctx st dir oldName newName indexName strip create =
     (case firstHeaderTarget ctx st dir strip [oldName, newName, indexName] of
        Some (path, name) \<Rightarrow> (path, name, True)
      | None \<Rightarrow>
          if create
          then let path = resolveTargetName ctx dir newName strip in (path, targetName newName strip, path \<noteq> [])
          else let name0 = (if \<not> namesFile oldName then newName else oldName);
                   name = (if \<not> namesFile name0 \<and> indexName \<noteq> [] then indexName else name0)
               in if \<not> namesFile name then ([], [], False)
                  else (resolveTargetName ctx dir name strip, name, False))"

text \<open>The target path and the name shown for it, or \<open>None\<close> when the section is given up.\<close>

definition chooseTarget ::
    "patchCtx \<Rightarrow> patchFlags \<Rightarrow> string \<Rightarrow> string \<Rightarrow> string \<Rightarrow> string \<Rightarrow> bool \<Rightarrow> patchState \<Rightarrow>
     (string \<times> string) option \<times> patchState" where
  "chooseTarget ctx f origFile oldName newName indexName createMode st =
     (let displayName = (if createMode then newName else oldName)
      in if origFile \<noteq> [] then (Some (resolveOperandPath ctx (fDirectory f) origFile, displayName), st)
         else case resolveHeaderTarget ctx st (fDirectory f) oldName newName indexName (fStrip f) createMode of
                (path, name, found) \<Rightarrow>
                  if found \<or> createMode then (Some (path, name), st)
                  else if fForce f \<or> fBatch f then (None, hardFailure (MsgCantFind None) st)
                  else (case askPrompt ctx ''File to patch: '' st of
                          ((answer, err), st1) \<Rightarrow>
                            if err \<noteq> None \<or> answer = [] then (None, hardFailure (MsgCantDetermine err) st1)
                            else (Some (resolveOperandPath ctx (fDirectory f) answer, answer), st1)))"

section \<open>Reading it\<close>

record targetFile =
  tfLines :: "string list"
  tfNoEOL :: bool
  tfExisted :: bool
  tfMode :: fileMode

definition defaultMode :: fileMode where
  "defaultMode = 0x1A4"

definition targetOf :: "string \<Rightarrow> fileMode \<Rightarrow> targetFile" where
  "targetOf content m =
     \<lparr>tfLines = fst (splitFileLines content), tfNoEOL = snd (splitFileLines content), tfExisted = True, tfMode = m\<rparr>"

definition loadTarget :: "patchCtx \<Rightarrow> string \<Rightarrow> string \<Rightarrow> bool \<Rightarrow> patchState \<Rightarrow> targetFile option \<times> patchState" where
  "loadTarget ctx path displayName createMode st =
     (case map_of (psIntermediate st) path of
        Some content \<Rightarrow> (Some (targetOf content defaultMode), st)
      | None \<Rightarrow>
          (case osStat ctx st path of
             Inl e \<Rightarrow>
               if \<not> createMode then (None, hardFailure (MsgCantFind (Some (describeErr path e))) st)
               else if e = ErrNotExist
               then (Some \<lparr>tfLines = [], tfNoEOL = False, tfExisted = False, tfMode = defaultMode\<rparr>, st)
               else (None, hardFailure (MsgError (describeErr path e)) st)
           | Inr fi \<Rightarrow>
               if createMode \<and> entryIsDir fi then (None, hardFailure (MsgDirectory displayName) st)
               else (case osReadFile ctx st path of
                       Inl e \<Rightarrow> (None, hardFailure (MsgError (describeErr path e)) st)
                     | Inr content \<Rightarrow> (Some (targetOf content (entryPerm fi)), st))))"

section \<open>Applying the hunks\<close>

text \<open>Whether \<open>applyWithPolicy\<close> gets to its prompt.\<close>

definition policyPrompts :: "string list \<Rightarrow> bool \<Rightarrow> Hunk list \<Rightarrow> runOptions \<Rightarrow> bool \<Rightarrow> bool option" where
  "policyPrompts oldLines oldNoEOL hunks ro creationConflict =
     (if roReverse ro \<or> roForce ro \<or> roBatch ro \<or> roForward ro then Some False
      else let forwardOpts = (roApplyOpts ro)\<lparr>Force := True\<rparr>
           in case (if \<not> creationConflict then applyEither oldLines oldNoEOL hunks ro forwardOpts
                    else Some (failedResult oldLines oldNoEOL hunks)) of
                None \<Rightarrow> None
              | Some forward \<Rightarrow>
                  if Reports forward = [] \<or> Outcome (hd (Reports forward)) \<noteq> HunkFailed then Some False
                  else if roReverseProbe ro = Some False then Some False
                  else map_option AllApplied (applyEither oldLines oldNoEOL hunks ro (forwardOpts\<lparr>Reverse := True\<rparr>)))"

definition reversePrompt :: string where
  "reversePrompt = ''Reversed (or previously applied) patch detected! Assume -R? [n] ''"

definition askReverse :: "patchCtx \<Rightarrow> patchState \<Rightarrow> bool \<times> patchState" where
  "askReverse ctx st =
     (case askPrompt ctx reversePrompt st of
        ((answer, err), st1) \<Rightarrow>
          (case matchAffirmative ctx answer of
             Inl e \<Rightarrow> (False, say (MsgError e) st1)
           | Inr yes \<Rightarrow> (err = None \<and> yes, st1)))"

definition runPolicy ::
    "patchCtx \<Rightarrow> string list \<Rightarrow> bool \<Rightarrow> Hunk list \<Rightarrow> runOptions \<Rightarrow> bool \<Rightarrow> patchState \<Rightarrow> (Result \<times> bool \<times> patchState) option" where
  "runPolicy ctx oldLines oldNoEOL hunks ro creationConflict st =
     (case policyPrompts oldLines oldNoEOL hunks ro creationConflict of
        None \<Rightarrow> None
      | Some asks \<Rightarrow>
          (case (if asks then askReverse ctx st else (False, st)) of
             (yes, st1) \<Rightarrow>
               (case applyWithPolicy oldLines oldNoEOL hunks ro creationConflict yes of
                  None \<Rightarrow> None
                | Some (res, autoReversed) \<Rightarrow> Some (res, autoReversed, st1))))"

definition verbOf :: "bool \<Rightarrow> bool \<Rightarrow> string" where
  "verbOf createMode deleteMode =
     (if createMode then ''creating file'' else if deleteMode then ''removing file'' else ''patching file'')"

record hunkTally =
  htFailed :: int
  htChanged :: bool
  htIgnored :: bool

definition tallyReport :: "bool \<Rightarrow> hunkTally \<times> patchState \<Rightarrow> HunkReport \<Rightarrow> hunkTally \<times> patchState" where
  "tallyReport quiet acc r =
     (case acc of (t, st) \<Rightarrow>
        (case Outcome r of
           HunkApplied \<Rightarrow> (t\<lparr>htChanged := True\<rparr>, st)
         | HunkAppliedFuzzy \<Rightarrow>
             (t\<lparr>htChanged := True\<rparr>, if quiet then st else say (MsgFuzzy (Index r) (At r + 1) (FuzzUsed r)) st)
         | HunkAlreadyApplied \<Rightarrow> (t\<lparr>htIgnored := True\<rparr>, if quiet then st else say (MsgAlready (Index r)) st)
         | HunkFailed \<Rightarrow> (t\<lparr>htFailed := htFailed t + 1\<rparr>, say (MsgFailed (Index r)) st)))"

definition tallyReports :: "bool \<Rightarrow> HunkReport list \<Rightarrow> patchState \<Rightarrow> hunkTally \<times> patchState" where
  "tallyReports quiet reps st =
     foldl (tallyReport quiet) (\<lparr>htFailed = 0, htChanged = False, htIgnored = False\<rparr>, st) reps"

section \<open>Writing the result\<close>

text \<open>A run of calls with its error reported: whether all succeeded.\<close>

definition orFail :: "(string \<Rightarrow> patchMsg) \<Rightarrow> string option \<times> patchState \<Rightarrow> bool \<times> patchState" where
  "orFail msg r = (case r of (None, st) \<Rightarrow> (True, st) | (Some e, st) \<Rightarrow> (False, hardFailure (msg e) st))"

definition backupIf :: "patchCtx \<Rightarrow> bool \<Rightarrow> string \<Rightarrow> patchState \<Rightarrow> bool \<times> patchState" where
  "backupIf ctx wanted path st = (if wanted then orFail MsgBackup (backupOnce ctx path st) else (True, st))"

definition commitFile ::
    "patchCtx \<Rightarrow> patchFlags \<Rightarrow> string \<Rightarrow> targetFile \<Rightarrow> Result \<Rightarrow> bool \<Rightarrow> bool \<Rightarrow> patchState \<Rightarrow> bool \<times> patchState" where
  "commitFile ctx f path tf res changed deleteMode st =
     (let content = joinFileLines (ResLines res) (NoFinalNewline res);
          finalEmpty = (ResLines res = []);
          removeFile = (AllApplied res \<and> fOutput f = [] \<and> fIfdef f = [] \<and>
            (deleteMode \<or> (fRemoveEmpty f \<and> tfExisted tf \<and> finalEmpty \<and> \<not> deleteMode)));
          st1 = (case psAggregate st of
                   None \<Rightarrow> st
                 | Some buf \<Rightarrow> st\<lparr>psIntermediate := (path, content) # psIntermediate st, psAggregate := Some (buf @ content)\<rparr>)
      in case osStat ctx st1 path of
           Inl (OtherError e) \<Rightarrow> (False, hardFailure (MsgError (describeErr path (OtherError e))) st1)
         | out \<Rightarrow>
             if psAggregate st1 \<noteq> None \<or> \<not> changed then (True, st1)
             else if removeFile then
               (case backupIf ctx (fBackup f \<and> tfExisted tf) path st1 of
                  (False, st2) \<Rightarrow> (False, st2)
                | (True, st2) \<Rightarrow> orFail MsgError (doOp ctx (RemoveFile path) st2))
             else
               (case backupIf ctx (fBackup f \<and> \<not> isl out) path st1 of
                  (False, st2) \<Rightarrow> (False, st2)
                | (True, st2) \<Rightarrow>
                    orFail MsgError (case out of
                        Inr fi \<Rightarrow> writeFileContent ctx path content (entryPerm fi) True st2
                      | Inl e \<Rightarrow> writeFileContent ctx path content (tfMode tf) False st2)))"

definition rejectPath :: "patchCtx \<Rightarrow> patchFlags \<Rightarrow> string \<Rightarrow> string" where
  "rejectPath ctx f path =
     (if fRejectFile f \<noteq> [] then resolveOperandPath ctx (fDirectory f) (fRejectFile f)
      else if fOutput f \<noteq> [] then resolveOperandPath ctx (fDirectory f) (fOutput f) @ ''.rej''
      else path @ ''.rej'')"

definition saveRejects :: "patchCtx \<Rightarrow> patchFlags \<Rightarrow> string \<Rightarrow> FilePatch \<Rightarrow> Result \<Rightarrow> int \<Rightarrow> patchState \<Rightarrow> bool \<times> patchState" where
  "saveRejects ctx f path fp res failed st =
     (let rej = rejectPath ctx f path;
          rejData = WriteRejectFormat [] [] (PatchFormat fp) (Rejects res);
          opening = (if rej \<in> set (psRejectStarted st) then OpenAppend rej (createMask ctx defaultMode)
                   else OpenTrunc rej (createMask ctx defaultMode))
      in case orFail MsgRejectWrite (doOps ctx [opening, WriteData rej rejData, CloseFile rej] st) of
           (False, st1) \<Rightarrow> (False, st1)
         | (True, st1) \<Rightarrow>
             (True, say (MsgRejects failed (int (length (Hunks fp))) rej)
                        (st1\<lparr>psRejectStarted := rej # psRejectStarted st1\<rparr>)))"

section \<open>One section of the patch\<close>

text \<open>What follows the application: the messages, the output, the rejects.\<close>

definition finishFile ::
    "patchCtx \<Rightarrow> patchFlags \<Rightarrow> FilePatch \<Rightarrow> string \<Rightarrow> string \<Rightarrow> targetFile \<Rightarrow> Result \<Rightarrow> bool \<Rightarrow> bool \<Rightarrow> patchState \<Rightarrow>
     bool \<times> patchState" where
  "finishFile ctx f fp path displayName tf res createMode deleteMode st =
     (let quiet = (fQuiet f \<or> fSilent f);
          st1 = (if quiet then st else say (MsgVerb (verbOf createMode deleteMode) displayName (fDryRun f)) st)
      in case tallyReports quiet (Reports res) st1 of
           (t, st2) \<Rightarrow>
             let allApplied = AllApplied res;
                 success = (allApplied \<and> \<not> htIgnored t);
                 st3 = (if allApplied then st2\<lparr>psProbe := False\<rparr> else st2)
             in if fDryRun f then (success, st3)
                else (case commitFile ctx f path tf res (htChanged t) deleteMode st3 of
                        (False, st4) \<Rightarrow> (False, st4)
                      | (True, st4) \<Rightarrow>
                          if allApplied then (success, st4)
                          else (case saveRejects ctx f path fp res (htFailed t) st4 of
                                  (False, st5) \<Rightarrow> (False, st5)
                                | (True, st5) \<Rightarrow> (success, st5))))"

definition applyOneFile :: "patchCtx \<Rightarrow> patchFlags \<Rightarrow> string \<Rightarrow> FilePatch \<Rightarrow> patchState \<Rightarrow> (bool \<times> patchState) option" where
  "applyOneFile ctx f origFile fp st =
     (let ro = policyOptions f st;
          oldName = (if roReverse ro then NewName fp else OldName fp);
          newName = (if roReverse ro then OldName fp else NewName fp);
          createMode = (oldName = DevNull \<and> newName \<noteq> DevNull);
          deleteMode = (newName = DevNull \<and> oldName \<noteq> DevNull)
      in case chooseTarget ctx f origFile oldName newName (IndexName fp) createMode st of
           (None, st1) \<Rightarrow> Some (False, st1)
         | (Some (path, displayName), st1) \<Rightarrow>
             (case loadTarget ctx path displayName createMode st1 of
                (None, st2) \<Rightarrow> Some (False, st2)
              | (Some tf, st2) \<Rightarrow>
                  (case runPolicy ctx (tfLines tf) (tfNoEOL tf) (Hunks fp) ro
                          (createMode \<and> (tfLines tf \<noteq> [] \<or> tfNoEOL tf)) st2 of
                     None \<Rightarrow> None
                   | Some (res, autoReversed, st3) \<Rightarrow>
                       Some (if autoReversed
                             then finishFile ctx f fp path displayName tf res
                                    (newName = DevNull \<and> oldName \<noteq> DevNull) (oldName = DevNull \<and> newName \<noteq> DevNull)
                                    (st3\<lparr>psReverse := True\<rparr>)
                             else finishFile ctx f fp path displayName tf res createMode deleteMode st3))))"

section \<open>Ed scripts\<close>

definition edTarget :: "patchCtx \<Rightarrow> patchFlags \<Rightarrow> string \<Rightarrow> string \<Rightarrow> patchState \<Rightarrow> string" where
  "edTarget ctx f origFile indexName st =
     (if origFile = [] \<and> indexName \<noteq> [] then
        let candidate = targetName indexName (fStrip f)
        in if candidate \<noteq> [] \<and> isPlainFile ctx st (resolveOperandPath ctx (fDirectory f) candidate)
           then candidate else origFile
      else origFile)"

definition saveEdRejects :: "patchCtx \<Rightarrow> patchFlags \<Rightarrow> string \<Rightarrow> Hunk list \<Rightarrow> patchState \<Rightarrow> int \<times> patchState" where
  "saveEdRejects ctx f outPath hunks st =
     (let rej = (if fRejectFile f \<noteq> [] then resolveOperandPath ctx (fDirectory f) (fRejectFile f) else outPath @ ''.rej'');
          rejData = WriteRejectFormat [] [] FormatNormal hunks
      in case doOps ctx [OpenTrunc rej (createMask ctx defaultMode), WriteData rej rejData, CloseFile rej] st of
           (Some e, st1) \<Rightarrow> (2, say (MsgRejectWrite e) st1)
         | (None, st1) \<Rightarrow> (1, say (MsgEdRejects (int (length hunks)) rej) st1))"

text \<open>The output of an ed script: backup, then the new content, then the rejects.\<close>

definition finishEd ::
    "patchCtx \<Rightarrow> patchFlags \<Rightarrow> string \<Rightarrow> string \<Rightarrow> (Hunk list \<times> bool) option \<Rightarrow> patchState \<Rightarrow> int \<times> patchState" where
  "finishEd ctx f target result rejected st =
     (let outPath = (if fOutput f \<noteq> [] then resolveOperandPath ctx (fDirectory f) (fOutput f) else target);
          existed = (\<not> isl (osStat ctx st outPath));
          perm = (case osStat ctx st outPath of Inr fi \<Rightarrow> entryPerm fi | Inl e \<Rightarrow> defaultMode);
          writeOutput = (fOutput f \<noteq> [] \<or> (case rejected of None \<Rightarrow> True | Some (hs, applied) \<Rightarrow> applied))
      in case (if fBackup f \<and> existed \<and> writeOutput then backupFile ctx outPath st else (None, st)) of
           (Some e, st1) \<Rightarrow> (2, say (MsgBackup e) st1)
         | (None, st1) \<Rightarrow>
             (case (if writeOutput then writeFileContent ctx outPath result perm existed st1 else (None, st1)) of
                (Some e, st2) \<Rightarrow> (2, say (MsgError e) st2)
              | (None, st2) \<Rightarrow>
                  (case rejected of None \<Rightarrow> (0, st2) | Some (hs, applied) \<Rightarrow> saveEdRejects ctx f outPath hs st2)))"

definition runEdScript :: "patchCtx \<Rightarrow> patchFlags \<Rightarrow> string \<Rightarrow> string \<Rightarrow> string \<Rightarrow> patchState \<Rightarrow> (int \<times> patchState) option" where
  "runEdScript ctx f script origFile indexName st =
     (let named = edTarget ctx f origFile indexName st
      in case (if named = [] then askPrompt ctx ''File to patch: '' st else ((named, None), st)) of
           ((orig, err), st1) \<Rightarrow>
             if err \<noteq> None \<or> orig = [] then Some (2, say (MsgCantDetermine err) st1)
             else let target = resolveOperandPath ctx (fDirectory f) orig
                  in case osReadFile ctx st1 target of
                       Inl e \<Rightarrow> Some (2, say (MsgError (describeErr target e)) st1)
                     | Inr content \<Rightarrow>
                         (case (if fIfdef f \<noteq> [] then ApplyEdIfdef content script (fIfdef f) else ApplyEd content script) of
                            None \<Rightarrow> None
                          | Some (Inl e) \<Rightarrow> Some (2, say (MsgEdError e) st1)
                          | Some (Inr (result, rejected)) \<Rightarrow>
                              Some (if fDryRun f then (if rejected \<noteq> None then 1 else 0, st1)
                                    else finishEd ctx f target result rejected st1)))"

section \<open>The run\<close>

definition writeAggregateOutput :: "patchCtx \<Rightarrow> patchFlags \<Rightarrow> string \<Rightarrow> patchState \<Rightarrow> bool \<times> patchState" where
  "writeAggregateOutput ctx f content st =
     (let path = resolveOperandPath ctx (fDirectory f) (fOutput f)
      in case osStat ctx st path of
           Inl (OtherError e) \<Rightarrow> (False, hardFailure (MsgError (describeErr path (OtherError e))) st)
         | out \<Rightarrow>
             (case backupIf ctx (fBackup f \<and> \<not> isl out) path st of
                (False, st1) \<Rightarrow> (False, st1)
              | (True, st1) \<Rightarrow>
                  orFail MsgError (case out of
                      Inr fi \<Rightarrow> writeFileContent ctx path content (entryPerm fi) True st1
                    | Inl e \<Rightarrow> writeFileContent ctx path content defaultMode False st1)))"

definition filePatchLabel :: "FilePatch \<Rightarrow> string" where
  "filePatchLabel fp =
     (if namesFile (NewName fp) then NewName fp
      else if namesFile (OldName fp) then OldName fp
      else if RenameTo fp \<noteq> [] then RenameTo fp
      else if RenameFrom fp \<noteq> [] then RenameFrom fp
      else ''<unknown>'')"

fun applyFiles :: "patchCtx \<Rightarrow> patchFlags \<Rightarrow> string \<Rightarrow> FilePatch list \<Rightarrow> bool \<Rightarrow> patchState \<Rightarrow> (bool \<times> patchState) option" where
  "applyFiles ctx f origFile [] trouble st = Some (trouble, st)"
| "applyFiles ctx f origFile (fp # fps) trouble st =
     (if Unsupported fp \<noteq> []
      then applyFiles ctx f origFile fps True (hardFailure (MsgUnsupported (filePatchLabel fp) (Unsupported fp)) st)
      else case applyOneFile ctx f origFile fp st of
             None \<Rightarrow> None
           | Some (ok, st1) \<Rightarrow> applyFiles ctx f origFile fps (trouble \<or> \<not> ok) st1)"

definition wantFormat :: "patchFlags \<Rightarrow> Format option" where
  "wantFormat f =
     (if fUnified f then Some FormatUnified else if fContext f then Some FormatContext
      else if fNormal f then Some FormatNormal else None)"

definition runParsed :: "patchCtx \<Rightarrow> patchFlags \<Rightarrow> string \<Rightarrow> string \<Rightarrow> patchState \<Rightarrow> (int \<times> patchState) option" where
  "runParsed ctx f origFile data st =
     (case Parse data of
        Inl e \<Rightarrow> Some (2, say (MsgParse e) st)
      | Inr fps \<Rightarrow>
          (case (case wantFormat f of None \<Rightarrow> None | Some w \<Rightarrow> find (\<lambda>fp. PatchFormat fp \<noteq> w) fps) of
             Some fp \<Rightarrow> Some (2, say (MsgFormat (PatchFormat fp) (the (wantFormat f))) st)
           | None \<Rightarrow>
               if fRejectFile f \<noteq> [] \<and> length fps > 1 then Some (2, say (MsgUsage RejectMultiFile) st)
               else if origFile \<noteq> [] \<and> length fps > 1 then Some (2, say (MsgUsage OperandMultiFile) st)
               else
                 (case applyFiles ctx f origFile fps False (if fOutput f \<noteq> [] then st\<lparr>psAggregate := Some []\<rparr> else st) of
                    None \<Rightarrow> None
                  | Some (trouble, st1) \<Rightarrow>
                      (case (case psAggregate st1 of
                               Some buf \<Rightarrow> if \<not> fDryRun f then writeAggregateOutput ctx f buf st1 else (True, st1)
                             | None \<Rightarrow> (True, st1)) of
                         (ok, st2) \<Rightarrow> Some (if psHard st2 then 2 else if trouble \<or> \<not> ok then 1 else 0, st2)))))"

definition formatHints :: "patchFlags \<Rightarrow> nat" where
  "formatHints f = length (filter (\<lambda>b. b) [fUnified f, fContext f, fNormal f, fEd f])"

text \<open>The run after the options are parsed; \<open>inp\<close> is what reading standard input gives.\<close>

definition runCore :: "patchCtx \<Rightarrow> patchFlags \<Rightarrow> string list \<Rightarrow> string + string \<Rightarrow> patchState \<Rightarrow> (int \<times> patchState) option" where
  "runCore ctx f operands inp st =
     (let usage = (\<lambda>u. Some (2, say (MsgUsage u) st));
          origFile = (case operands of [] \<Rightarrow> [] | x # xs \<Rightarrow> x);
          patchFile = (if fInput f \<noteq> [] then fInput f else case operands of x # y # ys \<Rightarrow> y | _ \<Rightarrow> []);
          patchPath = resolveOperandPath ctx (fDirectory f) patchFile
      in if fStripChanged f \<and> fStrip f < 0 then usage StripNegative
         else if fGet f \<noteq> autoStripSentinel then usage GetUnsupported
         else if formatHints f > 1 then usage FormatHints
         else if length operands > 2 then usage (ExtraOperand (operands ! 2))
         else case (if patchFile \<noteq> []
                    then (case osReadFile ctx st patchPath of Inl e \<Rightarrow> Inl (describeErr patchPath e) | Inr d \<Rightarrow> Inr d)
                    else inp) of
                Inl e \<Rightarrow> Some (2, say (MsgError e) st)
              | Inr data \<Rightarrow>
                  if fIfdef f \<noteq> [] \<and> \<not> cIdentifierRE (fIfdef f) then usage (InvalidDefine (fIfdef f))
                  else (case ExtractEdScript data of (edScript, edIndex, looksEd) \<Rightarrow>
                    if fEd f then
                      (if fReverse f then usage ReverseWithEd
                       else runEdScript ctx f (if looksEd then edScript else data) origFile edIndex st)
                    else if formatHints f = 0 \<and> looksEd then runEdScript ctx f edScript origFile edIndex st
                    else runParsed ctx f origFile data st))"

text \<open>The state in which a run starts.\<close>

definition startState :: "files \<Rightarrow> (string \<times> string option) list \<Rightarrow> patchState" where
  "startState fs tty =
     \<lparr>psFiles = fs, psOps = [], psTick = 0, psErr = [], psTTY = tty, psNoInputHit = False, psBackedUp = [],
      psIntermediate = [], psRejectStarted = [], psReverse = False, psProbe = True, psHard = False, psAggregate = None\<rparr>"

definition defaultFlags :: patchFlags where
  "defaultFlags =
     \<lparr>fStrip = autoStripSentinel, fStripChanged = False, fReverse = False, fForce = False, fBatch = False,
      fForward = False, fFuzz = 2, fIgnoreWS = False, fRemoveEmpty = False, fQuiet = False, fSilent = False,
      fBackup = False, fOutput = [], fInput = [], fRejectFile = [], fDirectory = [], fUnified = False,
      fContext = False, fNormal = False, fDryRun = False, fEd = False, fIfdef = [], fGet = autoStripSentinel\<rparr>"

end
