(* ===== verification/Patch_Commit.thy ===== *)
theory Patch_Commit
  imports Patch_Run
begin

text \<open>
  What a run of \<open>patch\<close> may do to the file system: which steps only print messages, which files a sequence of calls
  leaves alone, and that a dry run makes no call at all.
\<close>

section \<open>Steps that only talk\<close>

definition talks :: "patchState \<Rightarrow> patchState \<Rightarrow> bool" where
  "talks st st' \<longleftrightarrow> (\<exists>ms tty hit hard.
     st' = st\<lparr>psErr := psErr st @ ms, psTTY := tty, psNoInputHit := hit, psHard := hard\<rparr>)"

lemma talks_refl [simp, intro]: "talks st st"
  unfolding talks_def by (intro exI [of _ "[]"] exI [of _ "psTTY st"] exI [of _ "psNoInputHit st"] exI [of _ "psHard st"]) simp

lemma talks_trans: "talks st st' \<Longrightarrow> talks st' st'' \<Longrightarrow> talks st st''"
  unfolding talks_def by fastforce

lemma talks_fields:
  assumes "talks st st'"
  shows "psFiles st' = psFiles st" "psOps st' = psOps st" "psTick st' = psTick st" "psBackedUp st' = psBackedUp st"
    "psIntermediate st' = psIntermediate st" "psRejectStarted st' = psRejectStarted st" "psReverse st' = psReverse st"
    "psProbe st' = psProbe st" "psAggregate st' = psAggregate st"
  using assms unfolding talks_def by auto

lemma say_talks [simp, intro]: "talks st (say m st)"
  unfolding talks_def say_def
  by (intro exI [of _ "[m]"] exI [of _ "psTTY st"] exI [of _ "psNoInputHit st"] exI [of _ "psHard st"]) simp

lemma hardFailure_talks [simp, intro]: "talks st (hardFailure m st)"
  unfolding talks_def hardFailure_def say_def
  by (intro exI [of _ "[m]"] exI [of _ "psTTY st"] exI [of _ "psNoInputHit st"] exI [of _ True]) simp

lemma askPrompt_talks: "talks st (snd (askPrompt ctx prompt st))"
proof -
  have a: "talks st (say MsgNoInput (st\<lparr>psNoInputHit := True\<rparr>))"
    unfolding talks_def say_def
    by (intro exI [of _ "[MsgNoInput]"] exI [of _ "psTTY st"] exI [of _ True] exI [of _ "psHard st"]) simp
  have b: "talks s (s\<lparr>psTTY := t\<rparr>)" for s t
    unfolding talks_def by (intro exI [of _ "[]"] exI [of _ t] exI [of _ "psNoInputHit s"] exI [of _ "psHard s"]) simp
  show ?thesis
    using a talks_trans [OF say_talks b] by (auto simp: askPrompt_def readPromptLine_def split: list.splits)
qed

lemma chooseTarget_talks:
  assumes "chooseTarget ctx f origFile oldName newName indexName createMode st = (r, st')" shows "talks st st'"
proof -
  obtain a e s where p: "askPrompt ctx ''File to patch: '' st = ((a, e), s)" by (metis surj_pair)
  then have s: "talks st s" using askPrompt_talks [of st ctx "''File to patch: ''"] by simp
  show ?thesis using assms p s talks_trans [OF s hardFailure_talks]
    by (auto simp: chooseTarget_def Let_def split: if_splits prod.splits)
qed

lemma loadTarget_talks:
  assumes "loadTarget ctx path displayName createMode st = (r, st')" shows "talks st st'"
  using assms by (auto simp: loadTarget_def split: option.splits sum.splits if_splits)

lemma askReverse_talks:
  assumes "askReverse ctx st = (yes, st')" shows "talks st st'"
proof -
  obtain a e s where p: "askPrompt ctx reversePrompt st = ((a, e), s)" by (metis surj_pair)
  then have s: "talks st s" using askPrompt_talks [of st ctx reversePrompt] by simp
  show ?thesis using assms p s talks_trans [OF s say_talks]
    by (auto simp: askReverse_def split: sum.splits)
qed

lemma runPolicy_talks:
  assumes "runPolicy ctx old no hs ro cc st = Some (res, rv, st')" shows "talks st st'"
  using assms askReverse_talks [of ctx st]
  by (auto simp: runPolicy_def split: option.splits prod.splits if_splits)

lemma tallyReport_talks: "tallyReport q (t, st) r = (t', st') \<Longrightarrow> talks st st'"
  by (auto simp: tallyReport_def split: HunkOutcome.splits if_splits)

lemma tallyReports_talks: "tallyReports q reps st = (t, st') \<Longrightarrow> talks st st'"
proof -
  have "foldl (tallyReport q) (t0, st0) reps = (t, st') \<Longrightarrow> talks st0 st'" for t0 st0
  proof (induction reps arbitrary: t0 st0)
    case (Cons r reps)
    obtain t1 st1 where s: "tallyReport q (t0, st0) r = (t1, st1)" by fastforce
    then show ?case using Cons talks_trans [OF tallyReport_talks [OF s]] by simp
  qed simp
  then show "tallyReports q reps st = (t, st') \<Longrightarrow> talks st st'" by (simp add: tallyReports_def)
qed

section \<open>Calls and the files they touch\<close>

fun opPaths :: "fsOp \<Rightarrow> string set" where
  "opPaths (MkdirAll d perm) = {}"
| "opPaths (OpenTrunc p perm) = {p}"
| "opPaths (OpenAppend p perm) = {p}"
| "opPaths (WriteData p d) = {p}"
| "opPaths (CloseFile p) = {}"
| "opPaths (CreateTemp p) = {p}"
| "opPaths (Chmod p perm) = {p}"
| "opPaths (Rename p q) = {p, q}"
| "opPaths (RemoveFile p) = {p}"

text \<open>An existing file stays as it is. The number of files is finite, and stays finite.\<close>

definition keeps :: "string \<Rightarrow> patchState \<Rightarrow> patchState \<Rightarrow> bool" where
  "keeps p st st' \<longleftrightarrow> (finite (dom (psFiles st)) \<longrightarrow>
     finite (dom (psFiles st')) \<and> (psFiles st p \<noteq> None \<longrightarrow> psFiles st' p = psFiles st p))"

lemma keeps_refl [simp, intro]: "keeps p st st"
  by (simp add: keeps_def)

lemma keeps_trans: "keeps p st st' \<Longrightarrow> keeps p st' st'' \<Longrightarrow> keeps p st st''"
  by (auto simp: keeps_def)

lemma talks_keeps: "talks st st' \<Longrightarrow> keeps p st st'"
  by (simp add: keeps_def talks_fields)

lemma fsStep_keeps: "p \<notin> opPaths op \<Longrightarrow> fs p \<noteq> None \<Longrightarrow> fsStep op fs p = fs p"
  by (cases op) (auto split: option.splits fsEntry.splits)

lemma fsStep_finite:
  assumes "finite (dom fs)" shows "finite (dom (fsStep op fs))"
proof (cases op)
  case (MkdirAll d perm)
  have "dom (fsStep op fs) \<subseteq> dom fs \<union> set (dirChain d)" by (auto simp: MkdirAll dom_def split: if_splits)
  then show ?thesis using assms finite_subset by (metis List.finite_set finite_UnI)
qed (use assms in \<open>auto simp: dom_fun_upd split: option.splits fsEntry.splits\<close>)

lemma doOp_keeps:
  assumes "doOp ctx op st = (e, st')" "p \<notin> opPaths op" shows "keeps p st st'"
proof -
  have "p \<notin> opPaths op'" if "partialOp n op = Some op'" for n op'
    using that assms(2) by (auto simp: partialOp_def split: fsOp.splits)
  then show ?thesis
    using assms fsStep_keeps [of p] fsStep_finite
    by (auto simp: doOp_def Let_def keeps_def logOp_def split: option.splits)
qed

lemma doOps_keeps:
  assumes "doOps ctx ops st = (e, st')" "\<forall>op \<in> set ops. p \<notin> opPaths op" shows "keeps p st st'"
  using assms
proof (induction ops arbitrary: st)
  case (Cons op ops)
  then show ?case using doOp_keeps keeps_trans
    by (auto split: prod.splits option.splits) blast
qed simp

text \<open>What \<open>os.CreateTemp\<close> guarantees: the name it picks is not in use.\<close>

definition freshTemp :: "patchCtx \<Rightarrow> bool" where
  "freshTemp ctx \<longleftrightarrow> (\<forall>dir pat fs. finite (dom fs) \<longrightarrow> fs (osTempName ctx dir pat fs) = None)"

text \<open>What every call keeps, the compound operations keep.\<close>

lemma doOps_rel:
  assumes "R st" "\<And>s op. R s \<Longrightarrow> R (snd (doOp ctx op s))" shows "R (snd (doOps ctx ops st))"
  using assms(1)
proof (induction ops arbitrary: st)
  case (Cons op ops)
  obtain e s where s: "doOp ctx op st = (e, s)" by fastforce
  have "R s" using assms(2) [OF Cons.prems, of op] s by simp
  then show ?case using s Cons.IH [of s] by (auto split: option.splits)
qed simp

lemma replaceExisting_rel:
  assumes "R st" "\<And>s op. R s \<Longrightarrow> R (snd (doOp ctx op s))" shows "R (snd (replaceExisting ctx src dst st))"
proof -
  obtain e1 st1 where s1: "doOp ctx (Rename src dst) st = (e1, st1)" by fastforce
  define old where "old = osTempName ctx (filepathDir dst) ''.patch-old-*'' (psFiles st1)"
  obtain e2 st2 where s2: "doOps ctx [CreateTemp old, CloseFile old, RemoveFile old, Rename dst old] st1 = (e2, st2)" by fastforce
  obtain e3 st3 where s3: "doOp ctx (Rename src dst) st2 = (e3, st3)" by fastforce
  have r1: "R st1" using assms(2) [OF assms(1), of "Rename src dst"] s1 by simp
  have r2: "R st2" using doOps_rel [of R, OF r1 assms(2), of "[CreateTemp old, CloseFile old, RemoveFile old, Rename dst old]"] s2 by simp
  have r3: "R st3" using assms(2) [OF r2, of "Rename src dst"] s3 by simp
  show ?thesis using s1 s2 s3 r1 r2 r3 assms(2) [OF r3]
    by (auto simp: replaceExisting_def old_def [symmetric] Let_def simp del: doOps.simps split: option.splits)
qed

lemma writeFileContent_rel:
  assumes "R st" "\<And>s op. R s \<Longrightarrow> R (snd (doOp ctx op s))"
  shows "R (snd (writeFileContent ctx path content perm existed st))"
proof (cases existed)
  case True
  define tmp where "tmp = osTempName ctx (filepathDir path) ''.patch-*'' (psFiles st)"
  obtain e1 st1 where s1: "doOp ctx (CreateTemp tmp) st = (e1, st1)" by fastforce
  obtain e2 st2 where s2: "doOps ctx [WriteData tmp content, Chmod tmp perm, CloseFile tmp] st1 = (e2, st2)" by fastforce
  obtain e3 st3 where s3: "replaceExisting ctx tmp path st2 = (e3, st3)" by fastforce
  have r1: "R st1" using assms(2) [OF assms(1), of "CreateTemp tmp"] s1 by simp
  have r2: "R st2" using doOps_rel [of R, OF r1 assms(2), of "[WriteData tmp content, Chmod tmp perm, CloseFile tmp]"] s2 by simp
  have r3: "R st3" using replaceExisting_rel [of R, OF r2 assms(2), of tmp path] s3 by simp
  show ?thesis using True s1 s2 s3 r1 r2 r3 assms(2)
    by (auto simp: writeFileContent_def tmp_def [symmetric] Let_def simp del: doOps.simps split: option.splits)
qed (use doOps_rel [of R, OF assms] in \<open>simp add: writeFileContent_def del: doOps.simps\<close>)

lemma backupFile_rel:
  assumes "R st" "\<And>s op. R s \<Longrightarrow> R (snd (doOp ctx op s))" shows "R (snd (backupFile ctx path st))"
  using assms doOps_rel [of R, OF assms] by (auto simp: backupFile_def Let_def simp del: doOps.simps split: sum.splits)

lemma doOp_finite: "finite (dom (psFiles s)) \<Longrightarrow> finite (dom (psFiles (snd (doOp ctx op s))))"
  by (auto simp: doOp_def Let_def logOp_def fsStep_finite split: option.splits)

lemma calls_finite:
  assumes "finite (dom (psFiles st))"
  shows "finite (dom (psFiles (snd (replaceExisting ctx src dst st))))"
    "finite (dom (psFiles (snd (writeFileContent ctx path content perm existed st))))"
  using replaceExisting_rel [of "\<lambda>s. finite (dom (psFiles s))", OF assms doOp_finite]
    writeFileContent_rel [of "\<lambda>s. finite (dom (psFiles s))", OF assms doOp_finite] by blast+

lemma replaceExisting_keeps:
  assumes "freshTemp ctx" "replaceExisting ctx src dst st = (e, st')" "p \<noteq> src" "p \<noteq> dst"
  shows "keeps p st st'"
proof (cases "finite (dom (psFiles st)) \<and> psFiles st p \<noteq> None")
  case True
  obtain e1 st1 where s1: "doOp ctx (Rename src dst) st = (e1, st1)" by fastforce
  have k1: "keeps p st st1" using doOp_keeps [OF s1] assms by simp
  define old where "old = osTempName ctx (filepathDir dst) ''.patch-old-*'' (psFiles st1)"
  have old: "p \<noteq> old" using k1 True assms(1) unfolding keeps_def old_def freshTemp_def by metis
  obtain e2 st2 where s2: "doOps ctx [CreateTemp old, CloseFile old, RemoveFile old, Rename dst old] st1 = (e2, st2)" by fastforce
  have k2: "keeps p st1 st2" by (rule doOps_keeps [OF s2]) (use assms old in auto)
  obtain e3 st3 where s3: "doOp ctx (Rename src dst) st2 = (e3, st3)" by fastforce
  have k3: "keeps p st2 st3" using doOp_keeps [OF s3] assms by simp
  obtain e4 st4 where s4: "doOp ctx (Rename old dst) st3 = (e4, st4)" by fastforce
  have k4: "keeps p st3 st4" using doOp_keeps [OF s4] assms old by simp
  obtain e5 st5 where s5: "doOp ctx (RemoveFile old) st3 = (e5, st5)" by fastforce
  have k5: "keeps p st3 st5" using doOp_keeps [OF s5] old by simp
  have "st' \<in> {st1, st2, st4, st5}"
    using assms(2) s1 s2 s3 s4 s5 by (auto simp: replaceExisting_def old_def [symmetric] Let_def simp del: doOps.simps split: option.splits)
  then show ?thesis using k1 k2 k3 k4 k5 keeps_trans by blast
qed (use calls_finite(1) [of st ctx src dst] assms(2) in \<open>auto simp: keeps_def\<close>)

lemma writeFileContent_keeps:
  assumes "freshTemp ctx" "writeFileContent ctx path content perm existed st = (e, st')" "p \<noteq> path"
  shows "keeps p st st'"
proof (cases "finite (dom (psFiles st)) \<and> psFiles st p \<noteq> None \<and> existed")
  case False
  then consider "infinite (dom (psFiles st)) \<or> psFiles st p = None" | "\<not> existed" by blast
  then show ?thesis
  proof cases
    case 1
    then show ?thesis using calls_finite(2) [of st ctx path content perm existed] assms(2) by (auto simp: keeps_def)
  next
    case 2
    then show ?thesis using assms doOps_keeps [of ctx _ st e st' p] by (auto simp: writeFileContent_def simp del: doOps.simps)
  qed
next
  case True
  define tmp where "tmp = osTempName ctx (filepathDir path) ''.patch-*'' (psFiles st)"
  have tmp: "p \<noteq> tmp" using True assms(1) unfolding tmp_def freshTemp_def by metis
  obtain e1 st1 where s1: "doOp ctx (CreateTemp tmp) st = (e1, st1)" by fastforce
  have k1: "keeps p st st1" using doOp_keeps [OF s1] tmp by simp
  obtain e2 st2 where s2: "doOps ctx [WriteData tmp content, Chmod tmp perm, CloseFile tmp] st1 = (e2, st2)" by fastforce
  have k2: "keeps p st1 st2" by (rule doOps_keeps [OF s2]) (use tmp in auto)
  obtain e3 st3 where s3: "replaceExisting ctx tmp path st2 = (e3, st3)" by fastforce
  have k3: "keeps p st2 st3" using replaceExisting_keeps [OF assms(1) s3] tmp assms(3) by simp
  have rm: "keeps p s (snd (doOp ctx (RemoveFile tmp) s))" for s
    using doOp_keeps [of ctx "RemoveFile tmp" s _ _ p] tmp by (metis opPaths.simps(9) prod.collapse singletonD)
  have "st' \<in> {st1, snd (doOp ctx (RemoveFile tmp) st2), snd (doOp ctx (RemoveFile tmp) st3), st3}"
    using assms(2) True s1 s2 s3
    by (auto simp: writeFileContent_def tmp_def [symmetric] Let_def simp del: doOps.simps split: option.splits)
  then show ?thesis using k1 k2 k3 rm keeps_trans by blast
qed

lemma backupFile_keeps:
  assumes "backupFile ctx path st = (e, st')" "p \<noteq> path @ ''.orig''" shows "keeps p st st'"
  using assms doOps_keeps [of ctx _ st e st' p]
  by (auto simp: backupFile_def Let_def simp del: doOps.simps split: sum.splits)

lemma backupOnce_keeps:
  assumes "backupOnce ctx path st = (e, st')" "p \<noteq> path @ ''.orig''" shows "keeps p st st'"
  using assms backupFile_keeps [of ctx path st _ _ p]
  by (fastforce simp: backupOnce_def keeps_def split: if_splits prod.splits option.splits)

section \<open>Dry runs\<close>

definition calm :: "patchState \<Rightarrow> patchState \<Rightarrow> bool" where
  "calm st st' \<longleftrightarrow> psFiles st' = psFiles st \<and> psOps st' = psOps st"

lemma calm_refl [simp, intro]: "calm st st"
  by (simp add: calm_def)

lemma calm_trans: "calm st st' \<Longrightarrow> calm st' st'' \<Longrightarrow> calm st st''"
  by (simp add: calm_def)

lemma talks_calm: "talks st st' \<Longrightarrow> calm st st'"
  by (simp add: calm_def talks_fields)

lemma finishFile_dry:
  assumes "fDryRun f" "finishFile ctx f fp path nm tf res cm dm st = (ok, st')" shows "calm st st'"
proof -
  let ?q = "fQuiet f \<or> fSilent f"
  let ?st1 = "if ?q then st else say (MsgVerb (verbOf cm dm) nm (fDryRun f)) st"
  obtain t st2 where t: "tallyReports ?q (Reports res) ?st1 = (t, st2)" by fastforce
  have "talks st st2" using talks_trans [OF _ tallyReports_talks [OF t], of st] by auto
  then have "calm st st2" by (rule talks_calm)
  then show ?thesis using assms t by (auto simp: finishFile_def Let_def calm_def split: if_splits)
qed

lemma applyOneFile_parts:
  assumes "applyOneFile ctx f origFile fp st = Some (ok, st')"
  obtains "talks st st'" "\<not> ok"
  | path nm tf res cm dm st3 st4 where "talks st st3" "st4 = st3 \<or> st4 = st3\<lparr>psReverse := True\<rparr>"
    "finishFile ctx f fp path nm tf res cm dm st4 = (ok, st')"
proof -
  let ?ro = "policyOptions f st"
  define on nn c d where "on = (if roReverse ?ro then NewName fp else OldName fp)"
    and "nn = (if roReverse ?ro then OldName fp else NewName fp)"
    and "c = (on = DevNull \<and> nn \<noteq> DevNull)" and "d = (nn = DevNull \<and> on \<noteq> DevNull)"
  note defs = on_def nn_def c_def d_def
  obtain r1 st1 where s1: "chooseTarget ctx f origFile on nn (IndexName fp) c st = (r1, st1)" by fastforce
  have t1: "talks st st1" by (rule chooseTarget_talks [OF s1])
  note A = assms [unfolded applyOneFile_def Let_def, folded defs, unfolded s1]
  show ?thesis
  proof (cases r1)
    case None
    then show ?thesis using A t1 that(1) by simp
  next
    case (Some pn)
    obtain path nm where pn: "pn = (path, nm)" by fastforce
    obtain r2 st2 where s2: "loadTarget ctx path nm c st1 = (r2, st2)" by fastforce
    have t2: "talks st st2" using talks_trans [OF t1 loadTarget_talks [OF s2]] .
    show ?thesis
    proof (cases r2)
      case None
      then show ?thesis using A Some pn s2 t2 that(1) by simp
    next
      case tf: (Some tf)
      obtain res rv st3 where s3: "runPolicy ctx (tfLines tf) (tfNoEOL tf) (Hunks fp) ?ro (c \<and> (tfLines tf \<noteq> [] \<or> tfNoEOL tf)) st2 = Some (res, rv, st3)"
        using A Some pn s2 tf by (auto split: option.splits)
      have t3: "talks st st3" using talks_trans [OF t2 runPolicy_talks [OF s3]] .
      have "finishFile ctx f fp path nm tf res (if rv then d else c)
          (if rv then c else d) (if rv then st3\<lparr>psReverse := True\<rparr> else st3) = (ok, st')"
        using A Some pn s2 tf s3 by (auto split: if_splits)
      from that(2) [OF t3 _ this] show ?thesis by simp
    qed
  qed
qed

lemma calm_reverse [simp]: "calm st (st\<lparr>psReverse := b\<rparr>)" "calm st (st\<lparr>psAggregate := x\<rparr>)"
  by (simp_all add: calm_def)

lemma applyOneFile_dry:
  assumes "fDryRun f" "applyOneFile ctx f origFile fp st = Some (ok, st')" shows "calm st st'"
  using assms(2)
proof (cases rule: applyOneFile_parts)
  case 1
  then show ?thesis using talks_calm by blast
next
  case (2 path nm tf res cm dm st3 st4)
  have "calm st st4" using talks_calm [OF 2(1)] 2(2) calm_trans by auto
  then show ?thesis using finishFile_dry [OF assms(1) 2(3)] calm_trans by blast
qed

text \<open>A relation every section keeps, the loop over the sections keeps.\<close>

lemma applyFiles_rel:
  assumes "applyFiles ctx f origFile fps tr st = Some (tr', st')" "R st"
    and "\<And>m s. R s \<Longrightarrow> R (hardFailure m s)"
    and "\<And>fp s ok s'. R s \<Longrightarrow> applyOneFile ctx f origFile fp s = Some (ok, s') \<Longrightarrow> R s'"
  shows "R st'"
  using assms(1,2)
proof (induction fps arbitrary: tr st)
  case (Cons fp fps)
  show ?case
  proof (cases "Unsupported fp = []")
    case True
    then obtain ok s where s: "applyOneFile ctx f origFile fp st = Some (ok, s)" "applyFiles ctx f origFile fps (tr \<or> \<not> ok) s = Some (tr', st')"
      using Cons.prems by (auto split: option.splits)
    show ?thesis using Cons.IH [OF s(2)] assms(4) [OF _ s(1)] Cons.prems(2) by blast
  next
    case False
    then have "applyFiles ctx f origFile fps True (hardFailure (MsgUnsupported (filePatchLabel fp) (Unsupported fp)) st) = Some (tr', st')"
      using Cons.prems by simp
    then show ?thesis using Cons.IH assms(3) Cons.prems(2) by blast
  qed
qed simp

lemma applyFiles_dry:
  assumes "fDryRun f" "applyFiles ctx f origFile fps tr st = Some (tr', st')" shows "calm st st'"
  using assms(2)
proof (rule applyFiles_rel)
  show "calm st (hardFailure m s)" if "calm st s" for m s using calm_trans [OF that talks_calm [OF hardFailure_talks]] .
  show "calm st s'" if "calm st s" "applyOneFile ctx f origFile fp s = Some (ok, s')" for fp s ok s'
    using calm_trans [OF that(1) applyOneFile_dry [OF assms(1) that(2)]] .
qed simp

lemma runParsed_dry:
  assumes "fDryRun f" "runParsed ctx f origFile d st = Some (code, st')" shows "calm st st'"
proof -
  have s: "calm st (say m st)" for m using talks_calm say_talks by blast
  have "calm st s'" if "applyFiles ctx f origFile fps False (if fOutput f \<noteq> [] then st\<lparr>psAggregate := Some []\<rparr> else st) = Some (tr, s')" for fps tr s'
    using applyFiles_dry [OF assms(1) that] calm_trans [of st "st\<lparr>psAggregate := Some []\<rparr>" s'] by (auto split: if_splits)
  then show ?thesis using assms s
    by (auto simp: runParsed_def split: sum.splits if_splits option.splits prod.splits)
qed

lemma runEdScript_dry:
  assumes "fDryRun f" "runEdScript ctx f script origFile idx st = Some (code, st')" shows "calm st st'"
proof -
  obtain a e s where p: "askPrompt ctx ''File to patch: '' st = ((a, e), s)" by (metis surj_pair)
  then have s: "calm st s" using talks_calm [OF askPrompt_talks [of st ctx "''File to patch: ''"]] by simp
  have "calm st (say m st)" "calm st (say m s)" for m
    using s calm_trans [OF s talks_calm [OF say_talks]] talks_calm by auto
  then show ?thesis using assms p s
    by (auto simp: runEdScript_def Let_def split: prod.splits option.splits sum.splits if_splits)
qed

lemma runCore_dry:
  assumes "fDryRun f" "runCore ctx f operands inp st = Some (code, st')" shows "calm st st'"
proof -
  have s: "calm st (say m st)" for m using talks_calm say_talks by blast
  show ?thesis using assms s runParsed_dry [OF assms(1)] runEdScript_dry [OF assms(1)]
    unfolding runCore_def Let_def by (auto split: if_splits sum.splits prod.splits)
qed

section \<open>Steps that only call\<close>

definition acts :: "patchState \<Rightarrow> patchState \<Rightarrow> bool" where
  "acts st st' \<longleftrightarrow> (\<exists>fs ops tick. st' = st\<lparr>psFiles := fs, psOps := ops, psTick := tick\<rparr>)"

lemma acts_refl [simp, intro]: "acts st st"
  unfolding acts_def by (intro exI [of _ "psFiles st"] exI [of _ "psOps st"] exI [of _ "psTick st"]) simp

lemma acts_trans: "acts st st' \<Longrightarrow> acts st' st'' \<Longrightarrow> acts st st''"
  unfolding acts_def by fastforce

lemma acts_fields:
  assumes "acts st st'"
  shows "psErr st' = psErr st" "psTTY st' = psTTY st" "psBackedUp st' = psBackedUp st"
    "psIntermediate st' = psIntermediate st" "psRejectStarted st' = psRejectStarted st" "psReverse st' = psReverse st"
    "psProbe st' = psProbe st" "psHard st' = psHard st" "psAggregate st' = psAggregate st" "psNoInputHit st' = psNoInputHit st"
  using assms unfolding acts_def by auto

lemma doOp_acts: "acts st (snd (doOp ctx op st))"
proof -
  have "acts st (logOp op' (st\<lparr>psTick := n\<rparr>))" "acts st (st\<lparr>psTick := n\<rparr>)" for op' n
    unfolding acts_def logOp_def
    by (intro exI [of _ "fsStep op' (psFiles st)"] exI [of _ "op' # psOps st"] exI [of _ n]; simp)
      (intro exI [of _ "psFiles st"] exI [of _ "psOps st"] exI [of _ n]; simp)
  then show ?thesis by (auto simp: doOp_def Let_def split: option.splits)
qed

lemma calls_act:
  "acts st (snd (doOps ctx ops st))" "acts st (snd (writeFileContent ctx path content perm existed st))"
  "acts st (snd (backupFile ctx path st))"
  using doOps_rel [of "acts st" st ctx] writeFileContent_rel [of "acts st" st ctx] backupFile_rel [of "acts st" st ctx]
    acts_trans [OF _ doOp_acts] by blast+

section \<open>The option \<open>-o\<close>\<close>

lemma acts_keeps_fields: "doOps ctx ops st = (e, st') \<Longrightarrow> acts st st'"
  using calls_act(1) [of st ctx ops] by simp

lemma saveRejects_keeps:
  assumes "saveRejects ctx f path fp res failed st = (ok, st')" "p \<noteq> rejectPath ctx f path"
  shows "keeps p st st'" "psAggregate st' = psAggregate st"
proof -
  define ops where "ops = [if rejectPath ctx f path \<in> set (psRejectStarted st) then OpenAppend (rejectPath ctx f path) (createMask ctx defaultMode)
      else OpenTrunc (rejectPath ctx f path) (createMask ctx defaultMode),
    WriteData (rejectPath ctx f path) (WriteRejectFormat [] [] (PatchFormat fp) (Rejects res)), CloseFile (rejectPath ctx f path)]"
  obtain e s where s: "doOps ctx ops st = (e, s)" by fastforce
  have k: "keeps p st s" by (rule doOps_keeps [OF s]) (use assms(2) in \<open>simp add: ops_def\<close>)
  have a: "psAggregate s = psAggregate st" using acts_fields [OF acts_keeps_fields [OF s]] by simp
  have "psFiles st' = psFiles s \<and> psAggregate st' = psAggregate s"
    using assms(1) s unfolding saveRejects_def Let_def ops_def [symmetric]
    by (auto simp: orFail_def hardFailure_def say_def split: option.splits)
  then show "keeps p st st'" "psAggregate st' = psAggregate st" using k a by (simp_all add: keeps_def)
qed

lemma commitFile_output:
  assumes "commitFile ctx f path tf res changed dm st = (ok, st')" "psAggregate st \<noteq> None"
  shows "psFiles st' = psFiles st \<and> psAggregate st' \<noteq> None"
  using assms by (auto simp: commitFile_def Let_def hardFailure_def say_def split: option.splits sum.splits osError.splits)

lemma finishFile_output:
  assumes "finishFile ctx f fp path nm tf res cm dm st = (ok, st')" "psAggregate st \<noteq> None" "p \<noteq> rejectPath ctx f path"
  shows "keeps p st st' \<and> psAggregate st' \<noteq> None"
proof -
  let ?q = "fQuiet f \<or> fSilent f"
  let ?st1 = "if ?q then st else say (MsgVerb (verbOf cm dm) nm (fDryRun f)) st"
  obtain t st2 where t: "tallyReports ?q (Reports res) ?st1 = (t, st2)" by fastforce
  have t2: "talks st st2" using talks_trans [OF _ tallyReports_talks [OF t], of st] by auto
  define st3 where "st3 = (if AllApplied res then st2\<lparr>psProbe := False\<rparr> else st2)"
  have a3: "psFiles st3 = psFiles st" "psAggregate st3 \<noteq> None" using talks_fields [OF t2] assms(2) by (auto simp: st3_def)
  obtain ok4 st4 where s4: "commitFile ctx f path tf res (htChanged t) dm st3 = (ok4, st4)" by fastforce
  have a4: "psFiles st4 = psFiles st" "psAggregate st4 \<noteq> None" using commitFile_output [OF s4 a3(2)] a3(1) by auto
  obtain ok5 st5 where s5: "saveRejects ctx f path fp res (htFailed t) st4 = (ok5, st5)" by fastforce
  have a5: "keeps p st st5" "psAggregate st5 \<noteq> None" using saveRejects_keeps [OF s5 assms(3)] a4 by (simp_all add: keeps_def)
  have "st' \<in> {st3, st4, st5}"
    using assms(1) t s4 s5 unfolding finishFile_def Let_def st3_def by (auto split: if_splits bool.splits)
  then show ?thesis using a3 a4 a5 by (auto simp: keeps_def)
qed

lemma rejectPath_output: "fOutput f \<noteq> [] \<Longrightarrow> rejectPath ctx f path = rejectPath ctx f []"
  by (simp add: rejectPath_def)

lemma applyOneFile_output:
  assumes "applyOneFile ctx f origFile fp st = Some (ok, st')" "psAggregate st \<noteq> None" "fOutput f \<noteq> []" "p \<noteq> rejectPath ctx f []"
  shows "keeps p st st' \<and> psAggregate st' \<noteq> None"
  using assms(1)
proof (cases rule: applyOneFile_parts)
  case 1
  then show ?thesis using talks_keeps talks_fields(9) assms(2) by metis
next
  case (2 path nm tf res cm dm st3 st4)
  have "psFiles st4 = psFiles st" "psAggregate st4 \<noteq> None" using 2(2) talks_fields [OF 2(1)] assms(2) by auto
  then show ?thesis using finishFile_output [OF 2(3), of p] assms(4) rejectPath_output [OF assms(3)] by (auto simp: keeps_def)
qed

definition outputPaths :: "patchCtx \<Rightarrow> patchFlags \<Rightarrow> string set" where
  "outputPaths ctx f =
     (let out = resolveOperandPath ctx (fDirectory f) (fOutput f) in {out, out @ ''.orig'', rejectPath ctx f []})"

lemma backupIf_keeps:
  assumes "backupIf ctx w path st = (ok, st')" "p \<noteq> path @ ''.orig''" shows "keeps p st st'"
  using assms backupOnce_keeps [of ctx path st _ _ p]
  by (auto simp: backupIf_def orFail_def hardFailure_def say_def keeps_def split: if_splits option.splits prod.splits)

lemma orFail_keeps: "orFail m (e, s) = (ok, s') \<Longrightarrow> keeps p st s \<Longrightarrow> keeps p st s'"
  by (auto simp: orFail_def hardFailure_def say_def keeps_def split: option.splits)

lemma writeAggregateOutput_keeps:
  assumes "freshTemp ctx" "writeAggregateOutput ctx f buf st = (ok, st')" "p \<notin> outputPaths ctx f"
  shows "keeps p st st'"
proof -
  let ?out = "resolveOperandPath ctx (fDirectory f) (fOutput f)"
  have p: "p \<noteq> ?out" "p \<noteq> ?out @ ''.orig''" using assms(3) by (auto simp: outputPaths_def Let_def)
  obtain b st1 where s1: "backupIf ctx (fBackup f \<and> \<not> isl (osStat ctx st ?out)) ?out st = (b, st1)" by fastforce
  have k1: "keeps p st st1" by (rule backupIf_keeps [OF s1 p(2)])
  have w: "keeps p st (snd (orFail MsgError (writeFileContent ctx ?out buf perm ex st1)))" for perm ex
  proof -
    obtain e s where s: "writeFileContent ctx ?out buf perm ex st1 = (e, s)" by fastforce
    have k: "keeps p st s" using keeps_trans [OF k1 writeFileContent_keeps [OF assms(1) s p(1)]] .
    show ?thesis unfolding s using orFail_keeps [OF _ k] by (metis prod.collapse)
  qed
  have h: "keeps p st (hardFailure m st)" for m using talks_keeps hardFailure_talks by blast
  have r: "keeps p st s" if "orFail MsgError (writeFileContent ctx ?out buf perm ex st1) = (b', s)" for perm ex b' s
    using w [of perm ex] that by simp
  show ?thesis
  proof (cases "osStat ctx st ?out")
    case (Inl e)
    then show ?thesis using assms(2) s1 k1 h r unfolding writeAggregateOutput_def Let_def
      by (cases e; cases b) auto
  next
    case (Inr fi)
    then show ?thesis using assms(2) s1 k1 r unfolding writeAggregateOutput_def Let_def by (cases b) auto
  qed
qed

lemma runParsed_parts:
  assumes "runParsed ctx f origFile d st = Some (code, st')"
  obtains m where "st' = say m st" "code = 2"
  | fps tr st1 ok where "Parse d = Inr fps"
    "applyFiles ctx f origFile fps False (if fOutput f \<noteq> [] then st\<lparr>psAggregate := Some []\<rparr> else st) = Some (tr, st1)"
    "(case psAggregate st1 of Some buf \<Rightarrow> if \<not> fDryRun f then writeAggregateOutput ctx f buf st1 else (True, st1)
       | None \<Rightarrow> (True, st1)) = (ok, st')"
    "code = (if psHard st' then 2 else if tr \<or> \<not> ok then 1 else 0)"
proof (cases "Parse d")
  case (Inl e)
  then show ?thesis using assms that(1) by (auto simp: runParsed_def)
next
  case (Inr fps)
  show ?thesis
  proof (cases "(case wantFormat f of None \<Rightarrow> None | Some w \<Rightarrow> find (\<lambda>fp. PatchFormat fp \<noteq> w) fps) \<noteq> None \<or>
      fRejectFile f \<noteq> [] \<and> length fps > 1 \<or> origFile \<noteq> [] \<and> length fps > 1")
    case True
    then show ?thesis using assms that(1) unfolding runParsed_def Inr sum.case by (auto split: option.splits if_splits)
  next
    case False
    then obtain tr st1 where a: "applyFiles ctx f origFile fps False (if fOutput f \<noteq> [] then st\<lparr>psAggregate := Some []\<rparr> else st) = Some (tr, st1)"
      using assms unfolding runParsed_def Inr sum.case by (auto split: option.splits if_splits)
    obtain ok st2 where b: "(case psAggregate st1 of Some buf \<Rightarrow> if \<not> fDryRun f then writeAggregateOutput ctx f buf st1 else (True, st1)
       | None \<Rightarrow> (True, st1)) = (ok, st2)" by fastforce
    have "(code, st') = (if psHard st2 then 2 else if tr \<or> \<not> ok then 1 else 0, st2)"
      using assms False a b unfolding runParsed_def Inr sum.case by (auto split: option.splits if_splits)
    then have "code = (if psHard st' then 2 else if tr \<or> \<not> ok then 1 else 0)" "st2 = st'" by auto
    with that(2) [OF Inr a] b show ?thesis by simp
  qed
qed

text \<open>With \<open>-o\<close> the whole run changes no existing file but the output, its backup and the reject file.\<close>

lemma runParsed_output:
  assumes "freshTemp ctx" "runParsed ctx f origFile d st = Some (code, st')" "fOutput f \<noteq> []" "p \<notin> outputPaths ctx f"
  shows "keeps p st st'"
proof -
  have p: "p \<noteq> rejectPath ctx f []" using assms(4) by (simp add: outputPaths_def Let_def)
  have k: "keeps p st s \<and> psAggregate s \<noteq> None"
    if "applyFiles ctx f origFile fps False (st\<lparr>psAggregate := Some []\<rparr>) = Some (tr, s)" for fps tr s
    using that
  proof (rule applyFiles_rel)
    show "keeps p st (st\<lparr>psAggregate := Some []\<rparr>) \<and> psAggregate (st\<lparr>psAggregate := Some []\<rparr>) \<noteq> None" by (simp add: keeps_def)
    show "keeps p st (hardFailure m s) \<and> psAggregate (hardFailure m s) \<noteq> None" if "keeps p st s \<and> psAggregate s \<noteq> None" for m s
      using that by (simp add: keeps_def hardFailure_def say_def)
    show "keeps p st s' \<and> psAggregate s' \<noteq> None"
      if "keeps p st s \<and> psAggregate s \<noteq> None" "applyOneFile ctx f origFile fp s = Some (ok, s')" for fp s ok s'
      using that applyOneFile_output [OF that(2) _ assms(3) p] keeps_trans by blast
  qed
  have w: "keeps p st s'" if "keeps p st s" "writeAggregateOutput ctx f buf s = (ok, s')" for s s' ok buf
    using that writeAggregateOutput_keeps [OF assms(1) that(2) assms(4)] keeps_trans by blast
  from assms(2) show ?thesis
  proof (cases rule: runParsed_parts)
    case (1 m)
    then show ?thesis using talks_keeps say_talks by blast
  next
    case (2 fps tr st1 ok)
    then have "keeps p st st1" using k assms(3) by auto
    then show ?thesis using 2(3) w [of st1] by (auto split: option.splits if_splits)
  qed
qed

lemma finishEd_output:
  assumes "freshTemp ctx" "finishEd ctx f target result rejected st = (code, st')" "fOutput f \<noteq> []" "p \<notin> outputPaths ctx f"
  shows "keeps p st st'"
proof -
  let ?out = "resolveOperandPath ctx (fDirectory f) (fOutput f)"
  let ?ex = "\<not> isl (osStat ctx st ?out)"
  let ?perm = "case osStat ctx st ?out of Inr fi \<Rightarrow> entryPerm fi | Inl e \<Rightarrow> defaultMode"
  have p: "p \<noteq> ?out" "p \<noteq> ?out @ ''.orig''" "p \<noteq> rejectPath ctx f []" using assms(4) by (auto simp: outputPaths_def Let_def)
  obtain e1 st1 where s1: "(if fBackup f \<and> ?ex then backupFile ctx ?out st else (None, st)) = (e1, st1)" by fastforce
  have k1: "keeps p st st1" using s1 backupFile_keeps [of ctx ?out st e1 st1 p] p(2) by (auto split: if_splits)
  obtain e2 st2 where s2: "writeFileContent ctx ?out result ?perm ?ex st1 = (e2, st2)" by fastforce
  have k2: "keeps p st st2" using keeps_trans [OF k1 writeFileContent_keeps [OF assms(1) s2 p(1)]] .
  have sm: "keeps p st (say m s)" if "keeps p st s" for m s using keeps_trans [OF that talks_keeps [OF say_talks]] .
  have rj: "rejectPath ctx f [] = (if fRejectFile f \<noteq> [] then resolveOperandPath ctx (fDirectory f) (fRejectFile f) else ?out @ ''.rej'')"
    using assms(3) by (simp add: rejectPath_def)
  have k3: "keeps p st s" if e: "saveEdRejects ctx f ?out hs st2 = (c, s)" for hs c s
  proof -
    let ?ops = "[OpenTrunc (rejectPath ctx f []) (createMask ctx defaultMode),
      WriteData (rejectPath ctx f []) (WriteRejectFormat [] [] FormatNormal hs), CloseFile (rejectPath ctx f [])]"
    obtain e3 st3 where s3: "doOps ctx ?ops st2 = (e3, st3)" by fastforce
    have "keeps p st2 st3" by (rule doOps_keeps [OF s3]) (use p(3) in auto)
    then show ?thesis using e s3 sm keeps_trans [OF k2] unfolding saveEdRejects_def Let_def rj [symmetric]
      by (auto split: option.splits)
  qed
  have "finishEd ctx f target result rejected st =
      (case (e1, st1) of (Some e, st1) \<Rightarrow> (2, say (MsgBackup e) st1)
       | (None, st1) \<Rightarrow> (case (e2, st2) of (Some e, st2) \<Rightarrow> (2, say (MsgError e) st2)
           | (None, st2) \<Rightarrow> (case rejected of None \<Rightarrow> (0, st2) | Some (hs, applied) \<Rightarrow> saveEdRejects ctx f ?out hs st2)))"
    unfolding s1 [symmetric] s2 [symmetric] using s1 by (simp add: finishEd_def Let_def assms(3) split: option.splits)
  then show ?thesis using assms(2) sm [OF k1] sm [OF k2] k2 by (auto split: option.splits dest: sym intro: k3)
qed

lemma runEdScript_output:
  assumes "freshTemp ctx" "runEdScript ctx f script origFile idx st = Some (code, st')" "fOutput f \<noteq> []" "p \<notin> outputPaths ctx f"
  shows "keeps p st st'"
proof -
  obtain a e s where q: "(if edTarget ctx f origFile idx st = [] then askPrompt ctx ''File to patch: '' st
      else ((edTarget ctx f origFile idx st, None), st)) = ((a, e), s)" by (metis surj_pair)
  then have s: "keeps p st s" using talks_keeps [OF askPrompt_talks [of st ctx "''File to patch: ''"]] by (auto split: if_splits)
  have sm: "keeps p st (say m s)" for m using keeps_trans [OF s talks_keeps [OF say_talks]] .
  have fe: "keeps p st s'" if "finishEd ctx f target result rejected s = (code, s')" for target result rejected s'
    using keeps_trans [OF s finishEd_output [OF assms(1) that assms(3,4)]] .
  show ?thesis using assms(2) s sm fe unfolding runEdScript_def Let_def q
    by (auto split: if_splits option.splits sum.splits)
qed

lemma runCore_output:
  assumes "freshTemp ctx" "runCore ctx f operands inp st = Some (code, st')" "fOutput f \<noteq> []" "p \<notin> outputPaths ctx f"
  shows "keeps p st st'"
proof -
  have s: "keeps p st (say m st)" for m using talks_keeps say_talks by blast
  show ?thesis using assms s runParsed_output [OF assms(1)] runEdScript_output [OF assms(1)]
    unfolding runCore_def Let_def by (auto split: if_splits sum.splits prod.splits)
qed

end
