(* ===== verification/Patch_Atomic.thy ===== *)
theory Patch_Atomic
  imports Patch_Commit
begin

text \<open>
  How \<open>writeFileContent\<close> and \<open>replaceExisting\<close> of \<open>src/cmds/patch/patch.go\<close> replace an existing file: every state
  between two calls of the operating system is inspected, with any call failing at any time.
\<close>

section \<open>The states between two calls\<close>

text \<open>From \<open>st\<close> to \<open>s\<close> only logged calls were made, and every state on the way satisfies \<open>P\<close>.\<close>

definition trail :: "(files \<Rightarrow> bool) \<Rightarrow> patchState \<Rightarrow> patchState \<Rightarrow> bool" where
  "trail P st s \<longleftrightarrow> (\<exists>new. psOps s = new @ psOps st \<and> psFiles s = foldr fsStep new (psFiles st) \<and>
     (\<forall>suf. suffix suf new \<longrightarrow> P (foldr fsStep suf (psFiles st))))"

lemma trail_refl: "P (psFiles st) \<Longrightarrow> trail P st st"
  unfolding trail_def by (rule exI [of _ "[]"]) simp

lemma trail_last: "trail P st s \<Longrightarrow> P (psFiles s)"
  unfolding trail_def by (metis suffix_order.refl)

lemma doOp_cases:
  assumes "doOp ctx op s = (e, s')"
  shows "e = None \<and> psFiles s' = fsStep op (psFiles s) \<and> psOps s' = op # psOps s \<or>
    e \<noteq> None \<and> psFiles s' = psFiles s \<and> psOps s' = psOps s \<or>
    e \<noteq> None \<and> (\<exists>p d n. op = WriteData p d \<and> psFiles s' = fsStep (WriteData p (take n d)) (psFiles s) \<and>
      psOps s' = WriteData p (take n d) # psOps s)"
  using assms by (auto simp: doOp_def Let_def logOp_def partialOp_def split: option.splits fsOp.splits)

lemma trail_log:
  assumes "trail P st s" "psFiles s' = fsStep op (psFiles s)" "psOps s' = op # psOps s" "P (psFiles s')"
  shows "trail P st s'"
proof -
  obtain new where n: "psOps s = new @ psOps st" "psFiles s = foldr fsStep new (psFiles st)"
    "\<forall>suf. suffix suf new \<longrightarrow> P (foldr fsStep suf (psFiles st))"
    using assms(1) by (auto simp: trail_def)
  show ?thesis unfolding trail_def using n assms(2-4) by (intro exI [of _ "op # new"]) (auto simp: suffix_Cons)
qed

lemma trail_same:
  assumes "trail P st s" "psFiles s' = psFiles s" "psOps s' = psOps s" shows "trail P st s'"
  using assms by (simp add: trail_def)

lemma doOp_trail:
  assumes "trail P st s" "doOp ctx op s = (e, s')" "P (psFiles s')" shows "trail P st s'"
  using doOp_cases [OF assms(2)] trail_log [OF assms(1) _ _ assms(3)] trail_same [OF assms(1)] by blast

lemma doOp_path:
  assumes "doOp ctx op s = (e, s')" "p \<notin> opPaths op" "psFiles s p = Some x" shows "psFiles s' p = Some x"
proof -
  have "p \<notin> opPaths op'" if "partialOp n op = Some op'" for n op'
    using that assms(2) by (auto simp: partialOp_def split: fsOp.splits)
  then show ?thesis
    using assms fsStep_keeps [of p] by (auto simp: doOp_def Let_def logOp_def split: option.splits)
qed

lemma doOps_path:
  assumes "doOps ctx ops s = (e, s')" "\<forall>op \<in> set ops. p \<notin> opPaths op" "psFiles s p = Some x"
    "trail P st s" "\<And>fs. fs p = Some x \<Longrightarrow> P fs"
  shows "psFiles s' p = Some x" "trail P st s'"
proof -
  have "psFiles s' p = Some x \<and> trail P st s'"
    using assms(1-4)
  proof (induction ops arbitrary: s)
    case (Cons op ops)
    obtain e1 s1 where s1: "doOp ctx op s = (e1, s1)" by fastforce
    have p: "psFiles s1 p = Some x" using doOp_path [OF s1] Cons.prems(2,3) by simp
    have t: "trail P st s1" using doOp_trail [OF Cons.prems(4) s1] assms(5) [of "psFiles s1"] p by blast
    show ?case using Cons.prems(1,2) s1 p t Cons.IH [of s1] by (auto split: option.splits)
  qed simp
  then show "psFiles s' p = Some x" "trail P st s'" by auto
qed

lemma doOps_ok: "doOps ctx ops s = (None, s') \<Longrightarrow> psFiles s' = fold fsStep ops (psFiles s)"
proof (induction ops arbitrary: s)
  case (Cons op ops)
  obtain e1 s1 where s1: "doOp ctx op s = (e1, s1)" by fastforce
  then show ?case using Cons doOp_cases [OF s1] by (auto split: option.splits)
qed simp

section \<open>Replacing a file\<close>

text \<open>
  The path holds the old content or the new one; or it holds nothing, and the old content is kept under
  another name (between the two renames of the fallback).
\<close>

definition safeAt :: "string \<Rightarrow> string \<Rightarrow> string \<Rightarrow> files \<Rightarrow> bool" where
  "safeAt path old new fs \<longleftrightarrow>
     (case fs path of
        Some (FsFile c m) \<Rightarrow> c = old \<or> c = new
      | Some (FsDir m) \<Rightarrow> False
      | None \<Rightarrow> \<exists>q m. fs q = Some (FsFile old m))"

lemma safeAt_old: "fs path = Some (FsFile old m) \<Longrightarrow> safeAt path old new fs"
  by (simp add: safeAt_def)

lemma safeAt_new: "fs path = Some (FsFile new m) \<Longrightarrow> safeAt path old new fs"
  by (simp add: safeAt_def)

lemma safeAt_moved: "fs path = None \<Longrightarrow> fs q = Some (FsFile old m) \<Longrightarrow> safeAt path old new fs"
  by (auto simp: safeAt_def)

lemma freshTemp_neq:
  assumes "freshTemp ctx" "finite (dom fs)" "fs p = Some x" shows "osTempName ctx dir pat fs \<noteq> p"
  using assms unfolding freshTemp_def by (metis option.distinct(1))

lemma remove_trail:
  assumes "trail (safeAt path old new) st s" "t \<noteq> path" "\<And>fs. psFiles s path = None \<Longrightarrow> \<exists>q m. q \<noteq> t \<and> psFiles s q = Some (FsFile old m)"
  shows "trail (safeAt path old new) st (snd (doOp ctx (RemoveFile t) s))"
proof -
  obtain e s' where s': "doOp ctx (RemoveFile t) s = (e, s')" by fastforce
  have sa: "safeAt path old new (psFiles s)" by (rule trail_last [OF assms(1)])
  have "safeAt path old new (psFiles s')"
  proof (cases "psFiles s path")
    case None
    then obtain q m where q: "q \<noteq> t" "psFiles s q = Some (FsFile old m)" using assms(3) by blast
    have "psFiles s' q = Some (FsFile old m)" using doOp_path [OF s' _ q(2)] q(1) by simp
    moreover have "psFiles s' path = None" using doOp_cases [OF s'] None by auto
    ultimately show ?thesis using safeAt_moved [of "psFiles s'" path q old m new] by blast
  next
    case (Some x)
    then have "psFiles s' path = Some x" using doOp_path [OF s' _ Some] assms(2) by simp
    then show ?thesis using sa Some by (simp add: safeAt_def)
  qed
  then show ?thesis using doOp_trail [OF assms(1) s'] s' by simp
qed

lemma replaceExisting_safe:
  assumes "freshTemp ctx" "finite (dom (psFiles s))" "replaceExisting ctx src dst s = (e, s')"
    "trail (safeAt dst old new) st s" "psFiles s dst = Some (FsFile old m)" "psFiles s src = Some (FsFile new perm)" "src \<noteq> dst"
  shows "trail (safeAt dst old new) st s'" "e = None \<Longrightarrow> psFiles s' dst = Some (FsFile new perm)"
    "e = None \<Longrightarrow> psFiles s' src = None"
    "psFiles s' dst = None \<Longrightarrow> \<exists>q m. q \<noteq> src \<and> psFiles s' q = Some (FsFile old m)"
proof -
  let ?P = "safeAt dst old new"
  obtain e1 s1 where s1: "doOp ctx (Rename src dst) s = (e1, s1)" by fastforce
  have goal: "trail ?P st s' \<and> (e = None \<longrightarrow> psFiles s' dst = Some (FsFile new perm) \<and> psFiles s' src = None) \<and>
    (psFiles s' dst = None \<longrightarrow> (\<exists>q m. q \<noteq> src \<and> psFiles s' q = Some (FsFile old m)))"
  proof (cases e1)
    case None
    then have f: "psFiles s1 dst = Some (FsFile new perm)" "psFiles s1 src = None"
      using doOp_cases [OF s1] assms(6,7) by auto
    have "s' = s1" "e = None" using assms(3) s1 None by (simp_all add: replaceExisting_def)
    then show ?thesis using f doOp_trail [OF assms(4) s1] safeAt_new [of "psFiles s1" dst new perm old] by simp
  next
    case (Some x)
    then have f1: "psFiles s1 = psFiles s" "psOps s1 = psOps s" using doOp_cases [OF s1] by auto
    have t1: "trail ?P st s1" by (rule trail_same [OF assms(4) f1])
    define q where "q = osTempName ctx (filepathDir dst) ''.patch-old-*'' (psFiles s1)"
    have q: "q \<noteq> dst" "q \<noteq> src"
      using freshTemp_neq [OF assms(1), of "psFiles s1"] f1 assms(2,5,6) by (auto simp: q_def)
    have unf: "replaceExisting ctx src dst s =
        (case doOps ctx [CreateTemp q, CloseFile q, RemoveFile q, Rename dst q] s1 of
           (Some e, st2) \<Rightarrow> (Some e, st2)
         | (None, st2) \<Rightarrow>
             (case doOp ctx (Rename src dst) st2 of
                (Some e, st3) \<Rightarrow> (Some e, snd (doOp ctx (Rename q dst) st3))
              | (None, st3) \<Rightarrow> doOp ctx (RemoveFile q) st3))"
      unfolding replaceExisting_def s1 Some prod.case option.case Let_def q_def ..
    let ?ops = "[CreateTemp q, CloseFile q, RemoveFile q]"
    have d1: "psFiles s1 dst = Some (FsFile old m)" "psFiles s1 src = Some (FsFile new perm)" using f1 assms(5,6) by auto
    obtain e2 s2 where s2: "doOps ctx ?ops s1 = (e2, s2)" by fastforce
    have n: "\<forall>op \<in> set ?ops. dst \<notin> opPaths op" "\<forall>op \<in> set ?ops. src \<notin> opPaths op" using q by auto
    have d2: "psFiles s2 dst = Some (FsFile old m)" and t2: "trail ?P st s2"
      using doOps_path [OF s2 n(1) d1(1) t1] safeAt_old [of _ dst old m new] by blast+
    have r2: "psFiles s2 src = Some (FsFile new perm)"
      using doOps_path(1) [OF s2 n(2) d1(2) trail_refl [of "\<lambda>_. True"]] by simp
    obtain e3 s3 where s3: "doOp ctx (Rename dst q) s2 = (e3, s3)" by fastforce
    have s23: "doOps ctx [CreateTemp q, CloseFile q, RemoveFile q, Rename dst q] s1 = (if e2 = None then (e3, s3) else (e2, s2))"
      using s2 s3 by (auto split: prod.splits option.splits)
    show ?thesis
    proof (cases "e2 = None \<and> e3 = None")
      case False
      have f3: "e3 \<noteq> None \<Longrightarrow> psFiles s3 = psFiles s2 \<and> psOps s3 = psOps s2" using doOp_cases [OF s3] by auto
      have "e \<noteq> None \<and> (s' = s2 \<or> e3 \<noteq> None \<and> s' = s3)"
        using assms(3) False unfolding unf s23 by (auto split: option.splits if_splits)
      then show ?thesis using t2 d2 f3 trail_same [OF t2] by auto
    next
      case True
      then have f3: "psFiles s3 = (psFiles s2)(q := psFiles s2 dst, dst := None)" using doOp_cases [OF s3] by auto
      have v3: "psFiles s3 dst = None" "psFiles s3 q = Some (FsFile old m)" "psFiles s3 src = Some (FsFile new perm)"
        using f3 d2 r2 q assms(7) by auto
      have t3: "trail ?P st s3" using doOp_trail [OF t2 s3] safeAt_moved [of "psFiles s3" dst q old m new] v3 by blast
      obtain e4 s4 where s4: "doOp ctx (Rename src dst) s3 = (e4, s4)" by fastforce
      obtain e5 s5 where s5: "doOp ctx (Rename q dst) s4 = (e5, s5)" by fastforce
      obtain e6 s6 where s6: "doOp ctx (RemoveFile q) s4 = (e6, s6)" by fastforce
      have r: "(e, s') = (if e4 = None then (e6, s6) else (e4, s5))"
        using assms(3) True s4 s5 s6 unfolding unf s23 by (auto split: option.splits if_splits)
      show ?thesis
      proof (cases e4)
        case None
        then have v4: "psFiles s4 dst = Some (FsFile new perm)" "psFiles s4 src = None"
          using doOp_cases [OF s4] v3 assms(7) by auto
        have t4: "trail ?P st s4" using doOp_trail [OF t3 s4] safeAt_new [of "psFiles s4" dst new perm old] v4 by blast
        have v6: "psFiles s6 dst = Some (FsFile new perm)" using doOp_path [OF s6 _ v4(1)] q by simp
        moreover have "psFiles s6 src = None" using doOp_cases [OF s6] v4(2) by auto
        ultimately show ?thesis using r None doOp_trail [OF t4 s6] safeAt_new [of "psFiles s6" dst new perm old] v6 by simp
      next
        case e4: (Some y)
        then have f4: "psFiles s4 = psFiles s3" "psOps s4 = psOps s3" using doOp_cases [OF s4] by auto
        have t4: "trail ?P st s4" by (rule trail_same [OF t3 f4])
        have "psFiles s5 = (psFiles s3)(dst := Some (FsFile old m), q := None) \<or> psFiles s5 = psFiles s3"
          using doOp_cases [OF s5] f4 v3 by auto
        then have v5: "psFiles s5 dst = Some (FsFile old m) \<or> psFiles s5 dst = None \<and> psFiles s5 q = Some (FsFile old m)"
          using v3 q by auto
        then have "?P (psFiles s5)" using safeAt_old [of "psFiles s5" dst old m new] safeAt_moved [of "psFiles s5" dst q old m new] by blast
        then have "trail ?P st s5" by (rule doOp_trail [OF t4 s5])
        then show ?thesis using r e4 v5 q(2) by auto
      qed
    qed
  qed
  then show "trail ?P st s'" "e = None \<Longrightarrow> psFiles s' dst = Some (FsFile new perm)" "e = None \<Longrightarrow> psFiles s' src = None"
    "psFiles s' dst = None \<Longrightarrow> \<exists>q m. q \<noteq> src \<and> psFiles s' q = Some (FsFile old m)" by auto
qed

lemma writeFileContent_safe:
  assumes "freshTemp ctx" "finite (dom (psFiles st))" "psFiles st path = Some (FsFile old m)"
    "writeFileContent ctx path new perm True st = (e, st')"
  shows "trail (safeAt path old new) st st' \<and> (e = None \<longrightarrow> psFiles st' path = Some (FsFile new perm))"
proof -
  let ?P = "safeAt path old new"
  define tmp where "tmp = osTempName ctx (filepathDir path) ''.patch-*'' (psFiles st)"
  have tmp: "tmp \<noteq> path" using freshTemp_neq [OF assms(1-3)] by (simp add: tmp_def)
  have t0: "trail ?P st st" using trail_refl [of ?P st] safeAt_old [of "psFiles st" path old m new] assms(3) by blast
  obtain e1 s1 where s1: "doOp ctx (CreateTemp tmp) st = (e1, s1)" by fastforce
  have d1: "psFiles s1 path = Some (FsFile old m)" using doOp_path [OF s1 _ assms(3)] tmp by simp
  have t1: "trail ?P st s1" using doOp_trail [OF t0 s1] safeAt_old [of "psFiles s1" path old m new] d1 by blast
  let ?ops = "[WriteData tmp new, Chmod tmp perm, CloseFile tmp]"
  obtain e2 s2 where s2: "doOps ctx ?ops s1 = (e2, s2)" by fastforce
  have n: "\<forall>op \<in> set ?ops. path \<notin> opPaths op" using tmp by auto
  have d2: "psFiles s2 path = Some (FsFile old m)" and t2: "trail ?P st s2"
    using doOps_path [OF s2 n d1 t1] safeAt_old [of _ path old m new] by blast+
  have fin: "finite (dom (psFiles s2))"
    using doOp_keeps [OF s1, of path] doOps_keeps [OF s2 n] assms(2) tmp by (auto simp: keeps_def)
  obtain e3 s3 where s3: "replaceExisting ctx tmp path s2 = (e3, s3)" by fastforce
  have rm2: "trail ?P st (snd (doOp ctx (RemoveFile tmp) s2))" by (rule remove_trail [OF t2 tmp]) (simp add: d2)
  have w: "(e, st') = (if e1 \<noteq> None then (e1, s1) else if e2 \<noteq> None then (e2, snd (doOp ctx (RemoveFile tmp) s2))
      else if e3 \<noteq> None then (e3, snd (doOp ctx (RemoveFile tmp) s3)) else (e3, s3))"
    using assms(4) s1 s2 s3 unfolding writeFileContent_def tmp_def [symmetric] Let_def
    by (auto simp del: doOps.simps split: option.splits)
  show ?thesis
  proof (cases "e1 = None \<and> e2 = None")
    case True
    then have "psFiles s1 = (psFiles st)(tmp \<mapsto> FsFile [] 0x180)" using doOp_cases [OF s1] by auto
    then have r2: "psFiles s2 tmp = Some (FsFile new perm)" using doOps_ok [of ctx ?ops s1 s2] s2 True by (simp add: appendData_def del: doOps.simps)
    note R = replaceExisting_safe [OF assms(1) fin s3 t2 d2 r2 tmp]
    have "trail ?P st (snd (doOp ctx (RemoveFile tmp) s3))" by (rule remove_trail [OF R(1) tmp]) (use R(4) in blast)
    then show ?thesis using w True R(1,2) by (auto split: if_splits)
  qed (use w t1 rm2 in \<open>auto split: if_splits\<close>)
qed

section \<open>A runtime to try things on\<close>

text \<open>Temporary names are a number of zeros, the least that is not in use.\<close>

definition demoTemp :: "string \<Rightarrow> string \<Rightarrow> files \<Rightarrow> string" where
  "demoTemp dir pat fs = replicate (LEAST n. fs (replicate n CHR ''0'') = None) CHR ''0''"

lemma demoTemp_code [code]:
  "demoTemp dir pat fs = (if fs [] = None then [] else if fs ''0'' = None then ''0'' else demoTemp dir pat fs)"
proof -
  have "(LEAST n. fs (replicate n CHR ''0'') = None) = 0" if "fs [] = None"
    using that by (intro Least_equality) simp_all
  moreover have "(LEAST n. fs (replicate n CHR ''0'') = None) = 1" if "fs [] \<noteq> None" "fs ''0'' = None"
  proof (intro Least_equality)
    show "1 \<le> n" if n: "fs (replicate n CHR ''0'') = None" for n
      using n \<open>fs [] \<noteq> None\<close> by (cases n) simp_all
  qed (use that in simp)
  ultimately show ?thesis by (simp add: demoTemp_def)
qed

lemma demoTemp_fresh: "finite (dom fs) \<Longrightarrow> fs (demoTemp dir pat fs) = None"
proof -
  assume fin: "finite (dom fs)"
  have "inj (\<lambda>n. replicate n CHR ''0'')" by (rule injI) (metis length_replicate)
  then have "infinite (range (\<lambda>n. replicate n CHR ''0''))" using finite_imageD infinite_UNIV_nat by blast
  then have "\<not> range (\<lambda>n. replicate n CHR ''0'') \<subseteq> dom fs" using fin finite_subset by blast
  then have "\<exists>n. fs (replicate n CHR ''0'') = None" by (auto simp: domIff)
  then show ?thesis unfolding demoTemp_def by (rule LeastI_ex)
qed

definition demoCtx :: patchCtx where
  "demoCtx =
     \<lparr>pcDir = \<lparr>rcDir = [], rcDirIsCwd = False\<rparr>, pcUmask = None, osUmask = 0x12, pcNoInput = False,
      osFault = (\<lambda>n op. None), osPartial = (\<lambda>n op. 0), osStatFault = (\<lambda>n p. None), osReadFault = (\<lambda>n p. None),
      osTempName = demoTemp, matchAffirmative = (\<lambda>s. Inr (hasPrefix s ''y''))\<rparr>"

lemma demoCtx_fresh: "freshTemp demoCtx" "freshTemp (demoCtx\<lparr>osFault := g, osPartial := h\<rparr>)"
  using demoTemp_fresh by (simp_all add: freshTemp_def demoCtx_def)

definition demoFiles :: files where
  "demoFiles = [''f'' \<mapsto> FsFile (unlines [''x'', ''y'']) 0x1A4, ''g'' \<mapsto> FsFile (unlines [''z'']) 0x1A4]"

lemma demoFiles_finite: "finite (dom demoFiles)"
  by (simp add: demoFiles_def)

section \<open>Property\<close>

text \<open>C5: Replacing an existing file never loses it: whatever calls fail, in every state between two
  calls the path holds the whole old content or the whole new content, or it holds nothing while the old content
  is kept under another name; and when no error is returned it holds the new content with the mode asked for.\<close>

theorem writeFileContent_atomic:
  assumes "freshTemp ctx" "finite (dom (psFiles st))" "psFiles st path = Some (FsFile old m)"
    "writeFileContent ctx path new perm True st = (e, st')"
  shows "(\<exists>ops. psOps st' = ops @ psOps st \<and> psFiles st' = foldr fsStep ops (psFiles st) \<and>
      (\<forall>suf. suffix suf ops \<longrightarrow> safeAt path old new (foldr fsStep suf (psFiles st)))) \<and>
    (e = None \<longrightarrow> psFiles st' path = Some (FsFile new perm))"
  using writeFileContent_safe [OF assms] by (simp add: trail_def)

text \<open>A disk that fails every rename.\<close>

definition noRename :: "nat \<Rightarrow> fsOp \<Rightarrow> string option" where
  "noRename n op = (case op of Rename p q \<Rightarrow> Some ''cross-device link'' | _ \<Rightarrow> None)"

theorem writeFileContent_atomic_witness:
  "\<exists>e st'. writeFileContent (demoCtx\<lparr>osFault := noRename, osPartial := \<lambda>n op. 1\<rparr>) ''f'' ''new'' 0x1A4 True (startState demoFiles []) = (e, st') \<and>
    (\<exists>ops. psOps st' = ops \<and> psFiles st' = foldr fsStep ops demoFiles \<and>
      (\<forall>suf. suffix suf ops \<longrightarrow> safeAt ''f'' (unlines [''x'', ''y'']) ''new'' (foldr fsStep suf demoFiles)))"
proof -
  let ?ctx = "demoCtx\<lparr>osFault := noRename, osPartial := \<lambda>n op. 1\<rparr>"
  obtain e st' where w: "writeFileContent ?ctx ''f'' ''new'' 0x1A4 True (startState demoFiles []) = (e, st')" by fastforce
  have "finite (dom (psFiles (startState demoFiles [])))" "psFiles (startState demoFiles []) ''f'' = Some (FsFile (unlines [''x'', ''y'']) 0x1A4)"
    using demoFiles_finite by (simp_all add: startState_def demoFiles_def)
  from writeFileContent_atomic [OF demoCtx_fresh(2) this w] show ?thesis using w by (auto simp: startState_def)
qed

end
