(* ===== verification/Patch_Applied.thy ===== *)
theory Patch_Applied
  imports Patch_Atomic
begin

text \<open>
  Runs of \<open>patch\<close> that succeed: on a disk without faults a patch whose hunks fit, or an ed script that applies, leaves
  exactly the patched file behind (and the backup \<open>-b\<close> asks for).
\<close>

section \<open>Calls that succeed\<close>

definition healthy :: "patchCtx \<Rightarrow> bool" where
  "healthy ctx \<longleftrightarrow> (\<forall>n op. osFault ctx n op = None) \<and> (\<forall>n p. osStatFault ctx n p = None) \<and> (\<forall>n p. osReadFault ctx n p = None)"

lemma doOp_healthy: "healthy ctx \<Longrightarrow> doOp ctx op st = (None, logOp op (st\<lparr>psTick := psTick st + 1\<rparr>))"
  by (simp add: doOp_def healthy_def)

lemma doOps_healthy:
  assumes "healthy ctx" shows "\<exists>st'. doOps ctx ops st = (None, st') \<and> psFiles st' = fold fsStep ops (psFiles st) \<and> acts st st'"
proof -
  obtain e st' where d: "doOps ctx ops st = (e, st')" by fastforce
  have "e = None" using d by (induction ops arbitrary: st) (auto simp: doOp_healthy [OF assms])
  then show ?thesis using d doOps_ok [of ctx ops st st'] calls_act(1) [of st ctx ops] by simp
qed

lemma writeFileContent_healthy:
  assumes "healthy ctx" "freshTemp ctx" "finite (dom (psFiles st))" "psFiles st path = Some (FsFile old m)"
  shows "\<exists>st'. writeFileContent ctx path new perm True st = (None, st') \<and>
    psFiles st' = (psFiles st)(path \<mapsto> FsFile new perm) \<and> acts st st'"
proof -
  define tmp where "tmp = osTempName ctx (filepathDir path) ''.patch-*'' (psFiles st)"
  have tmp: "tmp \<noteq> path" "psFiles st tmp = None"
    using freshTemp_neq [OF assms(2-4)] assms(2,3) by (simp_all add: tmp_def freshTemp_def)
  have one: "\<exists>s'. doOp ctx op s = (None, s') \<and> psFiles s' = fsStep op (psFiles s)" for op s
    using doOp_healthy [OF assms(1), of op s] by (simp add: logOp_def)
  obtain s1 where s1: "doOp ctx (CreateTemp tmp) st = (None, s1)" "psFiles s1 = (psFiles st)(tmp \<mapsto> FsFile [] 0x180)"
    using one [of "CreateTemp tmp" st] by auto
  obtain s2 where s2: "doOps ctx [WriteData tmp new, Chmod tmp perm, CloseFile tmp] s1 = (None, s2)"
    "psFiles s2 = fold fsStep [WriteData tmp new, Chmod tmp perm, CloseFile tmp] (psFiles s1)"
    using doOps_healthy [OF assms(1)] by metis
  have f2: "psFiles s2 = (psFiles st)(tmp \<mapsto> FsFile new perm)" using s2(2) s1(2) by (simp add: appendData_def)
  obtain s3 where s3: "doOp ctx (Rename tmp path) s2 = (None, s3)" "psFiles s3 = fsStep (Rename tmp path) (psFiles s2)"
    using one by blast
  have w: "writeFileContent ctx path new perm True st = (None, s3)"
    unfolding writeFileContent_def tmp_def [symmetric] Let_def using s1(1) s2(1) s3(1)
    by (simp add: replaceExisting_def del: doOps.simps)
  have "psFiles s3 = (psFiles st)(path \<mapsto> FsFile new perm)"
    using s3(2) f2 tmp by (auto simp: fun_eq_iff)
  then show ?thesis using w calls_act(2) [of st ctx path new perm True] by auto
qed

section \<open>Hunks that fit\<close>

text \<open>The options under which a patch is applied forwards, and backwards.\<close>

definition forwardRun :: "runOptions \<Rightarrow> bool" where
  "forwardRun ro = (\<not> roReverse ro \<and> \<not> Reverse (roApplyOpts ro) \<and> roDefine ro = [])"

definition reverseRun :: "runOptions \<Rightarrow> bool" where
  "reverseRun ro = (roReverse ro \<and> Reverse (roApplyOpts ro) \<and> roDefine ro = [])"

definition appliedAll :: "Result \<Rightarrow> bool" where
  "appliedAll r \<longleftrightarrow> Reports r \<noteq> [] \<and> list_all (\<lambda>rep. Outcome rep = HunkApplied) (Reports r)"

lemma runPolicy_forward:
  assumes "fitHunks 0 0 old hs new rest" "fits old" "forwardRun ro" "hs \<noteq> []"
  shows "\<exists>r. runPolicy ctx old oldNo hs ro False st = Some (r, False, st) \<and> ResLines r = new \<and>
    appliedAll r \<and> NoFinalNewline r = finalEOL oldNo hs rest"
proof -
  let ?opts = "if roForce ro \<or> roBatch ro \<or> roForward ro then roApplyOpts ro
    else (roApplyOpts ro)\<lparr>Force := True\<rparr>"
  have "\<not> Reverse ?opts" using assms(3) by (simp add: forwardRun_def)
  then obtain r where r: "Apply old oldNo hs ?opts = Some r" "ResLines r = new" "length (Reports r) = length hs"
    "list_all (\<lambda>rep. Outcome rep = HunkApplied) (Reports r)" "NoFinalNewline r = finalEOL oldNo hs rest"
    using Apply_fit [OF assms(1,2), of ?opts oldNo] by blast
  have ne: "Reports r \<noteq> []" "Outcome (hd (Reports r)) \<noteq> HunkFailed"
    using r(3,4) assms(4) by (cases "Reports r"; auto)+
  have "policyPrompts old oldNo hs ro False = Some False"
    using r(1) ne assms(3) by (auto simp: policyPrompts_def applyEither_def forwardRun_def Let_def)
  moreover have "applyWithPolicy old oldNo hs ro False False = Some (r, False)"
    using r(1) ne assms(3) by (auto simp: applyWithPolicy_def applyEither_def forwardRun_def Let_def)
  ultimately show ?thesis using r ne(1) by (simp add: runPolicy_def appliedAll_def)
qed

lemma runPolicy_backward:
  assumes "fitHunks 0 0 old hs new rest" "fits new" "reverseRun ro" "hs \<noteq> []"
  shows "\<exists>r. runPolicy ctx new newNo hs ro False st = Some (r, False, st) \<and> ResLines r = old \<and>
    appliedAll r \<and> NoFinalNewline r = finalEOL newNo (map reverseHunk hs) rest"
proof -
  obtain r where r: "Apply new newNo hs (roApplyOpts ro) = Some r" "ResLines r = old" "length (Reports r) = length hs"
    "list_all (\<lambda>rep. Outcome rep = HunkApplied) (Reports r)" "NoFinalNewline r = finalEOL newNo (map reverseHunk hs) rest"
    using Apply_fit_back [OF assms(1,2), of "roApplyOpts ro" newNo] assms(3) by (auto simp: reverseRun_def)
  then show ?thesis using assms(3,4)
    by (auto simp: runPolicy_def policyPrompts_def applyWithPolicy_def applyEither_def reverseRun_def appliedAll_def)
qed

section \<open>A section that applies\<close>

lemma tallyReports_applied:
  assumes "appliedAll r"
  shows "tallyReports q (Reports r) st = (\<lparr>htFailed = 0, htChanged = True, htIgnored = False\<rparr>, st)"
proof -
  have "foldl (tallyReport q) (\<lparr>htFailed = 0, htChanged = c, htIgnored = False\<rparr>, st) reps =
      (\<lparr>htFailed = 0, htChanged = c \<or> reps \<noteq> [], htIgnored = False\<rparr>, st)"
    if "list_all (\<lambda>rep. Outcome rep = HunkApplied) reps" for reps c
    using that by (induction reps arbitrary: c) (simp_all add: tallyReport_def)
  then show ?thesis using assms by (simp add: tallyReports_def appliedAll_def)
qed

lemma appliedAll_AllApplied: "appliedAll r \<Longrightarrow> AllApplied r"
  using AllApplied_applied by (simp add: appliedAll_def)

text \<open>A run that patches the file in place, with or without a backup.\<close>

definition inPlace :: "patchFlags \<Rightarrow> bool" where
  "inPlace f \<longleftrightarrow> \<not> fDryRun f \<and> \<not> fRemoveEmpty f \<and> fOutput f = [] \<and> fIfdef f = []"

text \<open>The files after the backup of \<open>path\<close>, if one is wanted.\<close>

definition withBackup :: "patchCtx \<Rightarrow> bool \<Rightarrow> string \<Rightarrow> string \<Rightarrow> fileMode \<Rightarrow> files \<Rightarrow> files" where
  "withBackup ctx wanted path old m fs =
     (if wanted
      then fold fsStep [OpenTrunc (path @ ''.orig'') (m AND NOT (osUmask ctx)), WriteData (path @ ''.orig'') old] fs
      else fs)"

lemma withBackup_path: "withBackup ctx b path old m fs path = fs path"
  by (auto simp: withBackup_def split: option.splits fsEntry.splits)

lemma withBackup_orig:
  assumes "\<And>k. fs (path @ ''.orig'') \<noteq> Some (FsDir k)"
  shows "\<exists>k. withBackup ctx True path old m fs (path @ ''.orig'') = Some (FsFile old k)"
  using assms by (auto simp: withBackup_def appendData_def split: option.splits fsEntry.splits)

lemma withBackup_finite: "finite (dom fs) \<Longrightarrow> finite (dom (withBackup ctx b path old m fs))"
  unfolding withBackup_def by (simp del: fsStep.simps add: fsStep_finite)

lemma backupFile_healthy:
  assumes "healthy ctx" "psFiles st path = Some (FsFile old m)"
  shows "\<exists>st'. backupFile ctx path st = (None, st') \<and> psFiles st' = withBackup ctx True path old m (psFiles st) \<and> acts st st'"
proof -
  obtain st' where "doOps ctx [OpenTrunc (path @ ''.orig'') (m AND NOT (osUmask ctx)), WriteData (path @ ''.orig'') old, CloseFile (path @ ''.orig'')] st = (None, st')"
    "psFiles st' = fold fsStep [OpenTrunc (path @ ''.orig'') (m AND NOT (osUmask ctx)), WriteData (path @ ''.orig'') old, CloseFile (path @ ''.orig'')] (psFiles st)"
    "acts st st'"
    using doOps_healthy [OF assms(1)] by metis
  then show ?thesis using assms
    by (auto simp: backupFile_def osReadFile_def osStat_def healthy_def withBackup_def Let_def simp del: doOps.simps)
qed

lemma backupIf_healthy:
  assumes "healthy ctx" "psFiles st path = Some (FsFile old m)" "psBackedUp st = []"
  shows "\<exists>st'. backupIf ctx b path st = (True, st') \<and> psFiles st' = withBackup ctx b path old m (psFiles st) \<and>
    psHard st' = psHard st \<and> psAggregate st' = psAggregate st"
proof -
  obtain s where s: "backupFile ctx path st = (None, s)" "psFiles s = withBackup ctx True path old m (psFiles st)" "acts st s"
    using backupFile_healthy [OF assms(1,2)] by blast
  then show ?thesis using assms(3) acts_fields [OF s(3)]
    by (cases b) (auto simp: backupIf_def backupOnce_def orFail_def withBackup_def)
qed

lemma finishFile_applied:
  assumes "healthy ctx" "freshTemp ctx" "finite (dom (psFiles st))" "psFiles st path = Some (FsFile old m)" "inPlace f"
    "psAggregate st = None" "psBackedUp st = []" "appliedAll res"
  shows "\<exists>st'. finishFile ctx f fp path nm tf res cm False st = (True, st') \<and>
    psFiles st' = (withBackup ctx (fBackup f) path old m (psFiles st))(path \<mapsto> FsFile (joinFileLines (ResLines res) (NoFinalNewline res)) m) \<and>
    psHard st' = psHard st \<and> psAggregate st' = None"
proof -
  let ?q = "fQuiet f \<or> fSilent f"
  let ?new = "joinFileLines (ResLines res) (NoFinalNewline res)"
  define st1 where "st1 = (if ?q then st else say (MsgVerb (verbOf cm False) nm (fDryRun f)) st)"
  define st3 where "st3 = st1\<lparr>psProbe := False\<rparr>"
  have f1: "psFiles st3 = psFiles st" "psHard st3 = psHard st" "psAggregate st3 = None" "psBackedUp st3 = []"
    using assms(6,7) by (simp_all add: st3_def st1_def say_def)
  obtain stb where stb: "backupIf ctx (fBackup f) path st3 = (True, stb)"
    "psFiles stb = withBackup ctx (fBackup f) path old m (psFiles st)" "psHard stb = psHard st" "psAggregate stb = None"
    using backupIf_healthy [OF assms(1), of st3 path old m "fBackup f"] assms(4) f1 by auto
  obtain st4 where st4: "writeFileContent ctx path ?new m True stb = (None, st4)"
    "psFiles st4 = (psFiles stb)(path \<mapsto> FsFile ?new m)" "acts stb st4"
    using writeFileContent_healthy [OF assms(1,2), of stb path old m] assms(3,4) stb(2) withBackup_finite withBackup_path by metis
  have c: "commitFile ctx f path tf res True False st3 = (True, st4)"
    using assms(1,4,5) f1 stb(1) st4(1)
    by (simp add: commitFile_def Let_def osStat_def healthy_def inPlace_def orFail_def)
  have "finishFile ctx f fp path nm tf res cm False st = (True, st4)"
    using assms(5) c unfolding finishFile_def Let_def st1_def [symmetric] tallyReports_applied [OF assms(8)]
    by (simp add: appliedAll_AllApplied [OF assms(8)] st3_def inPlace_def)
  then show ?thesis using st4(2) stb acts_fields [OF st4(3)] by simp
qed

lemma applyOneFile_applied:
  assumes "healthy ctx" "freshTemp ctx" "finite (dom (psFiles st))" "psFiles st path = Some (FsFile content m)" "inPlace f"
    "psAggregate st = None" "psIntermediate st = []" "origFile \<noteq> []" "path = resolveOperandPath ctx (fDirectory f) origFile"
    "OldName fp \<noteq> DevNull" "NewName fp \<noteq> DevNull" "splitFileLines content = (ls, noEOL)"
    "runPolicy ctx ls noEOL (Hunks fp) (policyOptions f st) False st = Some (r, False, st)" "appliedAll r" "psBackedUp st = []"
  shows "\<exists>st'. applyOneFile ctx f origFile fp st = Some (True, st') \<and>
    psFiles st' = (withBackup ctx (fBackup f) path content m (psFiles st))(path \<mapsto> FsFile (joinFileLines (ResLines r) (NoFinalNewline r)) m) \<and>
    psHard st' = psHard st \<and> psAggregate st' = None"
proof -
  let ?ro = "policyOptions f st"
  define o1 n1 where "o1 = (if roReverse ?ro then NewName fp else OldName fp)" and "n1 = (if roReverse ?ro then OldName fp else NewName fp)"
  have ne: "o1 \<noteq> DevNull" "n1 \<noteq> DevNull" using assms(10,11) by (auto simp: o1_def n1_def)
  have ch: "chooseTarget ctx f origFile o1 n1 (IndexName fp) False st = (Some (path, o1), st)"
    using assms(8,9) by (simp add: chooseTarget_def)
  have ld: "loadTarget ctx path o1 False st = (Some (targetOf content m), st)"
    using assms(1,4,7) by (simp add: loadTarget_def osStat_def osReadFile_def healthy_def)
  obtain st' where st': "finishFile ctx f fp path o1 (targetOf content m) r False False st = (True, st')"
    "psFiles st' = (withBackup ctx (fBackup f) path content m (psFiles st))(path \<mapsto> FsFile (joinFileLines (ResLines r) (NoFinalNewline r)) m)"
    "psHard st' = psHard st" "psAggregate st' = None"
    using finishFile_applied [OF assms(1-6,15,14)] by metis
  have "applyOneFile ctx f origFile fp st = Some (True, st')"
    unfolding applyOneFile_def Let_def o1_def [symmetric] n1_def [symmetric]
    using ne ch ld st'(1) assms(12,13) by (simp add: targetOf_def)
  then show ?thesis using st' by blast
qed

section \<open>The whole run\<close>

definition plainFlags :: "patchFlags \<Rightarrow> bool" where
  "plainFlags f \<longleftrightarrow> inPlace f \<and> \<not> (fStripChanged f \<and> fStrip f < 0) \<and> fGet f = autoStripSentinel \<and> fInput f = [] \<and>
     \<not> fUnified f \<and> \<not> fContext f \<and> \<not> fNormal f \<and> \<not> fEd f"

lemma runCore_parsed:
  assumes "plainFlags f" "ExtractEdScript d = (es, ei, False)" "file \<noteq> []"
  shows "runCore ctx f [file] (Inr d) st = runParsed ctx f file d st"
  using assms by (auto simp: runCore_def plainFlags_def inPlace_def formatHints_def Let_def)

lemma runParsed_applied:
  assumes "plainFlags f" "Parse d = Inr [fp]" "Unsupported fp = []" "applyOneFile ctx f file fp st = Some (True, st')"
    "psHard st' = False" "psAggregate st' = None"
  shows "runParsed ctx f file d st = Some (0, st')"
  using assms by (simp add: runParsed_def plainFlags_def inPlace_def wantFormat_def)

text \<open>The operands of a run: a regular file with its content and mode, on a disk without faults.\<close>

definition patchable :: "patchCtx \<Rightarrow> patchFlags \<Rightarrow> files \<Rightarrow> string \<Rightarrow> string \<Rightarrow> fileMode \<Rightarrow> bool" where
  "patchable ctx f fs file content m \<longleftrightarrow>
     healthy ctx \<and> freshTemp ctx \<and> finite (dom fs) \<and> file \<noteq> [] \<and>
     fs (resolveOperandPath ctx (fDirectory f) file) = Some (FsFile content m)"

lemma startState_fields [simp]:
  "psFiles (startState fs tty) = fs" "psAggregate (startState fs tty) = None" "psIntermediate (startState fs tty) = []"
  "psHard (startState fs tty) = False" "psReverse (startState fs tty) = False" "psOps (startState fs tty) = []"
  "psBackedUp (startState fs tty) = []"
  by (simp_all add: startState_def)

text \<open>The files after the run: the backup if one is wanted, and the new content in place.\<close>

definition patchedFiles :: "patchCtx \<Rightarrow> patchFlags \<Rightarrow> files \<Rightarrow> string \<Rightarrow> string \<Rightarrow> string \<Rightarrow> fileMode \<Rightarrow> files" where
  "patchedFiles ctx f fs file old new m =
     (let path = resolveOperandPath ctx (fDirectory f) file
      in (withBackup ctx (fBackup f) path old m fs)(path \<mapsto> FsFile new m))"

lemma runCore_applied:
  assumes "patchable ctx f fs file content m" "plainFlags f" "ExtractEdScript d = (es, ei, False)"
    "Parse d = Inr [fp]" "Unsupported fp = []" "OldName fp \<noteq> DevNull" "NewName fp \<noteq> DevNull" "splitFileLines content = (ls, noEOL)"
    "runPolicy ctx ls noEOL (Hunks fp) (policyOptions f (startState fs tty)) False (startState fs tty) = Some (r, False, startState fs tty)"
    "appliedAll r"
  shows "\<exists>st'. runCore ctx f [file] (Inr d) (startState fs tty) = Some (0, st') \<and>
    psFiles st' = patchedFiles ctx f fs file content (joinFileLines (ResLines r) (NoFinalNewline r)) m"
proof -
  let ?path = "resolveOperandPath ctx (fDirectory f) file"
  have p: "healthy ctx" "freshTemp ctx" "finite (dom fs)" "file \<noteq> []" "fs ?path = Some (FsFile content m)" "inPlace f"
    using assms(1,2) by (simp_all add: patchable_def plainFlags_def)
  obtain st' where "applyOneFile ctx f file fp (startState fs tty) = Some (True, st')"
    "psFiles st' = (withBackup ctx (fBackup f) ?path content m fs)(?path \<mapsto> FsFile (joinFileLines (ResLines r) (NoFinalNewline r)) m)"
    "psHard st' = False" "psAggregate st' = None"
    using applyOneFile_applied [where st = "startState fs tty", OF p(1,2) _ _ p(6) _ _ p(4) refl assms(6-10)] p(3,5) by auto
  then show ?thesis using runCore_parsed [OF assms(2,3) p(4)] runParsed_applied [OF assms(2,4,5)]
    by (auto simp: patchedFiles_def Let_def)
qed

section \<open>Ed scripts that apply\<close>

lemma runCore_ed:
  assumes "patchable ctx f fs file content m" "plainFlags f" "ExtractEdScript d = (es, ei, True)"
    "ApplyEd content es = Some (Inr (new, None))"
  shows "\<exists>st'. runCore ctx f [file] (Inr d) (startState fs tty) = Some (0, st') \<and> psFiles st' = patchedFiles ctx f fs file content new m"
proof -
  let ?path = "resolveOperandPath ctx (fDirectory f) file"
  let ?st = "startState fs tty"
  have p: "healthy ctx" "freshTemp ctx" "finite (dom fs)" "file \<noteq> []" "fs ?path = Some (FsFile content m)" "inPlace f"
    using assms(1,2) by (simp_all add: patchable_def plainFlags_def)
  have o: "osStat ctx s ?path = Inr (FsFile content m)" "osReadFile ctx s ?path = Inr content" if "psFiles s = fs" for s
    using p(1,5) that by (simp_all add: osStat_def osReadFile_def healthy_def)
  obtain s1 where s1: "(if fBackup f then backupFile ctx ?path ?st else (None, ?st)) = (None, s1)"
    "psFiles s1 = withBackup ctx (fBackup f) ?path content m fs"
    using backupFile_healthy [OF p(1), of ?st ?path content m] p(5) by (cases "fBackup f") (auto simp: withBackup_def)
  obtain s2 where s2: "writeFileContent ctx ?path new m True s1 = (None, s2)" "psFiles s2 = (psFiles s1)(?path \<mapsto> FsFile new m)"
    using writeFileContent_healthy [OF p(1,2), of s1 ?path content m] p(3,5) s1(2) withBackup_finite withBackup_path by metis
  have "finishEd ctx f ?path new None ?st = (0, s2)"
    using p(6) o [of ?st] s1(1) s2(1) by (simp add: finishEd_def inPlace_def Let_def)
  then have "runEdScript ctx f es file ei ?st = Some (0, s2)"
    using p(4,6) o [of ?st] assms(4) by (simp add: runEdScript_def edTarget_def inPlace_def Let_def)
  then have "runCore ctx f [file] (Inr d) ?st = Some (0, s2)"
    using assms(2,3) by (auto simp: runCore_def plainFlags_def inPlace_def formatHints_def Let_def)
  then show ?thesis using s1(2) s2(2) by (simp add: patchedFiles_def Let_def)
qed

section \<open>An example\<close>

lemma demo_patchable: "patchable demoCtx defaultFlags demoFiles ''f'' (unlines [''x'', ''y'']) 0x1A4" "plainFlags defaultFlags"
proof -
  have "healthy demoCtx" by (simp add: healthy_def demoCtx_def)
  moreover have "demoFiles (resolveOperandPath demoCtx (fDirectory defaultFlags) ''f'') = Some (FsFile (unlines [''x'', ''y'']) 0x1A4)"
    by code_simp
  ultimately show "patchable demoCtx defaultFlags demoFiles ''f'' (unlines [''x'', ''y'']) 0x1A4"
    using demoCtx_fresh(1) demoFiles_finite by (simp add: patchable_def)
  show "plainFlags defaultFlags" by code_simp
qed

end
