(* ===== verification/Patch_Notation.thy ===== *)
theory Patch_Notation
  imports Patch_Applied Diff_Emit
begin

text \<open>
  What the diff notations share: how printed lines and the numbers of headers are read back by
  \<open>pkg/patch/parse.go\<close>, and the interface \<open>diff_notation\<close> between a printer of hunks and \<open>patch\<close>.
\<close>

section \<open>Text lines\<close>

text \<open>The lines \<open>splitRawLines\<close> makes of printed output, when no line ends in a carriage return.\<close>

definition rawOf :: "string \<Rightarrow> rawLine" where
  "rawOf t = \<lparr>rawText = t, rawNoEOL = False\<rparr>"

definition textLine :: "string \<Rightarrow> bool" where
  "textLine t = (NL \<notin> set t \<and> \<not> hasSuffixByte t CR)"

lemma rawOf_simps [simp]: "rawText (rawOf t) = t" "\<not> rawNoEOL (rawOf t)"
  by (simp_all add: rawOf_def)

lemma splitRawLines_unlines:
  assumes "list_all textLine ls"
  shows "splitRawLines (unlines ls) = map rawOf ls"
proof (cases "ls = []")
  case False
  have "hasSuffixByte (unlines ls) NL" using False by (simp add: hasSuffixByte_def last_unlines)
  moreover have "splitByte NL (unlines ls) = ls @ [[]]"
    using assms by (intro splitByte_unlines) (auto simp: list_all_iff textLine_def)
  moreover have "\<forall>l \<in> set ls. trimSuffixByte l CR = l"
    using assms by (auto simp: list_all_iff textLine_def trimSuffixByte_def)
  ultimately show ?thesis using False by (simp add: splitRawLines_def Let_def rawOf_def)
qed (simp add: splitRawLines_def)

section \<open>Numbers in headers\<close>

lemma takeWhile_digits: "\<not> isDigit c \<Longrightarrow> takeWhile isDigit (itoaNat n @ c # s) = itoaNat n"
  by (subst takeWhile_append2) (auto dest: itoaNat_digits)

lemma dropWhile_digits: "\<not> isDigit c \<Longrightarrow> dropWhile isDigit (itoaNat n @ c # s) = c # s"
  by (subst dropWhile_append2) (auto dest: itoaNat_digits)

lemma digits1_itoa:
  "\<not> isDigit c \<Longrightarrow> digits1 (itoaNat n @ c # s) = Some (itoaNat n, c # s)"
  by (simp add: digits1_def takeWhile_digits dropWhile_digits)

lemma digits1_itoa_end: "digits1 (itoaNat n) = Some (itoaNat n, [])"
proof -
  have "takeWhile isDigit (itoaNat n) = itoaNat n" "dropWhile isDigit (itoaNat n) = []"
    by (simp_all add: itoaNat_digits)
  then show ?thesis unfolding digits1_def Let_def by (metis itoaNat_not_Nil)
qed

lemma rangeRe_one:
  "\<not> isDigit c \<Longrightarrow> c \<noteq> CHR '','' \<Longrightarrow> rangeRe (itoaNat n @ c # s) = Some (itoaNat n, [], c # s)"
  by (simp add: rangeRe_def digits1_itoa)

lemma rangeRe_two:
  "\<not> isDigit c \<Longrightarrow>
   rangeRe (itoaNat n @ CHR '','' # itoaNat k @ c # s) = Some (itoaNat n, itoaNat k, c # s)"
  by (simp add: rangeRe_def digits1_itoa isDigit_not)

lemma rangeRe_one_end: "rangeRe (itoaNat n) = Some (itoaNat n, [], [])"
  by (simp add: rangeRe_def digits1_itoa_end)

lemma rangeRe_two_end: "rangeRe (itoaNat n @ CHR '','' # itoaNat k) = Some (itoaNat n, itoaNat k, [])"
  by (simp add: rangeRe_def digits1_itoa digits1_itoa_end isDigit_not)

lemma atoiDefault_itoa: "int n \<le> maxInt \<Longrightarrow> atoiDefault (itoaNat n) 0 = int n"
  by (simp add: atoiDefault_def atoiFits_def Atoi_itoaNat)

text \<open>A range as \<open>normalRange\<close> prints it, read by \<open>rangeRe\<close>: the first line, the last one, and the count.\<close>

definition readsRange :: "nat \<Rightarrow> nat \<Rightarrow> string \<Rightarrow> string \<Rightarrow> bool" where
  "readsRange lo count m1 m2 \<longleftrightarrow> m1 \<noteq> [] \<and> Atoi m1 = int lo + 1 \<and>
     (if m2 \<noteq> [] then Atoi m2 else Atoi m1) = int (lo + count) \<and>
     (if m2 \<noteq> [] then i64 (atoiDefault m2 0 - Atoi m1 + 1) else 1) = int count"

lemma readsRange_one: "int (Suc lo) \<le> maxInt \<Longrightarrow> readsRange lo 1 (itoaNat (Suc lo)) []"
  using Atoi_itoaNat [of "Suc lo"] by (simp add: readsRange_def)

lemma readsRange_two: "int (lo + count) \<le> maxInt \<Longrightarrow> 0 < count \<Longrightarrow>
    readsRange lo count (itoaNat (Suc lo)) (itoaNat (lo + count))"
  using Atoi_itoaNat [of "Suc lo"] Atoi_itoaNat [of "lo + count"] atoiDefault_itoa [of "lo + count"]
  by (simp add: readsRange_def i64_id)

lemma rangeRe_normalRange:
  assumes "0 < count" "\<not> isDigit c" "c \<noteq> CHR '',''" "int (lo + count) \<le> maxInt"
  shows "\<exists>m1 m2. rangeRe (normalRange (int lo) (int count) @ c # s) = Some (m1, m2, c # s) \<and> readsRange lo count m1 m2"
proof (cases "count = 1")
  case True
  then show ?thesis using assms rangeRe_one [of c "Suc lo" s] readsRange_one [of lo]
    by (simp add: normalRange_def nat_add_distrib)
next
  case False
  then have "rangeRe (normalRange (int lo) (int count) @ c # s) = Some (itoaNat (Suc lo), itoaNat (lo + count), c # s)"
    using rangeRe_two [of c "Suc lo" "lo + count" s] assms(2) by (simp add: normalRange_def nat_add_distrib)
  then show ?thesis using readsRange_two [OF assms(4,1)] by blast
qed

lemma normalRange_noNL: "0 \<le> s \<Longrightarrow> 0 \<le> c \<Longrightarrow> NL \<notin> set (normalRange s c)"
  by (simp add: normalRange_def itoaNat_no isDigit_not)

lemma rangeRe_normalRange_end:
  assumes "0 < count" "int (lo + count) \<le> maxInt"
  shows "\<exists>m1 m2. rangeRe (normalRange (int lo) (int count)) = Some (m1, m2, []) \<and> readsRange lo count m1 m2"
proof (cases "count = 1")
  case True
  then show ?thesis using assms rangeRe_one_end [of "Suc lo"] readsRange_one [of lo]
    by (simp add: normalRange_def nat_add_distrib)
next
  case False
  then have "rangeRe (normalRange (int lo) (int count)) = Some (itoaNat (Suc lo), itoaNat (lo + count), [])"
    using rangeRe_two_end [of "Suc lo" "lo + count"] by (simp add: normalRange_def nat_add_distrib)
  then show ?thesis using readsRange_two [OF assms(2,1)] by blast
qed

lemma textLine_Cons: "textLine (c # s) \<longleftrightarrow> c \<noteq> NL \<and> (if s = [] then c \<noteq> CR else textLine s)"
  by (auto simp: textLine_def hasSuffixByte_def)

lemma itoaNat_textLine [simp]: "textLine (itoaNat n)" "NL \<notin> set (itoaNat n)"
proof -
  have "CR \<notin> set (itoaNat n)" "NL \<notin> set (itoaNat n)"
    using itoaNat_no isDigit_not(1,2) by blast+
  moreover have "last (itoaNat n) \<in> set (itoaNat n)" by simp
  ultimately have "last (itoaNat n) \<noteq> CR" "NL \<notin> set (itoaNat n)" by metis+
  then show "textLine (itoaNat n)" "NL \<notin> set (itoaNat n)"
    by (simp_all add: textLine_def hasSuffixByte_def)
qed

lemma stripPatchIndentAt_none:
  "rawText l \<noteq> [] \<Longrightarrow> hd (rawText l) \<noteq> SP \<Longrightarrow> hd (rawText l) \<noteq> TAB \<Longrightarrow> stripPatchIndentAt (l # ls) = None"
  by (cases "rawText l") (auto simp: stripPatchIndentAt_def trimLeft_def)

text \<open>Hunks whose numbers fit the headers and whose lines are plain text lines.\<close>

definition smallHunk :: "Hunk \<Rightarrow> bool" where
  "smallHunk h = (wfHunk h \<and> 0 \<le> OldStart h \<and> OldStart h < 2 ^ 62 \<and> 0 \<le> NewStart h \<and> NewStart h < 2 ^ 62)"

lemma smallHunk_sum:
  assumes "smallHunk h"
  shows "0 \<le> OldCount h" "0 \<le> NewCount h" "OldStart h + OldCount h \<le> maxInt" "NewStart h + NewCount h \<le> maxInt"
  using assms length_oldSeq [of "Lines h"] length_newSeq [of "Lines h"]
  by (auto simp: smallHunk_def wfHunk_def fits_def)

definition textHunk :: "Hunk \<Rightarrow> bool" where
  "textHunk h = list_all (\<lambda>l. textLine (Text l)) (Lines h)"

lemma textLine_append: "textLine (s @ c # t) \<longleftrightarrow> NL \<notin> set s \<and> textLine (c # t)"
  by (auto simp: textLine_def hasSuffixByte_def)

lemma extractName_stamp: "TAB \<notin> set name \<Longrightarrow> extractName (name @ TAB # stamp) = name"
  by (auto simp: extractName_def takeWhile_append)

section \<open>What a patch text does\<close>

text \<open>
  The text, given to \<open>patch\<close> on standard input, turns the file with the content \<open>old\<close> into one with the content
  \<open>new\<close>, under every choice of the options that patch in place; and with \<open>-R\<close> the other way round.
\<close>

definition patches :: "string \<Rightarrow> string \<Rightarrow> string \<Rightarrow> bool" where
  "patches d old new \<longleftrightarrow> (\<forall>ctx f fs file m tty. patchable ctx f fs file old m \<and> plainFlags f \<and> \<not> fReverse f \<longrightarrow>
     (\<exists>st'. runCore ctx f [file] (Inr d) (startState fs tty) = Some (0, st') \<and> psFiles st' = patchedFiles ctx f fs file old new m))"

definition unpatches :: "string \<Rightarrow> string \<Rightarrow> string \<Rightarrow> bool" where
  "unpatches d old new \<longleftrightarrow> (\<forall>ctx f fs file m tty. patchable ctx f fs file new m \<and> plainFlags f \<and> fReverse f \<longrightarrow>
     (\<exists>st'. runCore ctx f [file] (Inr d) (startState fs tty) = Some (0, st') \<and> psFiles st' = patchedFiles ctx f fs file new old m))"

lemma policyOptions_start:
  assumes "plainFlags f"
  shows "\<not> fReverse f \<Longrightarrow> forwardRun (policyOptions f (startState fs tty))" "fReverse f \<Longrightarrow> reverseRun (policyOptions f (startState fs tty))"
  using assms by (simp_all add: policyOptions_def forwardRun_def reverseRun_def plainFlags_def inPlace_def)

text \<open>A text whose first line announces a listing is not taken for an ed script.\<close>

lemma ExtractEdScript_listing:
  assumes "textLine l" "looksLikeDiffListing l" "\<not> hasPrefix l ''Index:''" "l \<noteq> []" "hd l \<noteq> SP" "hd l \<noteq> TAB"
  shows "ExtractEdScript (unlines (l # ls)) = ([], [], False)"
proof -
  have "splitByte NL (unlines (l # ls)) = l # splitByte NL (unlines ls)"
    using assms(1) by (simp add: splitByte_append_sep textLine_def)
  moreover have "trimSuffixByte l CR = l" using assms(1) by (simp add: textLine_def trimSuffixByte_def)
  moreover have "trimLeft l [SP, TAB] = l" using assms(4-6) by (cases l) (auto simp: trimLeft_def)
  ultimately show ?thesis using assms(2-4) by (simp add: ExtractEdScript_def)
qed

lemma fit_hunks_exist:
  assumes "fitHunks 0 0 old hs new rest" "splitFileLines oldData = (old, oldNo)" "splitFileLines newData = (new, finalEOL oldNo hs rest)"
    "oldData \<noteq> newData"
  shows "hs \<noteq> []"
proof
  assume "hs = []"
  then have "old = new" "finalEOL oldNo hs rest = oldNo" using assms(1) by (auto simp: finalEOL_def elim: fitHunks.cases)
  then show False using assms(2-4) join_split_file [of oldData] join_split_file [of newData] by simp
qed

section \<open>The interface of a notation\<close>

locale diff_notation =
  fixes print :: "Hunk list \<Rightarrow> string list"
    and printable :: "Hunk list \<Rightarrow> bool"
  assumes parse_print: "printable hs \<Longrightarrow>
    \<exists>fp. Parse (unlines (print hs)) = Inr [fp] \<and> Hunks fp = hs \<and> Unsupported fp = [] \<and>
      OldName fp \<noteq> DevNull \<and> NewName fp \<noteq> DevNull"
    and not_ed: "printable hs \<Longrightarrow> ExtractEdScript (unlines (print hs)) = ([], [], False)"
begin

lemma printed_applies:
  assumes "printable hs" "patchable ctx f fs file content m" "plainFlags f" "splitFileLines content = (ls, noEOL)"
    "runPolicy ctx ls noEOL hs (policyOptions f (startState fs tty)) False (startState fs tty) = Some (r, False, startState fs tty)"
    "appliedAll r" "splitFileLines result = (ResLines r, NoFinalNewline r)"
  shows "\<exists>st'. runCore ctx f [file] (Inr (unlines (print hs))) (startState fs tty) = Some (0, st') \<and>
    psFiles st' = patchedFiles ctx f fs file content result m"
proof -
  obtain fp where fp: "Parse (unlines (print hs)) = Inr [fp]" "Hunks fp = hs" "Unsupported fp = []"
    "OldName fp \<noteq> DevNull" "NewName fp \<noteq> DevNull"
    using parse_print [OF assms(1)] by blast
  have "joinFileLines (ResLines r) (NoFinalNewline r) = result" using join_split_file [of result] assms(7) by simp
  then show ?thesis
    using runCore_applied [OF assms(2,3) not_ed [OF assms(1)] fp(1,3-5) assms(4) _ assms(6), of tty] assms(5) fp(2) by simp
qed

lemma patched:
  assumes "printable hs" "fitHunks 0 0 old hs new rest" "fits old"
    "splitFileLines oldData = (old, oldNo)" "splitFileLines newData = (new, finalEOL oldNo hs rest)" "oldData \<noteq> newData"
  shows "patches (unlines (print hs)) oldData newData"
  unfolding patches_def
proof (intro allI impI; elim conjE)
  fix ctx f fs fn m tty
  assume p: "patchable ctx f fs fn oldData m" "plainFlags f" "\<not> fReverse f"
  obtain r where r: "runPolicy ctx old oldNo hs (policyOptions f (startState fs tty)) False (startState fs tty) = Some (r, False, startState fs tty)"
    "ResLines r = new" "appliedAll r" "NoFinalNewline r = finalEOL oldNo hs rest"
    using runPolicy_forward [OF assms(2,3) policyOptions_start(1) [OF p(2,3)] fit_hunks_exist [OF assms(2,4-6)]] by blast
  show "\<exists>st'. runCore ctx f [fn] (Inr (unlines (print hs))) (startState fs tty) = Some (0, st') \<and>
      psFiles st' = patchedFiles ctx f fs fn oldData newData m"
    using printed_applies [OF assms(1) p(1,2) assms(4) r(1,3)] assms(5) r(2,4) by simp
qed

lemma patched_back:
  assumes "printable hs" "fitHunks 0 0 old hs new rest" "fits new"
    "splitFileLines newData = (new, newNo)" "splitFileLines oldData = (old, finalEOL newNo (map reverseHunk hs) rest)" "hs \<noteq> []"
  shows "unpatches (unlines (print hs)) oldData newData"
  unfolding unpatches_def
proof (intro allI impI; elim conjE)
  fix ctx f fs fn m tty
  assume p: "patchable ctx f fs fn newData m" "plainFlags f" "fReverse f"
  obtain r where r: "runPolicy ctx new newNo hs (policyOptions f (startState fs tty)) False (startState fs tty) = Some (r, False, startState fs tty)"
    "ResLines r = old" "appliedAll r" "NoFinalNewline r = finalEOL newNo (map reverseHunk hs) rest"
    using runPolicy_backward [OF assms(2,3) policyOptions_start(2) [OF p(2,3)] assms(6)] by blast
  show "\<exists>st'. runCore ctx f [fn] (Inr (unlines (print hs))) (startState fs tty) = Some (0, st') \<and>
      psFiles st' = patchedFiles ctx f fs fn newData oldData m"
    using printed_applies [OF assms(1) p(1,2) assms(4) r(1,3)] assms(5) r(2,4) by simp
qed

lemma both_ways:
  assumes "printable hs" "fitHunks 0 0 old hs new rest" "fits old" "fits new" "oldData \<noteq> newData"
    "splitFileLines oldData = (old, oldNo)" "splitFileLines newData = (new, newNo)"
    "finalEOL oldNo hs rest = newNo" "finalEOL newNo (map reverseHunk hs) rest = oldNo"
  shows "patches (unlines (print hs)) oldData newData \<and> unpatches (unlines (print hs)) oldData newData"
  using patched [OF assms(1-3,6) _ assms(5)] patched_back [OF assms(1,2,4,7)] fit_hunks_exist [OF assms(2,6) _ assms(5)] assms(6-9)
  by simp

end

end
