(* ===== verification/Diff_Script.thy ===== *)
theory Diff_Script
  imports Diff_Emit Patch_Notation
begin

text \<open>
  Edit scripts between two files, as lists of groups, and what it means that hunks fit a pair of
  files whose lines carry the flag of a missing final newline.
\<close>

section \<open>Lines with their final-newline flag\<close>

type_synonym fline = "string \<times> bool"

definition flagged :: "side \<Rightarrow> fline list" where
  "flagged s = map (\<lambda>i. (sideLines s ! i, sideNoEOL s \<and> Suc i = length (sideLines s))) [0..<length (sideLines s)]"

definition oldF :: "HunkLine list \<Rightarrow> fline list" where
  "oldF ls = map (\<lambda>l. (Text l, NoEOL l)) (filter (\<lambda>l. Kind l \<noteq> LineAdd) ls)"

definition newF :: "HunkLine list \<Rightarrow> fline list" where
  "newF ls = map (\<lambda>l. (Text l, NoEOL l)) (filter (\<lambda>l. Kind l \<noteq> LineDelete) ls)"

definition mkLine :: "LineKind \<Rightarrow> fline \<Rightarrow> HunkLine" where
  "mkLine k p = \<lparr>Kind = k, Text = fst p, NoEOL = snd p\<rparr>"

definition printMarked :: "string \<Rightarrow> fline \<Rightarrow> string list" where
  "printMarked m p = (m @ fst p) # (if snd p then [noNewline] else [])"

lemma length_flagged [simp]: "length (flagged s) = length (sideLines s)"
  by (simp add: flagged_def)

lemma flagged_nth: "i < length (sideLines s) \<Longrightarrow>
    flagged s ! i = (sideLines s ! i, sideNoEOL s \<and> Suc i = length (sideLines s))"
  by (simp add: flagged_def)

lemma fst_flagged: "map fst (flagged s) = sideLines s"
  by (simp add: flagged_def o_def map_nth)

lemma F_append [simp]:
  "oldF (xs @ ys) = oldF xs @ oldF ys" "newF (xs @ ys) = newF xs @ newF ys" "oldF [] = []" "newF [] = []"
  by (simp_all add: oldF_def newF_def)

lemma F_mkLine [simp]:
  "oldF (map (mkLine LineContext) ps) = ps" "newF (map (mkLine LineContext) ps) = ps"
  "oldF (map (mkLine LineDelete) ps) = ps" "newF (map (mkLine LineDelete) ps) = []"
  "oldF (map (mkLine LineAdd) ps) = []" "newF (map (mkLine LineAdd) ps) = ps"
  by (simp_all add: oldF_def newF_def mkLine_def o_def filter_map)

lemma fst_F: "map fst (oldF ls) = oldSeq ls" "map fst (newF ls) = newSeq ls"
  by (simp_all add: oldF_def newF_def oldSeq_def newSeq_def o_def)

section \<open>The loops that print ranges\<close>

lemma emitRange_ok:
  assumes "lo \<le> hi" "hi \<le> length (sideLines s)"
  shows "emitRange m s (int lo) (int hi) =
    Some (concat (map (printMarked m) (take (hi - lo) (drop lo (flagged s)))))"
  using assms
proof (induction "hi - lo" arbitrary: lo)
  case 0
  then show ?case by (simp add: emitRange.simps)
next
  case (Suc n)
  then have lt: "lo < hi" "lo < length (sideLines s)" by auto
  have ih: "emitRange m s (int (Suc lo)) (int hi) =
      Some (concat (map (printMarked m) (take (hi - Suc lo) (drop (Suc lo) (flagged s)))))"
    using Suc by (intro Suc.hyps) auto
  have "take (hi - lo) (drop lo (flagged s)) =
      flagged s ! lo # take (hi - Suc lo) (drop (Suc lo) (flagged s))"
    using lt by (simp add: Cons_nth_drop_Suc [symmetric] take_Cons' Suc_diff_Suc [symmetric] del: Suc_diff_Suc)
  then show ?case
    using lt ih by (subst emitRange.simps) (auto simp: index_def flagged_nth printMarked_def ac_simps)
qed

lemma seqOut_Some [simp]: "seqOut (map Some xs) = Some (concat xs)"
  by (induction xs) auto

section \<open>Edit scripts\<close>

text \<open>
  The groups describe the way from \<open>xs\<close> to \<open>ys\<close> from the positions \<open>i\<close> and \<open>j\<close> on: between groups the
  two lists agree, each group replaces a range by a range, not both empty.
\<close>

inductive script :: "'a list \<Rightarrow> 'a list \<Rightarrow> nat \<Rightarrow> nat \<Rightarrow> group list \<Rightarrow> bool" for xs ys where
  script_done: "i \<le> length xs \<Longrightarrow> j \<le> length ys \<Longrightarrow> drop i xs = drop j ys \<Longrightarrow> script xs ys i j []"
| script_group:
    "a0 g = int (i + k) \<Longrightarrow> b0 g = int (j + k) \<Longrightarrow> a1 g = int p \<Longrightarrow> b1 g = int q \<Longrightarrow>
     i + k \<le> p \<Longrightarrow> j + k \<le> q \<Longrightarrow> i + k < p \<or> j + k < q \<Longrightarrow> p \<le> length xs \<Longrightarrow> q \<le> length ys \<Longrightarrow>
     take k (drop i xs) = take k (drop j ys) \<Longrightarrow> script xs ys p q gs \<Longrightarrow> script xs ys i j (g # gs)"

inductive_cases script_NilE: "script xs ys i j []"
inductive_cases script_ConsE': "script xs ys i j (g # gs)"

lemma script_ConsE:
  assumes "script xs ys i j (g # gs)"
  obtains k p q where "a0 g = int (i + k)" "b0 g = int (j + k)" "a1 g = int p" "b1 g = int q"
    "i + k \<le> p" "j + k \<le> q" "i + k < p \<or> j + k < q" "p \<le> length xs" "q \<le> length ys"
    "take k (drop i xs) = take k (drop j ys)" "script xs ys p q gs"
  using assms by (elim script_ConsE') (metis of_nat_add)

fun separated :: "group list \<Rightarrow> bool" where
  "separated (g # h # gs) = (a1 g < a0 h \<and> separated (h # gs))"
| "separated _ = True"

text \<open>The number of common lines before the next group.\<close>

definition gap :: "'a list \<Rightarrow> nat \<Rightarrow> group list \<Rightarrow> nat" where
  "gap xs i gs = (case gs of [] \<Rightarrow> length xs - i | g # _ \<Rightarrow> nat (a0 g) - i)"

lemma script_bounds: "script xs ys i j gs \<Longrightarrow> i \<le> length xs \<and> j \<le> length ys"
  by (induction rule: script.induct) auto

lemma script_gap:
  assumes "script xs ys i j gs" "t \<le> gap xs i gs"
  shows "take t (drop i xs) = take t (drop j ys)" "i + t \<le> length xs" "j + t \<le> length ys"
    "script xs ys (i + t) (j + t) gs"
proof -
  have "take t (drop i xs) = take t (drop j ys) \<and> i + t \<le> length xs \<and> j + t \<le> length ys \<and>
    script xs ys (i + t) (j + t) gs"
  proof (cases gs)
    case Nil
    with assms have e: "i \<le> length xs" "j \<le> length ys" "drop i xs = drop j ys"
      by (auto elim: script_NilE)
    then have "length xs - i = length ys - j" by (metis length_drop)
    then have "i + t \<le> length xs" "j + t \<le> length ys" using assms e Nil by (auto simp: gap_def)
    moreover have "drop (i + t) xs = drop (j + t) ys"
      using arg_cong [OF e(3), of "drop t"] by (simp add: add.commute)
    ultimately show ?thesis using e Nil by (auto intro: script_done)
  next
    case (Cons g gs')
    from assms(1) [unfolded Cons] obtain k p q where
      h: "a0 g = int (i + k)" "b0 g = int (j + k)" "a1 g = int p" "b1 g = int q" "i + k \<le> p" "j + k \<le> q"
        "i + k < p \<or> j + k < q" "p \<le> length xs" "q \<le> length ys"
        "take k (drop i xs) = take k (drop j ys)" "script xs ys p q gs'"
      by (rule script_ConsE) blast
    have t: "t \<le> k" using assms(2) h(1) by (simp add: gap_def Cons)
    have tk: "take t (drop i xs) = take t (drop j ys)"
      using arg_cong [OF h(10), of "take t"] t by (simp add: min_def)
    have "take (k - t) (drop (i + t) xs) = take (k - t) (drop (j + t) ys)"
      using arg_cong [OF h(10), of "drop t"] t by (simp add: drop_take add.commute)
    then have "script xs ys (i + t) (j + t) (g # gs')"
      using h t by (intro script_group [of g "i + t" "k - t" "j + t" p q]) auto
    then show ?thesis using tk h t by (simp add: Cons)
  qed
  then show "take t (drop i xs) = take t (drop j ys)" "i + t \<le> length xs" "j + t \<le> length ys"
    "script xs ys (i + t) (j + t) gs" by auto
qed

section \<open>Hunks that fit two flagged files\<close>

inductive fitF :: "nat \<Rightarrow> nat \<Rightarrow> fline list \<Rightarrow> Hunk list \<Rightarrow> fline list \<Rightarrow> fline list \<Rightarrow> bool" where
  fitF_done: "fitF i j rest [] rest rest"
| fitF_hunk:
    "OldStart h = int (i + length pre) \<Longrightarrow> NewStart h = int (j + length pre) \<Longrightarrow> wfHunk h \<Longrightarrow>
     Lines h \<noteq> [] \<Longrightarrow> pre \<noteq> [] \<or> i = 0 \<and> j = 0 \<Longrightarrow>
     fitF (i + length pre + length (oldF (Lines h))) (j + length pre + length (newF (Lines h)))
       old hs new rest \<Longrightarrow>
     fitF i j (pre @ oldF (Lines h) @ old) (h # hs) (pre @ newF (Lines h) @ new) rest"

lemma length_F: "length (oldF ls) = length (oldSeq ls)" "length (newF ls) = length (newSeq ls)"
  by (simp_all add: oldF_def newF_def oldSeq_def newSeq_def)

lemma fitF_fitHunks:
  "fitF i j fa hs fb rest \<Longrightarrow> fitHunks i j (map fst fa) hs (map fst fb) (map fst rest)"
proof (induction rule: fitF.induct)
  case (fitF_hunk h i pre j old hs new rest)
  then show ?case using fit_hunk [of h i "map fst pre" j "map fst old" hs "map fst new" "map fst rest"]
    by (simp add: fst_F length_F)
qed (auto intro: fit_done)

lemma fitF_rest: "fitF i j fa hs fb rest \<Longrightarrow> \<exists>p q. fa = p @ rest \<and> fb = q @ rest"
proof (induction rule: fitF.induct)
  case (fitF_hunk h i pre j old hs new rest)
  then show ?case by (metis append.assoc)
qed simp

definition onlyLast :: "fline list \<Rightarrow> bool" where
  "onlyLast xs = (\<forall>x \<in> set (butlast xs). \<not> snd x)"

lemma onlyLast_append: "onlyLast (xs @ ys) \<Longrightarrow> onlyLast ys"
  by (cases "ys = []") (auto simp: onlyLast_def butlast_append)

lemma onlyLast_before: "onlyLast (xs @ ys) \<Longrightarrow> ys \<noteq> [] \<Longrightarrow> x \<in> set xs \<Longrightarrow> \<not> snd x"
  by (auto simp: onlyLast_def butlast_append)

lemma onlyLast_flagged: "onlyLast (flagged s)"
  by (force simp: onlyLast_def in_set_conv_nth nth_butlast flagged_nth)

lemma last_flagged: "sideLines s \<noteq> [] \<Longrightarrow> snd (last (flagged s)) = sideNoEOL s"
proof -
  assume "sideLines s \<noteq> []"
  then have "flagged s \<noteq> []" by (simp add: flagged_def)
  then show ?thesis using \<open>sideLines s \<noteq> []\<close> by (simp add: last_conv_nth flagged_nth)
qed

lemma lastFlag_newF: "lastFlag ls e = (if newF ls = [] then e else snd (last (newF ls)))"
  by (auto simp: lastFlag_def Let_def newF_def last_map)

lemma F_empty: "oldF ls = [] \<Longrightarrow> newF ls = [] \<Longrightarrow> ls = []"
  by (cases ls) (auto simp: oldF_def newF_def split: if_splits)

lemma fitF_sep: "fitF i j old hs new rest \<Longrightarrow> hs \<noteq> [] \<Longrightarrow> \<not> (i = 0 \<and> j = 0) \<Longrightarrow> new \<noteq> []"
  by (erule fitF.cases) auto

lemma fitF_lastFlag:
  assumes "fitF i j fa hs fb rest" "onlyLast fa" "hs \<noteq> []" "rest = []"
  shows "lastFlag (Lines (last hs)) False = (fb \<noteq> [] \<and> snd (last fb))"
  using assms
proof (induction rule: fitF.induct)
  case (fitF_hunk h i pre j old hs new rest)
  show ?case
  proof (cases "hs = []")
    case True
    then have e: "old = []" "new = []" using fitF_hunk.hyps(6) fitF_hunk.prems by (auto elim: fitF.cases)
    show ?thesis
    proof (cases "newF (Lines h) = []")
      case nw: True
      then have "oldF (Lines h) \<noteq> []" using F_empty fitF_hunk.hyps(4) by blast
      then have "pre \<noteq> [] \<Longrightarrow> \<not> snd (last pre)"
        using onlyLast_before [of pre "oldF (Lines h)" "last pre"] fitF_hunk.prems(1) e by simp
      then show ?thesis using nw True e by (auto simp: lastFlag_newF)
    qed (use True e in \<open>auto simp: lastFlag_newF\<close>)
  next
    case False
    then have "new \<noteq> []"
      using fitF_hunk.hyps(4) F_empty [of "Lines h"] fitF_sep [OF fitF_hunk.hyps(6)] by auto
    moreover have "onlyLast old" using fitF_hunk.prems(1) onlyLast_append by (metis append.assoc)
    ultimately show ?thesis using fitF_hunk False by simp
  qed
qed simp

text \<open>The flag \<open>Apply\<close> computes for the result is the one of the new file.\<close>

lemma fitF_finalEOL:
  assumes "fitF 0 0 (flagged sa) hs (flagged sb) rest" "sideLines sa = [] \<longrightarrow> \<not> sideNoEOL sa"
    "sideLines sb = [] \<longrightarrow> \<not> sideNoEOL sb"
  shows "finalEOL (sideNoEOL sa) hs (map fst rest) = sideNoEOL sb"
proof -
  have no: "sideNoEOL s = (flagged s \<noteq> [] \<and> snd (last (flagged s)))"
    if "sideLines s = [] \<longrightarrow> \<not> sideNoEOL s" for s
    using that last_flagged [of s] by (auto simp: flagged_def)
  show ?thesis
  proof (cases "rest \<noteq> [] \<or> hs = []")
    case True
    obtain p q where pq: "flagged sa = p @ rest" "flagged sb = q @ rest"
      using fitF_rest [OF assms(1)] by blast
    have "flagged sa = flagged sb" if "hs = []" using assms(1) that by (auto elim: fitF.cases)
    then show ?thesis using True pq no [OF assms(2)] no [OF assms(3)] by (auto simp: finalEOL_def)
  next
    case False
    then show ?thesis
      using fitF_lastFlag [OF assms(1) onlyLast_flagged] no [OF assms(3)] by (auto simp: finalEOL_def)
  qed
qed

lemma F_reverse [simp]: "oldF (map reverseLine ls) = newF ls" "newF (map reverseLine ls) = oldF ls"
  by (auto simp: reverseLine_def oldF_def newF_def filter_map o_def intro!: map_cong filter_cong split: LineKind.splits)

lemma fitF_reverse: "fitF i j fa hs fb rest \<Longrightarrow> fitF j i fb (map reverseHunk hs) fa rest"
proof (induction rule: fitF.induct)
  case (fitF_hunk h i pre j old hs new rest)
  then show ?case using fitF.fitF_hunk [of "reverseHunk h" j pre i new "map reverseHunk hs" old rest]
    by auto
qed (auto intro: fitF_done)

lemma fitF_small:
  assumes "fitF i j fa hs fb rest" "int (i + length fa) < 2 ^ 62" "int (j + length fb) < 2 ^ 62"
  shows "list_all smallHunk hs"
  using assms
proof (induction rule: fitF.induct)
  case (fitF_hunk h i pre j old hs new rest)
  then show ?case by (auto simp: smallHunk_def)
qed simp

lemma fitF_text:
  assumes "fitF i j fa hs fb rest" "\<forall>x \<in> set fa \<union> set fb. P (fst x)"
  shows "list_all (\<lambda>h. list_all (\<lambda>l. P (Text l)) (Lines h)) hs"
  using assms
proof (induction rule: fitF.induct)
  case (fitF_hunk h i pre j old hs new rest)
  have "P (Text l)" if "l \<in> set (Lines h)" for l
  proof (cases "Kind l = LineAdd")
    case True
    then have "(Text l, NoEOL l) \<in> set (newF (Lines h))" using that by (force simp: newF_def)
    then have "P (fst (Text l, NoEOL l))" using fitF_hunk.prems unfolding set_append by blast
    then show ?thesis by simp
  next
    case False
    then have "(Text l, NoEOL l) \<in> set (oldF (Lines h))" using that by (force simp: oldF_def)
    then have "P (fst (Text l, NoEOL l))" using fitF_hunk.prems unfolding set_append by blast
    then show ?thesis by simp
  qed
  then show ?case using fitF_hunk by (auto simp: list_all_iff)
qed simp

section \<open>Sides of a comparison\<close>

text \<open>The conditions on the two files and their headers under which the output can be read back.\<close>

definition textSide :: "side \<Rightarrow> bool" where
  "textSide s = (list_all textLine (sideLines s) \<and> int (length (sideLines s)) < 2 ^ 60 \<and>
     (sideLines s = [] \<longrightarrow> \<not> sideNoEOL s))"

definition namedSide :: "side \<Rightarrow> bool" where
  "namedSide s = (NL \<notin> set (sideName s) \<and> TAB \<notin> set (sideName s) \<and> sideName s \<noteq> DevNull \<and>
     textLine (TAB # sideStamp s))"

end
