(* ===== verification/Diff_Groups.thy ===== *)
theory Diff_Groups
  imports Myers_Script Diff_Script
begin

text \<open>
  From the edit script to change groups: \<open>diffGroups\<close> and \<open>slideDown\<close> of \<open>src/cmds/diff/diff.go\<close>. The
  groups are a \<^const>\<open>script\<close> between the two key sequences: between two groups the sequences agree, and
  two groups are separated by a common line.
\<close>

section \<open>The changed maps\<close>

text \<open>The loop over \<open>ops\<close>; an index out of range is a panic.\<close>

fun markChanged :: "opKind list \<Rightarrow> int \<Rightarrow> int \<Rightarrow> bool list \<Rightarrow> bool list \<Rightarrow> (bool list \<times> bool list) option" where
  "markChanged [] ai bi ca cb = Some (ca, cb)"
| "markChanged (opEq # ops) ai bi ca cb = markChanged ops (ai + 1) (bi + 1) ca cb"
| "markChanged (opDel # ops) ai bi ca cb =
     (if 0 \<le> ai \<and> ai < int (length ca) then markChanged ops (ai + 1) bi (ca[nat ai := True]) cb else None)"
| "markChanged (opIns # ops) ai bi ca cb =
     (if 0 \<le> bi \<and> bi < int (length cb) then markChanged ops ai (bi + 1) ca (cb[nat bi := True]) else None)"

section \<open>Sliding runs down\<close>

text \<open>The inner loop \<open>for i < n && changed[i] { i++ }\<close>.\<close>

definition skipChanged :: "bool list \<Rightarrow> nat \<Rightarrow> nat" where
  "skipChanged changed i = i + length (takeWhile id (drop i changed))"

lemma skipChanged_ge: "i \<le> skipChanged changed i"
  by (simp add: skipChanged_def)

function slideRun :: "int list \<Rightarrow> bool list \<Rightarrow> nat \<Rightarrow> nat \<Rightarrow> bool list \<times> nat" where
  "slideRun keys changed start i =
     (if i < length keys \<and> \<not> changed ! i \<and> keys ! start = keys ! i then
        let changed' = changed[start := False, i := True]
        in slideRun keys changed' (start + 1) (skipChanged changed' (i + 1))
      else (changed, i))"
  by pat_completeness auto
termination
proof (relation "measure (\<lambda>(keys, changed, start, i). length keys - i)", simp, clarsimp)
  fix keys :: "int list" and changed :: "bool list" and start i
  assume "i < length keys"
  then show "length keys - skipChanged (changed[start := False, i := True]) (Suc i) < length keys - i"
    using skipChanged_ge [of "Suc i" "changed[start := False, i := True]"] by linarith
qed

declare slideRun.simps [simp del]

lemma slideRun_ge: "slideRun keys changed start i = (changed', i') \<Longrightarrow> i \<le> i'"
proof (induction keys changed start i rule: slideRun.induct)
  case (1 keys changed start i)
  let ?c = "changed[start := False, i := True]"
  show ?case
  proof (cases "i < length keys \<and> \<not> changed ! i \<and> keys ! start = keys ! i")
    case True
    then have "slideRun keys ?c (start + 1) (skipChanged ?c (i + 1)) = (changed', i')"
      using "1.prems" by (simp add: slideRun.simps [of keys changed start i] Let_def)
    from "1.IH" [OF True refl this] show ?thesis using skipChanged_ge [of "i + 1" ?c] by linarith
  next
    case False
    then show ?thesis using "1.prems" slideRun.simps [of keys changed start i] by auto
  qed
qed

lemma slideRun_gt: "(changed', i') = slideRun keys changed i (skipChanged changed (Suc i)) \<Longrightarrow> i < i'"
  using slideRun_ge [of keys changed i "skipChanged changed (Suc i)" changed' i'] skipChanged_ge [of "Suc i" changed] by simp

text \<open>\<open>changed[i]\<close> holds where the run starts, so its end is searched from \<open>i + 1\<close>.\<close>

function slideLoop :: "int list \<Rightarrow> bool list \<Rightarrow> nat \<Rightarrow> bool list" where
  "slideLoop keys changed i =
     (if i < length keys then
        if \<not> changed ! i then slideLoop keys changed (i + 1)
        else case slideRun keys changed i (skipChanged changed (i + 1)) of
               (changed', i') \<Rightarrow> slideLoop keys changed' i'
      else changed)"
  by pat_completeness auto
termination
  by (relation "measure (\<lambda>(keys, changed, i). length keys - i)") (auto split: prod.split dest!: slideRun_gt [OF sym])

declare slideLoop.simps [simp del]

definition slideDown :: "bool list \<Rightarrow> int list \<Rightarrow> bool list" where
  "slideDown changed keys = slideLoop keys changed 0"

section \<open>Pairing the maps into groups\<close>

text \<open>The loop of \<open>diffGroups\<close> over the suffixes of the two maps from \<open>i\<close> and \<open>j\<close>.\<close>

definition startsChanged :: "bool list \<Rightarrow> bool" where
  "startsChanged c = (c \<noteq> [] \<and> hd c)"

function pairGroups :: "int \<Rightarrow> int \<Rightarrow> bool list \<Rightarrow> bool list \<Rightarrow> group list" where
  "pairGroups i j ca cb =
     (if ca = [] \<and> cb = [] then []
      else if startsChanged ca \<or> startsChanged cb then
        let p = length (takeWhile id ca); q = length (takeWhile id cb)
        in \<lparr>a0 = i, a1 = i + int p, b0 = j, b1 = j + int q\<rparr> #
             pairGroups (i + int p) (j + int q) (drop p ca) (drop q cb)
      else pairGroups (i + 1) (j + 1) (tl ca) (tl cb))"
  by pat_completeness auto
termination
proof (relation "measure (\<lambda>(i, j, ca, cb). length ca + length cb)", simp, clarsimp)
  fix ca cb :: "bool list"
  assume "startsChanged ca \<or> startsChanged cb"
  then have "takeWhile id ca \<noteq> [] \<or> takeWhile id cb \<noteq> []"
    by (cases ca; cases cb) (auto simp: startsChanged_def)
  then have "length (takeWhile id ca) \<noteq> 0 \<or> length (takeWhile id cb) \<noteq> 0" by simp
  then show "length ca - length (takeWhile id ca) + (length cb - length (takeWhile id cb)) < length ca + length cb"
    using length_takeWhile_le [of id ca] length_takeWhile_le [of id cb] by linarith
next
  fix i j :: int and ca cb :: "bool list"
  assume "\<not> (ca = [] \<and> cb = [])" "\<not> (startsChanged ca \<or> startsChanged cb)"
  then show "((i + 1, j + 1, tl ca, tl cb), i, j, ca, cb) \<in> measure (\<lambda>(i, j, ca, cb). length ca + length cb)"
    by (cases ca; cases cb) auto
qed

declare pairGroups.simps [simp del]

definition diffGroups :: "int list \<Rightarrow> int list \<Rightarrow> group list option" where
  "diffGroups ka kb =
     (case myersOps ka kb of None \<Rightarrow> None | Some ops \<Rightarrow>
        (case markChanged ops 0 0 (replicate (length ka) False) (replicate (length kb) False) of
           None \<Rightarrow> None
         | Some (ca, cb) \<Rightarrow> Some (pairGroups 0 0 (slideDown ca ka) (slideDown cb kb))))"

section \<open>What the maps keep\<close>

text \<open>The elements that a changed map leaves: the common subsequence.\<close>

definition kept :: "bool list \<Rightarrow> 'a list \<Rightarrow> 'a list" where
  "kept c xs = map snd (filter (\<lambda>p. \<not> fst p) (zip c xs))"

lemma kept_simps [simp]: "kept [] xs = []" "kept c [] = []" "kept (True # c) (x # xs) = kept c xs"
  "kept (False # c) (x # xs) = x # kept c xs"
  by (simp_all add: kept_def)

lemma kept_append: "length c1 = length x1 \<Longrightarrow> kept (c1 @ c2) (x1 @ x2) = kept c1 x1 @ kept c2 x2"
  by (simp add: kept_def)

lemma kept_none: "\<forall>b \<in> set c. b \<Longrightarrow> kept c xs = []"
  by (auto simp: kept_def filter_empty_conv dest: set_zip_leftD)

lemma markChanged_ok:
  "aligned ops a b \<Longrightarrow> \<exists>c d. markChanged ops (int (length ca)) (int (length cb))
      (ca @ replicate (length a) False) (cb @ replicate (length b) False) = Some (ca @ c, cb @ d) \<and>
    length c = length a \<and> length d = length b \<and> kept c a = kept d b"
proof (induction ops a b arbitrary: ca cb rule: aligned.induct)
  case (2 ops x a y b)
  then obtain c d where "markChanged ops (int (length (ca @ [False]))) (int (length (cb @ [False])))
      ((ca @ [False]) @ replicate (length a) False) ((cb @ [False]) @ replicate (length b) False) =
      Some ((ca @ [False]) @ c, (cb @ [False]) @ d)" "length c = length a" "length d = length b" "kept c a = kept d b"
    by fastforce
  then show ?case using 2(2) by (intro exI [of _ "False # c"] exI [of _ "False # d"]) (simp add: add.commute)
next
  case (3 ops x a b)
  then obtain c d where "markChanged ops (int (length (ca @ [True]))) (int (length cb))
      ((ca @ [True]) @ replicate (length a) False) (cb @ replicate (length b) False) =
      Some ((ca @ [True]) @ c, cb @ d)" "length c = length a" "length d = length b" "kept c a = kept d b"
    by fastforce
  then show ?case by (intro exI [of _ "True # c"] exI [of _ d]) (simp add: add.commute list_update_append)
next
  case (4 ops a y b)
  then obtain c d where "markChanged ops (int (length ca)) (int (length (cb @ [True])))
      (ca @ replicate (length a) False) ((cb @ [True]) @ replicate (length b) False) =
      Some (ca @ c, (cb @ [True]) @ d)" "length c = length a" "length d = length b" "kept c a = kept d b"
    by fastforce
  then show ?case by (intro exI [of _ c] exI [of _ "True # d"]) (simp add: add.commute list_update_append)
qed auto

section \<open>Sliding keeps the common subsequence\<close>

lemma slide_swap:
  assumes "length c = length ks" "s < i" "i < length ks" "\<forall>t. s \<le> t \<and> t < i \<longrightarrow> c ! t" "\<not> c ! i" "ks ! s = ks ! i"
  shows "kept (c[s := False, i := True]) ks = kept c ks"
proof -
  have dec: "xs = take s xs @ xs ! s # take (i - Suc s) (drop (Suc s) xs) @ xs ! i # drop (Suc i) xs"
    if "length xs = length ks" for xs :: "'b list"
  proof -
    have "drop (Suc s) xs = take (i - Suc s) (drop (Suc s) xs) @ xs ! i # drop (Suc i) xs"
      using that assms(2,3) append_take_drop_id [of "i - Suc s" "drop (Suc s) xs"] Cons_nth_drop_Suc [of i xs]
      by simp
    then show ?thesis using that assms(2,3) id_take_nth_drop [of s xs] by simp
  qed
  define C1 C2 C3 where "C1 = take s c" and "C2 = take (i - Suc s) (drop (Suc s) c)" and "C3 = drop (Suc i) c"
  have c: "c = C1 @ True # C2 @ False # C3" "length C1 = s" "length C2 = i - Suc s"
    using dec [OF assms(1)] assms(1-5) by (simp_all add: C1_def C2_def C3_def)
  define K1 K2 K3 where "K1 = take s ks" and "K2 = take (i - Suc s) (drop (Suc s) ks)" and "K3 = drop (Suc i) ks"
  have k: "ks = K1 @ ks ! s # K2 @ ks ! i # K3" "length K1 = s" "length K2 = i - Suc s"
    using dec [of ks, OF refl] assms(2,3) by (simp_all add: K1_def K2_def K3_def)
  have i: "i = length C1 + Suc (length C2)" using c assms(2) by simp
  have all: "\<forall>b \<in> set C2. b"
  proof
    fix b assume "b \<in> set C2"
    then obtain t where t: "t < length C2" "C2 ! t = b" by (auto simp: in_set_conv_nth)
    then have "c ! (s + Suc t) = b" using c by (simp add: nth_append)
    moreover have "s + Suc t < i" using t(1) c(2) i by simp
    ultimately show b using assms(4) by auto
  qed
  have upd: "c[s := False, i := True] = C1 @ False # C2 @ True # C3"
    using c(1,2) i by (simp add: list_update_append)
  have len: "length C1 = length K1" "length C2 = length K2" using c k by simp_all
  show ?thesis unfolding upd
    by (subst k(1), subst (2) k(1)) (simp add: c(1) kept_append len kept_none [OF all] assms(6))
qed

lemma skipChanged_all:
  assumes "\<forall>t. s \<le> t \<and> t < i \<longrightarrow> c ! t" "s \<le> t" "t < skipChanged c i" shows "c ! t"
proof (cases "t < i")
  case False
  then have lt: "t - i < length (takeWhile id (drop i c))" using assms(3) by (simp add: skipChanged_def)
  have "drop i c ! (t - i)" using takeWhile_nth [OF lt] set_takeWhileD [OF nth_mem [OF lt]] by simp
  moreover have "i \<le> length c" using lt by (cases "i \<le> length c") auto
  ultimately show ?thesis using False by simp
qed (use assms in simp)

lemma skipChanged_le: "i \<le> length c \<Longrightarrow> skipChanged c i \<le> length c"
  using length_takeWhile_le [of id "drop i c"] by (simp add: skipChanged_def)

lemma slideRun_kept:
  "slideRun keys c s i = (c', i') \<Longrightarrow> length c = length keys \<Longrightarrow> s < i \<Longrightarrow> i \<le> length keys \<Longrightarrow>
   \<forall>t. s \<le> t \<and> t < i \<longrightarrow> c ! t \<Longrightarrow> length c' = length keys \<and> kept c' keys = kept c keys"
proof (induction keys c s i rule: slideRun.induct)
  case (1 keys c s i)
  let ?c = "c[s := False, i := True]"
  show ?case
  proof (cases "i < length keys \<and> \<not> c ! i \<and> keys ! s = keys ! i")
    case True
    then have eq: "slideRun keys ?c (s + 1) (skipChanged ?c (i + 1)) = (c', i')"
      using "1.prems"(1) by (simp add: slideRun.simps [of keys c s i] Let_def)
    have run: "\<forall>t. s + 1 \<le> t \<and> t < i + 1 \<longrightarrow> ?c ! t"
      using "1.prems" True by (auto simp: nth_list_update less_Suc_eq)
    have "\<forall>t. s + 1 \<le> t \<and> t < skipChanged ?c (i + 1) \<longrightarrow> ?c ! t"
      using skipChanged_all [OF run] by blast
    moreover have "skipChanged ?c (i + 1) \<le> length keys"
      using skipChanged_le [of "i + 1" ?c] "1.prems"(2) True by simp
    moreover have "s + 1 < skipChanged ?c (i + 1)" using skipChanged_ge [of "i + 1" ?c] "1.prems"(3) by linarith
    ultimately have "length c' = length keys \<and> kept c' keys = kept ?c keys"
      using "1.IH" [OF True refl eq] "1.prems"(2) by simp
    then show ?thesis using slide_swap [of c keys s i] "1.prems" True by simp
  next
    case False
    then show ?thesis using "1.prems" slideRun.simps [of keys c s i] by auto
  qed
qed

lemma slideLoop_kept: "length c = length keys \<Longrightarrow>
    length (slideLoop keys c i) = length keys \<and> kept (slideLoop keys c i) keys = kept c keys"
proof (induction keys c i rule: slideLoop.induct)
  case (1 keys c i)
  show ?case
  proof (cases "i < length keys \<and> c ! i")
    case True
    obtain c' i' where r: "slideRun keys c i (skipChanged c (i + 1)) = (c', i')" by fastforce
    have "\<forall>t. i \<le> t \<and> t < i + 1 \<longrightarrow> c ! t" using True by (auto simp: less_Suc_eq_le)
    then have "\<forall>t. i \<le> t \<and> t < skipChanged c (i + 1) \<longrightarrow> c ! t" using skipChanged_all by blast
    moreover have "i < skipChanged c (i + 1)" using skipChanged_ge [of "i + 1" c] by linarith
    moreover have "skipChanged c (i + 1) \<le> length keys" using skipChanged_le [of "i + 1" c] True "1.prems" by simp
    ultimately have k: "length c' = length keys" "kept c' keys = kept c keys"
      using slideRun_kept [OF r "1.prems"] by simp_all
    have "slideLoop keys c i = slideLoop keys c' i'" using True r slideLoop.simps [of keys c i] by simp
    then show ?thesis using "1.IH"(2) [OF _ _ r [symmetric] k(1)] True k(2) by simp
  next
    case False
    then show ?thesis using "1.IH"(1) "1.prems" slideLoop.simps [of keys c i] by auto
  qed
qed

lemma slideDown_kept: "length c = length keys \<Longrightarrow>
    length (slideDown c keys) = length keys \<and> kept (slideDown c keys) keys = kept c keys"
  by (simp add: slideDown_def slideLoop_kept)

section \<open>The groups are a script\<close>

lemma script_back:
  assumes "script xs ys (Suc i) (Suc j) gs" "i < length xs" "j < length ys" "xs ! i = ys ! j"
  shows "script xs ys i j gs"
proof (cases gs)
  case Nil
  then have "drop (Suc i) xs = drop (Suc j) ys" using assms(1) by (auto elim: script_NilE)
  then have "drop i xs = drop j ys" using assms by (simp flip: Cons_nth_drop_Suc)
  then show ?thesis using Nil assms by (auto intro: script_done)
next
  case (Cons g gs')
  obtain k p q where h: "a0 g = int (Suc i + k)" "b0 g = int (Suc j + k)" "a1 g = int p" "b1 g = int q"
    "Suc i + k \<le> p" "Suc j + k \<le> q" "Suc i + k < p \<or> Suc j + k < q" "p \<le> length xs" "q \<le> length ys"
    "take k (drop (Suc i) xs) = take k (drop (Suc j) ys)" "script xs ys p q gs'"
    using script_ConsE [OF assms(1) [unfolded Cons]] by blast
  have "take (Suc k) (drop i xs) = take (Suc k) (drop j ys)"
    using h(10) assms by (simp flip: Cons_nth_drop_Suc)
  then show ?thesis using h unfolding Cons by (intro script_group [of g i "Suc k" j p q]) auto
qed

lemma kept_drop_run: "length c = length xs \<Longrightarrow>
    kept (drop (length (takeWhile id c)) c) (drop (length (takeWhile id c)) xs) = kept c xs"
  by (induction c xs rule: list_induct2) auto

lemma unchanged_run: "\<not> startsChanged (drop (length (takeWhile id c)) c)"
proof -
  have "drop (length (takeWhile id c)) c = dropWhile id c" by (simp add: dropWhile_eq_drop)
  then show ?thesis using hd_dropWhile [of id c] by (auto simp: startsChanged_def)
qed

lemma kept_unchanged: "\<not> startsChanged c \<Longrightarrow> length c = length xs \<Longrightarrow> c \<noteq> [] \<Longrightarrow>
    kept c xs = hd xs # kept (tl c) (tl xs)"
  by (cases c; cases xs) (auto simp: startsChanged_def)

lemma pairGroups_script:
  "length ca = length xs - i \<Longrightarrow> i \<le> length xs \<Longrightarrow> length cb = length ys - j \<Longrightarrow> j \<le> length ys \<Longrightarrow>
   kept ca (drop i xs) = kept cb (drop j ys) \<Longrightarrow> script xs ys i j (pairGroups (int i) (int j) ca cb)"
proof (induction "length ca + length cb" arbitrary: i j ca cb rule: less_induct)
  case less
  note l = less.prems
  note unroll = pairGroups.simps [of "int i" "int j" ca cb]
  consider "ca = []" "cb = []" | "\<not> (ca = [] \<and> cb = [])" "startsChanged ca \<or> startsChanged cb"
    | "\<not> (ca = [] \<and> cb = [])" "\<not> startsChanged ca" "\<not> startsChanged cb" by blast
  then show ?case
  proof cases
    case 1
    then show ?thesis using unroll l by (auto intro: script_done)
  next
    case 2
    let ?p = "length (takeWhile id ca)" and ?q = "length (takeWhile id cb)"
    have pq: "?p \<le> length ca" "?q \<le> length cb" by (simp_all add: length_takeWhile_le)
    have pos: "0 < ?p \<or> 0 < ?q"
      using 2(2) by (cases ca; cases cb) (auto simp: startsChanged_def)
    have "script xs ys (i + ?p) (j + ?q) (pairGroups (int (i + ?p)) (int (j + ?q)) (drop ?p ca) (drop ?q cb))"
    proof (rule less.hyps)
      show "kept (drop ?p ca) (drop (i + ?p) xs) = kept (drop ?q cb) (drop (j + ?q) ys)"
        using kept_drop_run [of ca "drop i xs"] kept_drop_run [of cb "drop j ys"] l by (simp add: add.commute)
      show "length (drop ?p ca) + length (drop ?q cb) < length ca + length cb"
        using pq pos by (simp only: length_drop) linarith
    qed (use l pq in \<open>auto\<close>)
    moreover have "i \<le> i + ?p" "j \<le> j + ?q" "i < i + ?p \<or> j < j + ?q" "i + ?p \<le> length xs" "j + ?q \<le> length ys"
      using l pq pos by linarith+
    ultimately have "script xs ys i j (\<lparr>a0 = int i, a1 = int i + int ?p, b0 = int j, b1 = int j + int ?q\<rparr> #
        pairGroups (int (i + ?p)) (int (j + ?q)) (drop ?p ca) (drop ?q cb))"
      by (intro script_group [of _ i 0 j "i + ?p" "j + ?q"]) simp_all
    then show ?thesis unfolding unroll Let_def if_not_P [OF 2(1)] if_P [OF 2(2)] by simp
  next
    case 3
    have ne: "ca \<noteq> []" "cb \<noteq> []"
    proof -
      show "ca \<noteq> []" using 3 l kept_unchanged [of cb "drop j ys"] by (cases ca) auto
      show "cb \<noteq> []" using 3 l kept_unchanged [of ca "drop i xs"] by (cases cb) auto
    qed
    then have lt: "i < length xs" "j < length ys" using l by (cases ca; cases cb; auto)+
    have k: "hd (drop i xs) # kept (tl ca) (tl (drop i xs)) = hd (drop j ys) # kept (tl cb) (tl (drop j ys))"
      using kept_unchanged [of ca "drop i xs"] kept_unchanged [of cb "drop j ys"] 3 ne l by simp
    have "script xs ys (Suc i) (Suc j) (pairGroups (int (Suc i)) (int (Suc j)) (tl ca) (tl cb))"
    proof (rule less.hyps)
      show "kept (tl ca) (drop (Suc i) xs) = kept (tl cb) (drop (Suc j) ys)" using k by (simp add: drop_Suc tl_drop)
    qed (use l lt ne in \<open>auto\<close>)
    moreover have "pairGroups (int i) (int j) ca cb = pairGroups (int (Suc i)) (int (Suc j)) (tl ca) (tl cb)"
      using unroll 3 ne by (simp add: add.commute)
    moreover have "xs ! i = ys ! j" using k lt by (simp add: hd_drop_conv_nth)
    ultimately show ?thesis using script_back lt by simp
  qed
qed

lemma pairGroups_separated:
  "separated (pairGroups i j ca cb) \<and> (pairGroups i j ca cb \<noteq> [] \<longrightarrow> i \<le> a0 (hd (pairGroups i j ca cb)) \<and>
     (\<not> startsChanged ca \<and> \<not> startsChanged cb \<longrightarrow> i < a0 (hd (pairGroups i j ca cb))))"
proof (induction i j ca cb rule: pairGroups.induct)
  case (1 i j ca cb)
  note unroll = pairGroups.simps [of i j ca cb]
  consider "ca = []" "cb = []" | "\<not> (ca = [] \<and> cb = [])" "startsChanged ca \<or> startsChanged cb"
    | "\<not> (ca = [] \<and> cb = [])" "\<not> startsChanged ca" "\<not> startsChanged cb" by blast
  then show ?case
  proof cases
    case 2
    let ?p = "length (takeWhile id ca)" and ?q = "length (takeWhile id cb)"
    let ?g = "\<lparr>a0 = i, a1 = i + int ?p, b0 = j, b1 = j + int ?q\<rparr>"
    let ?gs = "pairGroups (i + int ?p) (j + int ?q) (drop ?p ca) (drop ?q cb)"
    have IH: "separated ?gs" "?gs \<noteq> [] \<longrightarrow> i + int ?p < a0 (hd ?gs)"
      using "1.IH"(1) [OF 2 refl refl] unchanged_run by blast+
    have "separated (?g # ?gs)" using IH by (cases ?gs) auto
    then show ?thesis unfolding unroll using 2 by (auto simp: Let_def)
  next
    case 3
    then show ?thesis using "1.IH"(2) unroll by auto
  qed (use unroll in simp)
qed

text \<open>What the emitters need of the groups.\<close>

lemma diffGroups_ok: "\<exists>gs. diffGroups ka kb = Some gs \<and> script ka kb 0 0 gs \<and> separated gs"
proof -
  obtain ops where ops: "myersOps ka kb = Some ops" "aligned ops ka kb"
    using myersRec_ok [of ka kb] unfolding myersOps_def by blast
  obtain ca cb where c: "markChanged ops 0 0 (replicate (length ka) False) (replicate (length kb) False) = Some (ca, cb)"
    "length ca = length ka" "length cb = length kb" "kept ca ka = kept cb kb"
    using markChanged_ok [OF ops(2), of "[]" "[]"] by auto
  let ?gs = "pairGroups 0 0 (slideDown ca ka) (slideDown cb kb)"
  have "diffGroups ka kb = Some ?gs" by (simp add: diffGroups_def ops(1) c(1))
  moreover have "script ka kb 0 0 ?gs"
    using pairGroups_script [of "slideDown ca ka" ka 0 "slideDown cb kb" kb 0] slideDown_kept [OF c(2)]
      slideDown_kept [OF c(3)] c(4) by simp
  ultimately show ?thesis using pairGroups_separated by blast
qed

text \<open>There are no groups exactly when the sequences are equal.\<close>

lemma markChanged_none: "edits ops = 0 \<Longrightarrow> markChanged ops i j ca cb = Some (ca, cb)"
proof (induction ops arbitrary: i j)
  case (Cons k ops)
  then show ?case by (cases k) auto
qed simp

lemma slideLoop_none: "\<forall>b \<in> set c. \<not> b \<Longrightarrow> length c = length keys \<Longrightarrow> slideLoop keys c i = c"
proof (induction keys c i rule: slideLoop.induct)
  case (1 keys c i)
  show ?case
  proof (cases "i < length keys")
    case True
    then have "c ! i \<in> set c" using "1.prems"(2) by simp
    then have "\<not> c ! i" using "1.prems"(1) by blast
    then show ?thesis using "1.IH"(1) [OF True] "1.prems" True by (subst slideLoop.simps) simp
  next
    case False
    then show ?thesis by (subst slideLoop.simps) simp
  qed
qed

lemma pairGroups_none: "\<forall>b \<in> set ca \<union> set cb. \<not> b \<Longrightarrow> pairGroups i j ca cb = []"
proof (induction i j ca cb rule: pairGroups.induct)
  case (1 i j ca cb)
  have "\<not> startsChanged ca" "\<not> startsChanged cb"
    using "1.prems" by (cases ca; cases cb; simp add: startsChanged_def)+
  moreover have "\<forall>b \<in> set (tl ca) \<union> set (tl cb). \<not> b"
    using "1.prems" by (cases ca; cases cb) auto
  ultimately show ?case using "1.IH"(2) by (subst pairGroups.simps) simp
qed

lemma diffGroups_Nil: "diffGroups ka kb = Some [] \<longleftrightarrow> ka = kb"
proof
  assume "diffGroups ka kb = Some []"
  then have "script ka kb 0 0 []" using diffGroups_ok [of ka kb] by auto
  then show "ka = kb" by (auto elim: script_NilE)
next
  assume eq: "ka = kb"
  obtain ops where ops: "myersOps ka kb = Some ops" "edits ops = 0"
    using myersRec_ok [of ka kb] eq ed_0 [of kb kb] unfolding myersOps_def by auto
  let ?c = "replicate (length kb) False"
  have "slideDown ?c kb = ?c" unfolding slideDown_def by (rule slideLoop_none) auto
  then show "diffGroups ka kb = Some []"
    using ops eq markChanged_none [OF ops(2)] pairGroups_none [of ?c ?c 0 0] by (simp add: diffGroups_def)
qed

end
