(* ===== verification/Diff_Compare.thy ===== *)
theory Diff_Compare
  imports Go_Args Diff_Groups
begin

text \<open>
  The comparison of two operands (\<open>src/cmds/diff/diff.go\<close>): the option scan, the loading and the keys of
  a side, \<open>compareFiles\<close>, the recursive directory comparison and \<open>dispatch\<close>. The file system is the
  record \<open>diffEnv\<close>, a function of the operand as typed; a run is the bytes written to the two output
  streams and the exit status, \<^term>\<open>None\<close> a panic.
\<close>

section \<open>Options\<close>

record diffOptions =
  oUnified :: bool
  oContextStyle :: bool
  oEdStyle :: bool
  oForwardEdStyle :: bool
  oContext :: int
  oRecursive :: bool
  oBrief :: bool
  oNewFile :: bool
  oIgnoreCase :: bool
  oIgnoreAllSpace :: bool
  oIgnoreSpaceChange :: bool
  oOptTokens :: "string list"

definition defaultOptions :: diffOptions where
  "defaultOptions = \<lparr>oUnified = False, oContextStyle = False, oEdStyle = False, oForwardEdStyle = False,
     oContext = 3, oRecursive = False, oBrief = False, oNewFile = False, oIgnoreCase = False,
     oIgnoreAllSpace = False, oIgnoreSpaceChange = False, oOptTokens = []\<rparr>"

abbreviation QUOTE :: char where "QUOTE \<equiv> CHR 0x27"

definition quoted :: "string \<Rightarrow> string" where
  "quoted s = QUOTE # s @ [QUOTE]"

definition parseContext :: "string \<Rightarrow> string + int" where
  "parseContext v =
     (case goAtoi v of
        Some n \<Rightarrow> if n < 0 then Inl (''invalid context length '' @ quoted v) else Inr n
      | None \<Rightarrow> Inl (''invalid context length '' @ quoted v))"

definition addToken :: "string \<Rightarrow> diffOptions \<Rightarrow> diffOptions" where
  "addToken tok opts = opts\<lparr>oOptTokens := oOptTokens opts @ [tok]\<rparr>"

text \<open>The scan of a cluster of short options: the options, the letters kept, and whether \<open>args[i+1]\<close> was taken.\<close>

fun scanCluster :: "string \<Rightarrow> string list \<Rightarrow> diffOptions \<Rightarrow> string \<Rightarrow> string + diffOptions \<times> string \<times> bool" where
  "scanCluster [] next opts keep = Inr (opts, keep, False)"
| "scanCluster (c # body) next opts keep =
     (if c = CHR ''e'' then scanCluster body next (opts\<lparr>oEdStyle := True\<rparr>) keep
      else if c = CHR ''f'' then scanCluster body next (opts\<lparr>oForwardEdStyle := True\<rparr>) keep
      else if c = CHR ''u'' then scanCluster body next (opts\<lparr>oUnified := True\<rparr>) keep
      else if c = CHR ''c'' then scanCluster body next (opts\<lparr>oContextStyle := True\<rparr>) keep
      else if c = CHR ''U'' \<or> c = CHR ''C'' then
        (let opts' = (if c = CHR ''U'' then opts\<lparr>oUnified := True\<rparr> else opts\<lparr>oContextStyle := True\<rparr>)
         in if body = [] \<and> next = [] then Inl (''option requires an argument -- '' @ quoted [c])
            else case parseContext (if body \<noteq> [] then body else hd next) of
                   Inl perr \<Rightarrow> Inl perr
                 | Inr n \<Rightarrow> Inr (opts'\<lparr>oContext := n\<rparr>, keep, body = []))
      else scanCluster body next opts (keep @ [c]))"

text \<open>One long option of the pre-scan: \<^term>\<open>None\<close> when it is kept for the flag parser.\<close>

definition scanLong :: "string \<Rightarrow> diffOptions \<Rightarrow> (string + diffOptions) option" where
  "scanLong tok opts =
     (if tok = ''--ed'' then Some (Inr (opts\<lparr>oEdStyle := True\<rparr>))
      else if tok = ''--forward-ed'' then Some (Inr (opts\<lparr>oForwardEdStyle := True\<rparr>))
      else if tok = ''--unified'' then Some (Inr (opts\<lparr>oUnified := True\<rparr>))
      else case cutPrefix tok ''--unified='' of
        Some v \<Rightarrow> (case parseContext v of
                     Inl perr \<Rightarrow> Some (Inl perr)
                   | Inr n \<Rightarrow> Some (Inr (opts\<lparr>oUnified := True, oContext := n\<rparr>)))
      | None \<Rightarrow>
          if tok = ''--context'' then Some (Inr (opts\<lparr>oContextStyle := True\<rparr>))
          else (case cutPrefix tok ''--context='' of
                  Some v \<Rightarrow> (case parseContext v of
                               Inl perr \<Rightarrow> Some (Inl perr)
                             | Inr n \<Rightarrow> Some (Inr (opts\<lparr>oContextStyle := True, oContext := n\<rparr>)))
                | None \<Rightarrow> None))"

fun prescanLoop :: "string list \<Rightarrow> diffOptions \<Rightarrow> string list \<Rightarrow> string + string list \<times> diffOptions" where
  "prescanLoop [] opts rest = Inr (rest, opts)"
| "prescanLoop (tok # args) opts rest =
     (if tok = ''--'' \<or> tok = ''-'' \<or> \<not> hasPrefix tok ''-'' then Inr (rest @ tok # args, opts)
      else if hasPrefix tok ''--'' then
        (case scanLong tok opts of
           Some (Inl perr) \<Rightarrow> Inl perr
         | Some (Inr opts') \<Rightarrow> prescanLoop args (addToken tok opts') rest
         | None \<Rightarrow> prescanLoop args (addToken tok opts) (rest @ [tok]))
      else
        (case scanCluster (tl tok) args opts [] of
           Inl perr \<Rightarrow> Inl perr
         | Inr (opts', keep, took) \<Rightarrow>
             (let rest' = (if keep \<noteq> [] then rest @ [CHR ''-'' # keep] else rest)
              in if took then prescanLoop (tl args) (addToken (hd args) (addToken tok opts')) rest'
                 else prescanLoop args (addToken tok opts') rest')))"

definition prescan :: "string list \<Rightarrow> string + string list \<times> diffOptions" where
  "prescan args = prescanLoop args defaultOptions []"

section \<open>The keys of a side\<close>

definition isSpaceByte :: "char \<Rightarrow> bool" where
  "isSpaceByte c = (c = SP \<or> c = TAB \<or> c = CHR 0x0B \<or> c = CHR 0x0C \<or> c = CR)"

text \<open>The loop of \<open>-b\<close>: \<open>run\<close> says that white space was read and not yet written.\<close>

fun collapseRuns :: "bool \<Rightarrow> string \<Rightarrow> string" where
  "collapseRuns run [] = []"
| "collapseRuns run (c # cs) =
     (if isSpaceByte c then collapseRuns True cs
      else (if run then [SP, c] else [c]) @ collapseRuns False cs)"

definition asciiLower :: "char \<Rightarrow> char" where
  "asciiLower c = (if 65 \<le> (of_char c :: nat) \<and> (of_char c :: nat) \<le> 90 then char_of ((of_char c :: nat) + 32) else c)"

definition canon :: "string \<Rightarrow> diffOptions \<Rightarrow> string" where
  "canon line opts =
     (let line' = (if oIgnoreAllSpace opts then filter (\<lambda>c. \<not> isSpaceByte c) line
                   else if oIgnoreSpaceChange opts then collapseRuns False line
                   else line)
      in if oIgnoreCase opts then map asciiLower line' else line')"

text \<open>\<open>intern\<close> as an association list, so that \<open>len(intern)\<close> is its length.\<close>

type_synonym internMap = "(string \<times> int) list"

definition internKey :: "internMap \<Rightarrow> string \<Rightarrow> int \<times> internMap" where
  "internKey m k =
     (case map_of m k of
        Some i \<Rightarrow> (i, m)
      | None \<Rightarrow> (int (length m), (k, int (length m)) # m))"

fun internKeys :: "internMap \<Rightarrow> string list \<Rightarrow> int list \<times> internMap" where
  "internKeys m [] = ([], m)"
| "internKeys m (k # ks) =
     (case internKey m k of (i, m') \<Rightarrow> (case internKeys m' ks of (is, m'') \<Rightarrow> (i # is, m'')))"

text \<open>The key of line \<open>i\<close>: a missing final newline is folded into the last one.\<close>

definition lineKeys :: "diffOptions \<Rightarrow> string list \<Rightarrow> bool \<Rightarrow> string list" where
  "lineKeys opts lns noEOL =
     map (\<lambda>i. canon (lns ! i) opts @
            (if noEOL \<and> Suc i = length lns \<and> \<not> oIgnoreAllSpace opts \<and> \<not> oIgnoreSpaceChange opts
             then [NUL] else []))
         [0..<length lns]"

record loadedSide =
  ldName :: string
  ldData :: string
  ldStamp :: string

definition prep :: "loadedSide \<Rightarrow> diffOptions \<Rightarrow> internMap \<Rightarrow> side \<times> internMap" where
  "prep s opts intern =
     (if ldData s = [] then
        (\<lparr>sideName = ldName s, sideLines = [], sideKeys = [], sideNoEOL = False, sideStamp = ldStamp s\<rparr>, intern)
      else
        let d = ldData s;
            noEOL = (last d \<noteq> NL);
            lns = splitByte NL (if noEOL then d else butlast d)
        in case internKeys intern (lineKeys opts lns noEOL) of (ks, intern') \<Rightarrow>
             (\<lparr>sideName = ldName s, sideLines = lns, sideKeys = ks, sideNoEOL = noEOL, sideStamp = ldStamp s\<rparr>,
              intern'))"

section \<open>The file system\<close>

datatype fileKind = Regular | Directory | NamedPipe | Socket | CharDevice | BlockDevice | SpecialFile

record fileInfo =
  fiKind :: fileKind
  fiStamp :: string

record diffEnv =
  envStat :: "string \<Rightarrow> osError + fileInfo"
  envRead :: "string \<Rightarrow> osError + string"
  envDir :: "string \<Rightarrow> osError + string list"
  envIn :: "osError + string"
  envNow :: string
  envEpoch :: string

definition errText :: "osError \<Rightarrow> string" where
  "errText e = (case e of ErrNotExist \<Rightarrow> ''No such file or directory'' | OtherError m \<Rightarrow> m)"

definition isDir :: "fileInfo \<Rightarrow> bool" where
  "isDir fi = (fiKind fi = Directory)"

definition kindWord :: "fileInfo \<Rightarrow> string" where
  "kindWord fi =
     (case fiKind fi of
        Directory \<Rightarrow> ''a directory''
      | Regular \<Rightarrow> ''a regular file''
      | NamedPipe \<Rightarrow> ''a named pipe''
      | Socket \<Rightarrow> ''a socket''
      | CharDevice \<Rightarrow> ''a character special file''
      | BlockDevice \<Rightarrow> ''a block special file''
      | SpecialFile \<Rightarrow> ''a special file'')"

definition joinDisplay :: "string \<Rightarrow> string \<Rightarrow> string" where
  "joinDisplay dir name = (if hasSuffixByte dir CHR ''/'' then dir @ name else dir @ ''/'' @ name)"

text \<open>Reading the standard input leaves it empty; the second component is what is left of it.\<close>

definition loadSide :: "diffEnv \<Rightarrow> osError + string \<Rightarrow> diffOptions \<Rightarrow> string \<Rightarrow>
    (osError + loadedSide) \<times> (osError + string)" where
  "loadSide env inp opts name =
     (if name = ''-'' then
        (case inp of
           Inl e \<Rightarrow> (Inl e, inp)
         | Inr d \<Rightarrow> (Inr \<lparr>ldName = name, ldData = d, ldStamp = envNow env\<rparr>, Inr []))
      else
        ((case envStat env name of
            Inl e \<Rightarrow> if oNewFile opts \<and> e = ErrNotExist
                     then Inr \<lparr>ldName = name, ldData = [], ldStamp = envEpoch env\<rparr>
                     else Inl e
          | Inr fi \<Rightarrow> (case envRead env name of
                        Inl e \<Rightarrow> Inl e
                      | Inr d \<Rightarrow> Inr \<lparr>ldName = name, ldData = d, ldStamp = fiStamp fi\<rparr>)), inp))"

section \<open>Comparing two files\<close>

type_synonym runOut = "string \<times> string \<times> int"

definition isBinary :: "string \<Rightarrow> bool" where
  "isBinary d = (NUL \<in> set d)"

definition diffMsg :: "string \<Rightarrow> string \<Rightarrow> string" where
  "diffMsg name msg = ''diff: '' @ name @ '': '' @ msg @ [NL]"

definition printPairHeader :: "diffOptions \<Rightarrow> string \<Rightarrow> string \<Rightarrow> string" where
  "printPairHeader opts a b = joinByte SP (''diff'' # oOptTokens opts @ [a, b]) @ [NL]"

definition noEOLMsg :: "side \<Rightarrow> string \<Rightarrow> string" where
  "noEOLMsg s name = (if sideNoEOL s then diffMsg name ''No newline at end of file'' @ [NL] else [])"

definition emitStyle :: "diffOptions \<Rightarrow> side \<Rightarrow> side \<Rightarrow> group list \<Rightarrow> string list option" where
  "emitStyle opts sa sb gs =
     (if oEdStyle opts then emitEd sb gs
      else if oForwardEdStyle opts then emitForwardEd sb gs
      else if oUnified opts then emitUnified (oContext opts) sa sb gs
      else if oContextStyle opts then emitContext (oContext opts) sa sb gs
      else emitNormal sa sb gs)"

text \<open>From \<open>prep\<close> on; the two data are different and neither is binary.\<close>

definition compareText :: "diffOptions \<Rightarrow> loadedSide \<Rightarrow> loadedSide \<Rightarrow> bool \<Rightarrow> runOut option" where
  "compareText opts la lb withHeader =
     (case prep la opts [] of (sa, intern) \<Rightarrow> (case prep lb opts intern of (sb, _) \<Rightarrow>
        (let a = ldName la; b = ldName lb
         in case diffGroups (sideKeys sa) (sideKeys sb) of
              None \<Rightarrow> None
            | Some gs \<Rightarrow>
                if gs = [] then Some ([], [], 0)
                else if oBrief opts then Some (''Files '' @ a @ '' and '' @ b @ '' differ'' @ [NL], [], 1)
                else (case emitStyle opts sa sb gs of
                        None \<Rightarrow> None
                      | Some out \<Rightarrow>
                          (let ed = oEdStyle opts \<or> oForwardEdStyle opts;
                               err = (if ed then noEOLMsg sa a @ noEOLMsg sb b else [])
                           in Some ((if withHeader then printPairHeader opts a b else []) @ unlines out, err,
                                    if ed \<and> (sideNoEOL sa \<or> sideNoEOL sb) then 2 else 1))))))"

definition compareFiles :: "diffEnv \<Rightarrow> diffOptions \<Rightarrow> string \<Rightarrow> string \<Rightarrow> bool \<Rightarrow> runOut option" where
  "compareFiles env opts a b withHeader =
     (case loadSide env (envIn env) opts a of
        (Inl e, _) \<Rightarrow> Some ([], diffMsg a (errText e), 2)
      | (Inr la, inp) \<Rightarrow>
          (case loadSide env inp opts b of
             (Inl e, _) \<Rightarrow> Some ([], diffMsg b (errText e), 2)
           | (Inr lb, _) \<Rightarrow>
               if ldData la = ldData lb then Some ([], [], 0)
               else if isBinary (ldData la) \<or> isBinary (ldData lb) then
                 Some ((if oBrief opts then ''Files '' @ a @ '' and '' @ b @ '' differ'' @ [NL]
                        else (if withHeader then printPairHeader opts a b else []) @
                             ''Binary files '' @ a @ '' and '' @ b @ '' differ'' @ [NL]), [], 1)
               else compareText opts la lb withHeader))"

section \<open>Comparing directories\<close>

text \<open>
  The handlers that may descend take the comparison of two directories as an argument; \<open>compareDirs\<close>
  ties the knot with a bound on the depth.
\<close>

definition comparePair :: "(string \<Rightarrow> string \<Rightarrow> runOut option) \<Rightarrow> diffEnv \<Rightarrow> diffOptions \<Rightarrow>
    string \<Rightarrow> string \<Rightarrow> runOut option" where
  "comparePair descend env opts pa pb =
     (case envStat env pa of
        Inl e \<Rightarrow> Some ([], diffMsg pa (errText e), 2)
      | Inr fa \<Rightarrow>
          (case envStat env pb of
             Inl e \<Rightarrow> Some ([], diffMsg pb (errText e), 2)
           | Inr fb \<Rightarrow>
               if isDir fa \<and> isDir fb then
                 if oRecursive opts then descend pa pb
                 else Some (''Common subdirectories: '' @ pa @ '' and '' @ pb @ [NL], [], 0)
               else if isDir fa \<noteq> isDir fb \<or> fiKind fa \<noteq> Regular \<or> fiKind fb \<noteq> Regular then
                 Some (''File '' @ pa @ '' is '' @ kindWord fa @ '' while file '' @ pb @ '' is '' @ kindWord fb @ [NL],
                       [], 1)
               else compareFiles env opts pa pb (\<not> oBrief opts)))"

definition onlyIn :: "(string \<Rightarrow> string \<Rightarrow> runOut option) \<Rightarrow> diffEnv \<Rightarrow> diffOptions \<Rightarrow>
    string \<Rightarrow> string \<Rightarrow> string \<Rightarrow> string \<Rightarrow> bool \<Rightarrow> runOut option" where
  "onlyIn descend env opts dir name present absent presentIsOld =
     (let only = Some (''Only in '' @ dir @ '': '' @ name @ [NL], [], 1)
      in if \<not> oNewFile opts then only
         else case envStat env present of
                Inl e \<Rightarrow> Some ([], diffMsg present (errText e), 2)
              | Inr fi \<Rightarrow>
                  if isDir fi then
                    if oRecursive opts then
                      if presentIsOld then descend present absent else descend absent present
                    else only
                  else if presentIsOld then compareFiles env opts present absent (\<not> oBrief opts)
                  else compareFiles env opts absent present (\<not> oBrief opts))"

definition readDirNames :: "diffEnv \<Rightarrow> diffOptions \<Rightarrow> string \<Rightarrow> osError + string list" where
  "readDirNames env opts dir =
     (case envDir env dir of
        Inl e \<Rightarrow> if oNewFile opts \<and> e = ErrNotExist then Inr [] else Inl e
      | Inr ents \<Rightarrow> Inr ents)"

definition sortedUnion :: "string list \<Rightarrow> string list \<Rightarrow> string list" where
  "sortedUnion a b = sortStrings (a @ filter (\<lambda>n. n \<notin> set a) b)"

text \<open>The runs of the entries one after the other: the outputs are joined, the worst status counts.\<close>

fun seqRuns :: "runOut option list \<Rightarrow> int \<Rightarrow> runOut option" where
  "seqRuns [] status = Some ([], [], status)"
| "seqRuns (r # rs) status =
     (case r of
        None \<Rightarrow> None
      | Some (out, err, st) \<Rightarrow>
          (case seqRuns rs (if st > status then st else status) of
             None \<Rightarrow> None
           | Some (out', err', status') \<Rightarrow> Some (out @ out', err @ err', status')))"

definition compareEntry :: "(string \<Rightarrow> string \<Rightarrow> runOut option) \<Rightarrow> diffEnv \<Rightarrow> diffOptions \<Rightarrow>
    string \<Rightarrow> string \<Rightarrow> string list \<Rightarrow> string list \<Rightarrow> string \<Rightarrow> runOut option" where
  "compareEntry descend env opts da db la lb name =
     (let pa = joinDisplay da name; pb = joinDisplay db name
      in if name \<in> set la \<and> name \<in> set lb then comparePair descend env opts pa pb
         else if name \<in> set la then onlyIn descend env opts da name pa pb True
         else onlyIn descend env opts db name pb pa False)"

fun compareDirs :: "nat \<Rightarrow> diffEnv \<Rightarrow> diffOptions \<Rightarrow> string \<Rightarrow> string \<Rightarrow> runOut option" where
  "compareDirs 0 env opts da db = None"
| "compareDirs (Suc depth) env opts da db =
     (case (readDirNames env opts da, readDirNames env opts db) of
        (Inr la, Inr lb) \<Rightarrow>
          seqRuns (map (compareEntry (compareDirs depth env opts) env opts da db la lb) (sortedUnion la lb)) 0
      | (ra, rb) \<Rightarrow>
          Some ([], (case ra of Inl e \<Rightarrow> diffMsg da (errText e) | Inr _ \<Rightarrow> []) @
                    (case rb of Inl e \<Rightarrow> diffMsg db (errText e) | Inr _ \<Rightarrow> []), 2))"

section \<open>Dispatch\<close>

text \<open>The closure \<open>stat\<close> of \<open>dispatch\<close>: \<open>(isDir, missing)\<close> or an error.\<close>

definition statOperand :: "diffEnv \<Rightarrow> diffOptions \<Rightarrow> string \<Rightarrow> osError + bool \<times> bool" where
  "statOperand env opts name =
     (if name = ''-'' then Inr (False, False)
      else case envStat env name of
             Inl e \<Rightarrow> if oNewFile opts \<and> e = ErrNotExist then Inr (False, True) else Inl e
           | Inr fi \<Rightarrow> Inr (isDir fi, False))"

definition noSuchFile :: "string \<Rightarrow> string" where
  "noSuchFile name = diffMsg name ''No such file or directory''"

definition dispatch :: "nat \<Rightarrow> diffEnv \<Rightarrow> diffOptions \<Rightarrow> string \<Rightarrow> string \<Rightarrow> runOut option" where
  "dispatch depth env opts a b =
     (case (statOperand env opts a, statOperand env opts b) of
        (Inr (aIsDir, aMissing), Inr (bIsDir, bMissing)) \<Rightarrow>
          if aMissing \<and> bMissing then Some ([], noSuchFile a @ noSuchFile b, 2)
          else if aIsDir \<and> bIsDir then compareDirs depth env opts a b
          else if aIsDir then
            if bMissing then Some ([], noSuchFile b, 2)
            else compareFiles env opts (joinDisplay a (filepathBase b)) b False
          else if bIsDir then
            if aMissing then Some ([], noSuchFile a, 2)
            else compareFiles env opts a (joinDisplay b (filepathBase a)) False
          else compareFiles env opts a b False
      | (ra, rb) \<Rightarrow>
          Some ([], (case ra of Inl e \<Rightarrow> diffMsg a (errText e) | Inr _ \<Rightarrow> []) @
                    (case rb of Inl e \<Rightarrow> diffMsg b (errText e) | Inr _ \<Rightarrow> []), 2))"

end
