(* ===== verification/Notation_Unified.thy ===== *)
theory Notation_Unified
  imports Patch_Notation
begin

text \<open>
  Unified hunks as text. The printer states the notation; \<open>parse.go\<close> reads back every hunk list
  it prints.
\<close>

text \<open>\<open>unifiedRangeVal\<close> undoes \<open>unifiedRange\<close>.\<close>

lemma unifiedRange_read:
  assumes "0 \<le> start" "0 \<le> count" "start + count \<le> maxInt" "\<not> isDigit c" "c \<noteq> CHR '',''"
  shows "\<exists>m1 m2. rangeRe (unifiedRange start count @ c # s) = Some (m1, m2, c # s) \<and>
    unifiedRangeVal (Atoi m1) (m2 \<noteq> []) (atoiDefault m2 0) = (start, count)"
proof -
  consider "count = 1" | "count = 0" | "count > 1" using assms by linarith
  then show ?thesis
  proof cases
    case 1
    with assms show ?thesis
      by (simp add: unifiedRange_def rangeRe_one unifiedRangeVal_def Atoi_itoaNat)
  next
    case 2
    have z: "itoaNat 0 = ''0''" by code_simp
    show ?thesis using 2 assms rangeRe_two [of c "nat start" 0 s] atoiDefault_itoa [of 0]
      by (simp add: unifiedRange_def unifiedRangeVal_def Atoi_itoaNat z)
  next
    case 3
    with assms show ?thesis
      by (simp add: unifiedRange_def rangeRe_two unifiedRangeVal_def Atoi_itoaNat atoiDefault_itoa)
  qed
qed

section \<open>Printing unified hunks\<close>

definition lineMark :: "LineKind \<Rightarrow> string" where
  "lineMark k = (case k of LineContext \<Rightarrow> '' '' | LineDelete \<Rightarrow> ''-'' | LineAdd \<Rightarrow> ''+'')"

definition printUnifiedLine :: "HunkLine \<Rightarrow> string list" where
  "printUnifiedLine l = (lineMark (Kind l) @ Text l) # (if NoEOL l then [noNewline] else [])"

definition printUnifiedHunk :: "Hunk \<Rightarrow> string list" where
  "printUnifiedHunk h =
     (''@@ -'' @ unifiedRange (OldStart h) (OldCount h) @ '' +'' @
        unifiedRange (NewStart h) (NewCount h) @ '' @@'') # concat (map printUnifiedLine (Lines h))"

lemma markLast_snoc [simp]: "markLast (hl @ [l]) = hl @ [l\<lparr>NoEOL := True\<rparr>]"
  by (simp add: markLast_def)

lemma HunkLine_eta: "\<lparr>Kind = Kind l, Text = Text l, NoEOL = NoEOL l\<rparr> = (l :: HunkLine)"
  by simp

definition notMarker :: "rawLine list \<Rightarrow> bool" where
  "notMarker rest = (rest = [] \<or> \<not> startsWith BSL (rawText (hd rest)))"

lemma trailingMarkers_done: "notMarker rest \<Longrightarrow> trailingMarkers hl rest = (hl, rest)"
  by (cases rest) (auto simp: notMarker_def)

lemma startsWith_noNewline: "startsWith BSL noNewline"
  by (simp add: startsWith_def noNewline_def)

lemma unifiedBody_step:
  assumes "os < oc \<or> ns < nc"
  shows "unifiedBody oc nc nm os ns hl (rawOf (lineMark k @ t) # rest) =
    unifiedBody oc nc nm (if k = LineAdd then os else os + 1) (if k = LineDelete then ns else ns + 1)
      (hl @ [\<lparr>Kind = k, Text = t, NoEOL = False\<rparr>]) rest"
  using assms by (cases k) (simp_all add: lineMark_def startsWith_def Let_def)

text \<open>The body loop and the trailing markers read back a printed body.\<close>

lemma unifiedBody_print:
  assumes "oc = os + int (length (oldSeq ls))" "nc = ns + int (length (newSeq ls))" "notMarker rest"
  shows "\<exists>hl' rest'. unifiedBody oc nc nm os ns hl (map rawOf (concat (map printUnifiedLine ls)) @ rest) =
      Inr (hl', rest') \<and> trailingMarkers hl' rest' = (hl @ ls, rest)"
  using assms(1,2)
proof (induction ls arbitrary: os ns hl)
  case Nil
  then show ?case using trailingMarkers_done [OF assms(3)] by (cases rest) auto
next
  case (Cons l ls)
  let ?os = "if Kind l = LineAdd then os else os + 1"
  let ?ns = "if Kind l = LineDelete then ns else ns + 1"
  let ?more = "map rawOf (concat (map printUnifiedLine ls)) @ rest"
  let ?l = "\<lparr>Kind = Kind l, Text = Text l, NoEOL = False\<rparr>"
  have lt: "os < oc \<or> ns < nc" and nxt: "oc = ?os + int (length (oldSeq ls))" "nc = ?ns + int (length (newSeq ls))"
    using Cons.prems by (cases "Kind l"; simp)+
  note step = unifiedBody_step [OF lt, of nm hl "Kind l" "Text l"]
  show ?case
  proof (cases "NoEOL l")
    case False
    then have "?l = l" by simp
    have in0: "map rawOf (concat (map printUnifiedLine (l # ls))) @ rest =
        rawOf (lineMark (Kind l) @ Text l) # ?more"
      using False by (simp add: printUnifiedLine_def)
    show ?thesis using Cons.IH [OF nxt, of "hl @ [l]"] unfolding in0 step \<open>?l = l\<close> by simp
  next
    case True
    then have mk: "markLast (hl @ [?l]) = hl @ [l]" by simp
    have in1: "map rawOf (concat (map printUnifiedLine (l # ls))) @ rest =
        rawOf (lineMark (Kind l) @ Text l) # rawOf noNewline # ?more"
      using True by (simp add: printUnifiedLine_def)
    show ?thesis
    proof (cases "?os < oc \<or> ?ns < nc")
      case more: True
      then have "unifiedBody oc nc nm ?os ?ns (hl @ [?l]) (rawOf noNewline # ?more) =
          unifiedBody oc nc nm ?os ?ns (hl @ [l]) ?more"
        using mk by (simp add: startsWith_noNewline Let_def)
      then show ?thesis using Cons.IH [OF nxt, of "hl @ [l]"] unfolding in1 step by simp
    next
      case False
      then have "oldSeq ls = []" "newSeq ls = []" using nxt by auto
      then have "ls = []" by (cases ls) (auto split: if_splits)
      have "unifiedBody oc nc nm ?os ?ns (hl @ [?l]) (rawOf noNewline # ?more) =
          Inr (hl @ [?l], rawOf noNewline # ?more)" using False by simp
      then show ?thesis unfolding in1 step
        using trailingMarkers_done [OF assms(3)] mk \<open>ls = []\<close> by (simp add: startsWith_noNewline)
    qed
  qed
qed

lemma unifiedHunkRe_print:
  assumes "smallHunk h"
  shows "\<exists>m1 m2 m3 m4. unifiedHunkRe (hd (printUnifiedHunk h)) = Some (m1, m2, m3, m4) \<and>
    unifiedRangeVal (Atoi m1) (m2 \<noteq> []) (atoiDefault m2 0) = (OldStart h, OldCount h) \<and>
    unifiedRangeVal (Atoi m3) (m4 \<noteq> []) (atoiDefault m4 0) = (NewStart h, NewCount h)"
proof -
  note sums = smallHunk_sum [OF assms]
  have pos: "0 \<le> OldStart h" "0 \<le> NewStart h" using assms by (auto simp: smallHunk_def)
  let ?tail = "'' @@''"
  obtain m3 m4 where n: "rangeRe (unifiedRange (NewStart h) (NewCount h) @ SP # ''@@'') = Some (m3, m4, SP # ''@@'')"
    "unifiedRangeVal (Atoi m3) (m4 \<noteq> []) (atoiDefault m4 0) = (NewStart h, NewCount h)"
    using unifiedRange_read [OF pos(2) sums(2,4), of SP "''@@''"] by (auto simp: isDigit_not)
  let ?rest = "CHR ''+'' # unifiedRange (NewStart h) (NewCount h) @ SP # ''@@''"
  obtain m1 m2 where o: "rangeRe (unifiedRange (OldStart h) (OldCount h) @ SP # ?rest) = Some (m1, m2, SP # ?rest)"
    "unifiedRangeVal (Atoi m1) (m2 \<noteq> []) (atoiDefault m2 0) = (OldStart h, OldCount h)"
    using unifiedRange_read [OF pos(1) sums(1,3), of SP ?rest] by (auto simp: isDigit_not)
  have "unifiedHunkRe (hd (printUnifiedHunk h)) = Some (m1, m2, m3, m4)"
    using n(1) o(1) by (simp add: unifiedHunkRe_def printUnifiedHunk_def eat_def hasPrefix_Cons)
  with n(2) o(2) show ?thesis by blast
qed

lemma unifiedHunk_print:
  assumes "smallHunk h" "notMarker rest"
  shows "unifiedHunk nm (rawOf (hd (printUnifiedHunk h))) (map rawOf (tl (printUnifiedHunk h)) @ rest) =
    Inr (h, rest)"
proof -
  obtain m1 m2 m3 m4 where re: "unifiedHunkRe (hd (printUnifiedHunk h)) = Some (m1, m2, m3, m4)"
    "unifiedRangeVal (Atoi m1) (m2 \<noteq> []) (atoiDefault m2 0) = (OldStart h, OldCount h)"
    "unifiedRangeVal (Atoi m3) (m4 \<noteq> []) (atoiDefault m4 0) = (NewStart h, NewCount h)"
    using unifiedHunkRe_print [OF assms(1)] by blast
  obtain hl' rest' where b: "unifiedBody (OldCount h) (NewCount h) nm 0 0 []
      (map rawOf (concat (map printUnifiedLine (Lines h))) @ rest) = Inr (hl', rest')"
    "trailingMarkers hl' rest' = (Lines h, rest)"
    using unifiedBody_print [of "OldCount h" 0 "Lines h" "NewCount h" 0 rest nm "[]"] assms
    by (auto simp: smallHunk_def wfHunk_def)
  have "map rawOf (tl (printUnifiedHunk h)) = map rawOf (concat (map printUnifiedLine (Lines h)))"
    by (simp add: printUnifiedHunk_def)
  then show ?thesis by (simp add: unifiedHunk_def re b)
qed

lemma printUnifiedHunk_hd: "printUnifiedHunk h = hd (printUnifiedHunk h) # tl (printUnifiedHunk h)"
  "hasPrefix (hd (printUnifiedHunk h)) ''@@ ''"
  by (simp_all add: printUnifiedHunk_def hasPrefix_Cons)

lemma notMarker_hunks:
  "notMarker rest \<Longrightarrow> notMarker (map rawOf (concat (map printUnifiedHunk hs)) @ rest)"
  by (cases hs) (auto simp: notMarker_def printUnifiedHunk_def startsWith_def)

lemma unifiedHunks_print:
  assumes "list_all smallHunk hs" "notMarker rest" "rest = [] \<or> \<not> hasPrefix (rawText (hd rest)) ''@@ ''"
  shows "unifiedHunks nm (map rawOf (concat (map printUnifiedHunk hs)) @ rest) = Inr (hs, rest)"
  using assms(1)
proof (induction hs)
  case Nil
  then show ?case using assms(3) by (cases rest) auto
next
  case (Cons h hs)
  let ?more = "map rawOf (concat (map printUnifiedHunk hs)) @ rest"
  have "unifiedHunk nm (rawOf (hd (printUnifiedHunk h))) (map rawOf (tl (printUnifiedHunk h)) @ ?more) =
      Inr (h, ?more)"
    using Cons.prems by (intro unifiedHunk_print notMarker_hunks assms(2)) auto
  moreover have "map rawOf (concat (map printUnifiedHunk (h # hs))) @ rest =
      rawOf (hd (printUnifiedHunk h)) # map rawOf (tl (printUnifiedHunk h)) @ ?more"
    by (subst (1) list.simps(9), subst concat.simps, subst printUnifiedHunk_hd(1)) simp
  ultimately show ?case
    using Cons printUnifiedHunk_hd(2) by simp
qed

section \<open>A printed file section is read back\<close>

definition printUnified :: "string \<Rightarrow> string \<Rightarrow> Hunk list \<Rightarrow> string list" where
  "printUnified oldHead newHead hs =
     [''--- '' @ oldHead, ''+++ '' @ newHead] @ concat (map printUnifiedHunk hs)"

lemma unifiedRange_no_NL: "0 \<le> s \<Longrightarrow> 0 \<le> c \<Longrightarrow> NL \<notin> set (unifiedRange s c)"
  by (simp add: unifiedRange_def)

lemma printUnifiedHunk_text:
  assumes "smallHunk h" "textHunk h"
  shows "list_all textLine (printUnifiedHunk h)"
proof -
  have "textLine (lineMark (Kind l) @ Text l)" if "l \<in> set (Lines h)" for l
    using assms(2) that
    by (cases "Kind l") (auto simp: textHunk_def list_all_iff lineMark_def textLine_def hasSuffixByte_def)
  moreover have "textLine noNewline" by (simp add: noNewline_def textLine_def hasSuffixByte_def)
  moreover have "textLine (hd (printUnifiedHunk h))"
    using assms(1) smallHunk_sum [OF assms(1)]
    by (simp add: printUnifiedHunk_def textLine_def hasSuffixByte_def unifiedRange_no_NL smallHunk_def)
  ultimately show ?thesis
    by (auto simp: printUnifiedHunk_def printUnifiedLine_def list_all_iff split: if_splits)
qed

lemma Parse_printUnified:
  assumes "list_all smallHunk hs" "list_all textHunk hs" "textLine oldHead" "textLine newHead"
    "oldHead \<noteq> []" "newHead \<noteq> []"
  shows "Parse (unlines (printUnified oldHead newHead hs)) =
    Inr [emptyFilePatch\<lparr>OldName := extractName oldHead, NewName := extractName newHead, Hunks := hs\<rparr>]"
proof -
  have "list_all textLine (printUnified oldHead newHead hs)"
    using assms printUnifiedHunk_text
    by (auto simp: printUnified_def textLine_Cons list_all_iff)
  then have raw: "splitRawLines (unlines (printUnified oldHead newHead hs)) =
      rawOf (''--- '' @ oldHead) # rawOf (''+++ '' @ newHead) # map rawOf (concat (map printUnifiedHunk hs))"
    by (subst splitRawLines_unlines) (simp_all add: printUnified_def)
  have hs: "unifiedHunks nm (map rawOf (concat (map printUnifiedHunk hs))) = Inr (hs, [])" for nm
    using unifiedHunks_print [OF assms(1), of "[]" nm] by (simp add: notMarker_def)
  show ?thesis
    unfolding Parse_def raw parseLoop.simps(2) sectionAt_def
    using hs by (simp add: stripPatchIndentAt_none hasPrefix_Cons parseUnifiedFile_def emptyFilePatch_def)
qed

text \<open>The notation as \<open>diff\<close> prints it: a name, a tab and a time stamp in each header.\<close>

definition printableUnified :: "string \<Rightarrow> string \<Rightarrow> string \<Rightarrow> string \<Rightarrow> Hunk list \<Rightarrow> bool" where
  "printableUnified oldName oldStamp newName newStamp hs =
     (list_all smallHunk hs \<and> list_all textHunk hs \<and> textLine (TAB # oldStamp) \<and> textLine (TAB # newStamp) \<and>
      NL \<notin> set oldName \<and> NL \<notin> set newName \<and> TAB \<notin> set oldName \<and> TAB \<notin> set newName \<and>
      oldName \<noteq> DevNull \<and> newName \<noteq> DevNull)"

interpretation uni: diff_notation
  "printUnified (oldName @ TAB # oldStamp) (newName @ TAB # newStamp)"
  "printableUnified oldName oldStamp newName newStamp"
  for oldName oldStamp newName newStamp
proof unfold_locales
  fix hs
  assume "printableUnified oldName oldStamp newName newStamp hs"
  then show "\<exists>fp. Parse (unlines (printUnified (oldName @ TAB # oldStamp) (newName @ TAB # newStamp) hs)) =
      Inr [fp] \<and> Hunks fp = hs \<and> Unsupported fp = [] \<and> OldName fp \<noteq> DevNull \<and> NewName fp \<noteq> DevNull"
    using Parse_printUnified [of hs "oldName @ TAB # oldStamp" "newName @ TAB # newStamp"]
    by (simp add: printableUnified_def textLine_append extractName_stamp emptyFilePatch_def)
  have "textLine (''--- '' @ oldName @ TAB # oldStamp)" "looksLikeDiffListing (''--- '' @ oldName @ TAB # oldStamp)"
    using \<open>printableUnified oldName oldStamp newName newStamp hs\<close>
    by (simp_all add: printableUnified_def textLine_Cons textLine_append looksLikeDiffListing_def hasPrefix_Cons)
  then show "ExtractEdScript (unlines (printUnified (oldName @ TAB # oldStamp) (newName @ TAB # newStamp) hs)) = ([], [], False)"
    using ExtractEdScript_listing [of "''--- '' @ oldName @ TAB # oldStamp" "(''+++ '' @ newName @ TAB # newStamp) # concat (map printUnifiedHunk hs)"]
    by (simp add: printUnified_def hasPrefix_Cons)
qed

end
