(* ===== verification/Diff_Unified.thy ===== *)
theory Diff_Unified
  imports Notation_Unified Diff_Script
begin

text \<open>
  \<open>emitUnified\<close> of \<open>cmds/diff/diff.go\<close>: for every edit script its output is the print of a list of hunks that fit the two
  files, so \<open>patch\<close> rebuilds the new file from it.
\<close>

lemma print_mkLine: "printUnifiedLine (mkLine k p) = printMarked (lineMark k) p"
  by (simp add: printUnifiedLine_def mkLine_def printMarked_def)

lemma emitRange_unified:
  assumes "lo \<le> hi" "hi \<le> length (sideLines s)"
  shows "emitRange (lineMark k) s (int lo) (int hi) =
    Some (concat (map printUnifiedLine (map (mkLine k) (take (hi - lo) (drop lo (flagged s))))))"
  using emitRange_ok [OF assms, of "lineMark k"] by (simp add: print_mkLine o_def)

section \<open>Unified output is the print of hunks that fit\<close>

lemma seqOut_Cons: "seqOut (Some xs # outs) = map_option (\<lambda>rest. xs @ rest) (seqOut outs)"
  by simp

lemma take_glue: "i \<le> m \<Longrightarrow> m \<le> n \<Longrightarrow> take (m - i) (drop i xs) @ take (n - m) (drop m xs) = take (n - i) (drop i xs)"
proof -
  assume "i \<le> m" "m \<le> n"
  then have "take (n - i) (drop i xs) = take ((m - i) + (n - m)) (drop i xs)" by simp
  also have "\<dots> = take (m - i) (drop i xs) @ take (n - m) (drop (m - i) (drop i xs))" by (rule take_add)
  finally show ?thesis using \<open>i \<le> m\<close> by simp
qed

definition endPos :: "nat \<Rightarrow> nat \<Rightarrow> group list \<Rightarrow> nat \<times> nat" where
  "endPos i j run = (if run = [] then (i, j) else (nat (a1 (last run)), nat (b1 (last run))))"

lemma emitUnifiedBody_ok:
  assumes "script (flagged sa) (flagged sb) i j (run @ rest)" "endPos i j run = (p, q)"
    "t \<le> gap (flagged sa) p rest"
  shows "\<exists>ls. emitUnifiedBody sa sb (int (p + t)) (int i) (int j) run = Some (concat (map printUnifiedLine ls)) \<and>
    oldF ls = take (p + t - i) (drop i (flagged sa)) \<and> newF ls = take (q + t - j) (drop j (flagged sb)) \<and>
    i \<le> p \<and> j \<le> q \<and> (run \<noteq> [] \<longrightarrow> ls \<noteq> []) \<and> script (flagged sa) (flagged sb) p q rest"
  using assms
proof (induction run arbitrary: i j)
  case Nil
  then have pq: "p = i" "q = j" by (auto simp: endPos_def)
  note g = script_gap [OF Nil.prems(1) [simplified], of t]
  have t: "t \<le> gap (flagged sa) i rest" using Nil.prems(3) pq by simp
  let ?ls = "map (mkLine LineContext) (take t (drop i (flagged sa)))"
  have "emitUnifiedBody sa sb (int (i + t)) (int i) (int j) [] = Some (concat (map printUnifiedLine ?ls))"
    using emitRange_unified [of i "i + t" sa LineContext] g(2) [OF t] by (simp add: lineMark_def)
  then show ?case using pq g [OF t] Nil.prems(1) by (intro exI [of _ ?ls]) simp
next
  case (Cons g run)
  have sc: "script (flagged sa) (flagged sb) i j (g # (run @ rest))" using Cons.prems(1) by simp
  obtain k p1 q1 where
    h: "a0 g = int (i + k)" "b0 g = int (j + k)" "a1 g = int p1" "b1 g = int q1" "i + k \<le> p1" "j + k \<le> q1"
      "i + k < p1 \<or> j + k < q1" "p1 \<le> length (flagged sa)" "q1 \<le> length (flagged sb)"
      "take k (drop i (flagged sa)) = take k (drop j (flagged sb))"
      "script (flagged sa) (flagged sb) p1 q1 (run @ rest)"
    by (rule script_ConsE [OF sc]) blast
  have "endPos p1 q1 run = (p, q)" using Cons.prems(2) h(3,4) by (auto simp: endPos_def split: if_splits)
  from Cons.IH [OF h(11) this Cons.prems(3)] obtain ls where
    ls: "emitUnifiedBody sa sb (int (p + t)) (int p1) (int q1) run = Some (concat (map printUnifiedLine ls))"
      "oldF ls = take (p + t - p1) (drop p1 (flagged sa))" "newF ls = take (q + t - q1) (drop q1 (flagged sb))"
      "p1 \<le> p" "q1 \<le> q" "script (flagged sa) (flagged sb) p q rest" by blast
  let ?c = "map (mkLine LineContext) (take k (drop i (flagged sa)))"
  let ?d = "map (mkLine LineDelete) (take (p1 - (i + k)) (drop (i + k) (flagged sa)))"
  let ?a = "map (mkLine LineAdd) (take (q1 - (j + k)) (drop (j + k) (flagged sb)))"
  have mx: "max (int i) (int i + int k) = int (i + k)" "max (int (i + k)) (int p1) = int p1"
    "max (int (j + k)) (int q1) = int q1" "int j + (int (i + k) - int i) = int (j + k)" using h by auto
  have e: "emitRange '' '' sa (int i) (int (i + k)) = Some (concat (map printUnifiedLine ?c))"
    "emitRange ''-'' sa (int (i + k)) (int p1) = Some (concat (map printUnifiedLine ?d))"
    "emitRange ''+'' sb (int (j + k)) (int q1) = Some (concat (map printUnifiedLine ?a))"
    using emitRange_unified [of i "i + k" sa LineContext] emitRange_unified [of "i + k" p1 sa LineDelete]
      emitRange_unified [of "j + k" q1 sb LineAdd] h by (simp_all add: lineMark_def)
  have "emitUnifiedBody sa sb (int (p + t)) (int i) (int j) (g # run) =
      seqOut [emitRange '' '' sa (int i) (int (i + k)), emitRange ''-'' sa (int (i + k)) (int p1),
        emitRange ''+'' sb (int (j + k)) (int q1),
        emitUnifiedBody sa sb (int (p + t)) (int p1) (int q1) run]"
    unfolding emitUnifiedBody.simps Let_def h(1-4) using mx by simp
  then have out: "emitUnifiedBody sa sb (int (p + t)) (int i) (int j) (g # run) =
      Some (concat (map printUnifiedLine (?c @ ?d @ ?a @ ls)))"
    unfolding e ls(1) by simp
  have o: "oldF (?c @ ?d @ ?a @ ls) = take (p + t - i) (drop i (flagged sa))"
    using take_glue [of i "i + k" p1 "flagged sa"] take_glue [of i p1 "p + t" "flagged sa"] h ls(2,4)
    by (simp flip: append_assoc)
  have n: "newF (?c @ ?d @ ?a @ ls) = take (q + t - j) (drop j (flagged sb))"
    using take_glue [of j "j + k" q1 "flagged sb"] take_glue [of j q1 "q + t" "flagged sb"] h ls(3,5)
    by (simp flip: append_assoc)
  have "?d @ ?a \<noteq> []" using h by auto
  then show ?case using out o n ls h by (intro exI [of _ "?c @ ?d @ ?a @ ls"]) auto
qed

lemma script_endPos:
  assumes "script xs ys i j (run @ rest)" "endPos i j run = (p, q)" "run \<noteq> []"
  shows "a1 (last run) = int p \<and> b1 (last run) = int q \<and> p \<le> length xs \<and> q \<le> length ys"
  using assms
proof (induction run arbitrary: i j)
  case (Cons g run)
  have "script xs ys i j (g # (run @ rest))" using Cons.prems(1) by simp
  then obtain p1 q1 where h: "a1 g = int p1" "b1 g = int q1" "p1 \<le> length xs" "q1 \<le> length ys"
    "script xs ys p1 q1 (run @ rest)"
    by (rule script_ConsE) blast
  show ?case
  proof (cases "run = []")
    case True
    then show ?thesis using h Cons.prems(2) by (auto simp: endPos_def)
  next
    case False
    then show ?thesis using Cons.IH [OF h(5)] Cons.prems(2) by (simp add: endPos_def)
  qed
qed simp

lemma mergeRun_spec:
  assumes "mergeRun ctx g gs = (run, rest)" "rest \<noteq> []"
  shows "a0 (hd rest) - a1 (last (g # run)) > i64 (2 * ctx)"
  using assms by (induction gs arbitrary: g run) (auto split: if_splits prod.splits)

text \<open>The span of a hunk, when the numbers are in range.\<close>

lemma hunkSpan_ok:
  assumes "a0 gi = int u" "b0 gi = int (v + (u - hs))" "hs = u - ctx" "a1 gj = int p" "b1 gj = int q"
    "p \<le> n" "int n < 2 ^ 61" "int ctx < 2 ^ 61" "q \<le> m" "int m < 2 ^ 61"
  shows "hunkSpan (int ctx) n gi gj =
    (int hs, int (p + min ctx (n - p)), int v, int (q + min ctx (n - p)))"
proof -
  have he0: "i64 (int p + int ctx) = int p + int ctx" using assms by (intro i64_small) auto
  have he: "(if int p + int ctx > int n then int n else int p + int ctx) = int (p + min ctx (n - p))"
    using assms(6) by (auto simp: min_def)
  have "i64 (int (p + min ctx (n - p)) - int p) = int (min ctx (n - p))"
    using assms by (intro i64_small [THEN trans]) auto
  moreover have "i64 (int q + int (min ctx (n - p))) = int (q + min ctx (n - p))"
    using assms by (intro i64_small [THEN trans]) auto
  moreover have "(if int u - int ctx < 0 then 0 else int u - int ctx) = int hs" using assms(3) by auto
  moreover have "int (v + (u - hs)) - (int u - int hs) = int v" using assms(3) by auto
  ultimately show ?thesis
    unfolding hunkSpan_def Let_def assms(1,2,4,5) he0 he by simp
qed

definition unifiedOK :: "side \<Rightarrow> side \<Rightarrow> int \<Rightarrow> bool" where
  "unifiedOK sa sb ctx = (int (length (sideLines sa)) < 2 ^ 60 \<and> int (length (sideLines sb)) < 2 ^ 60 \<and>
     0 \<le> ctx \<and> ctx < 2 ^ 61)"

lemma length_le_F: "length ls \<le> length (oldF ls) + length (newF ls)"
proof (induction ls)
  case (Cons l ls)
  then show ?case by (cases "Kind l") (auto simp: oldF_def newF_def)
qed simp

lemma emitUnifiedHunk_ok:
  assumes "script (flagged sa) (flagged sb) i j (g # run @ rest)" "unifiedOK sa sb (int ctx)"
    "i \<le> nat (a0 g) - ctx" "rest \<noteq> [] \<longrightarrow> a0 (hd rest) - a1 (last (g # run)) > int (2 * ctx)"
  shows "\<exists>h pre p q. emitUnifiedHunk (int ctx) sa sb g run = Some (printUnifiedHunk h) \<and>
    OldStart h = int (i + length pre) \<and> NewStart h = int (j + length pre) \<and> wfHunk h \<and> Lines h \<noteq> [] \<and>
    length pre = nat (a0 g) - ctx - i \<and>
    drop i (flagged sa) = pre @ oldF (Lines h) @ drop p (flagged sa) \<and>
    drop j (flagged sb) = pre @ newF (Lines h) @ drop q (flagged sb) \<and>
    p = i + length pre + length (oldF (Lines h)) \<and> q = j + length pre + length (newF (Lines h)) \<and>
    script (flagged sa) (flagged sb) p q rest \<and>
    int p \<le> a1 (last (g # run)) + int ctx"
proof -
  let ?A = "flagged sa" and ?B = "flagged sb"
  obtain k where k: "a0 g = int (i + k)" "b0 g = int (j + k)" using assms(1) by (elim script_ConsE) auto
  define hs where "hs = i + k - ctx"
  define s where "s = hs - i"
  have s: "hs = i + s" "s \<le> k" "i \<le> hs" using assms(3) k by (auto simp: s_def hs_def)
  have "s \<le> gap ?A i (g # run @ rest)" using k s by (simp add: gap_def)
  note G = script_gap [OF assms(1) this]
  have sc: "script ?A ?B hs (j + s) ((g # run) @ rest)" using G(4) s(1) by simp
  obtain p0 q0 where pq: "endPos hs (j + s) (g # run) = (p0, q0)" by (cases "endPos hs (j + s) (g # run)")
  define t where "t = min ctx (length ?A - p0)"
  have last: "a1 (last (g # run)) = int p0" "b1 (last (g # run)) = int q0" "p0 \<le> length ?A" "q0 \<le> length ?B"
    using script_endPos [OF sc pq] by auto
  have tg: "t \<le> gap ?A p0 rest"
  proof (cases rest)
    case (Cons r rs)
    then show ?thesis using assms(4) last(1) by (simp add: gap_def t_def)
  qed (simp add: gap_def t_def)
  obtain ls where ls: "emitUnifiedBody sa sb (int (p0 + t)) (int hs) (int (j + s)) (g # run) =
      Some (concat (map printUnifiedLine ls))"
    "oldF ls = take (p0 + t - hs) (drop hs ?A)" "newF ls = take (q0 + t - (j + s)) (drop (j + s) ?B)"
    "hs \<le> p0" "j + s \<le> q0" "ls \<noteq> []" "script ?A ?B p0 q0 rest"
    using emitUnifiedBody_ok [OF sc pq tg] by auto
  note T = script_gap [OF ls(7) tg]
  have len: "length (oldF ls) = p0 + t - hs" "length (newF ls) = q0 + t - (j + s)"
    using ls(2-5) T(2,3) by simp_all
  let ?h = "\<lparr>OldStart = int hs, OldCount = int (p0 + t - hs), NewStart = int (j + s),
    NewCount = int (q0 + t - (j + s)), Lines = ls\<rparr>"
  define pre where "pre = take s (drop i ?A)"
  have lp: "length pre = s" using G(2) by (simp add: pre_def)
  have small: "int (length ?A) < 2 ^ 60" "int (length ?B) < 2 ^ 60" "int ctx < 2 ^ 61"
    using assms(2) by (auto simp: unifiedOK_def)
  have "hunkSpan (int ctx) (length (sideLines sa)) g (last (g # run)) =
      (int hs, int (p0 + t), int (j + s), int (q0 + t))"
    using hunkSpan_ok [of g "i + k" "j + s" hs ctx "last (g # run)" p0 q0 "length ?A" "length ?B"]
      k s last small by (simp add: hs_def t_def)
  moreover have "i64 (int (p0 + t) - int hs) = int (p0 + t - hs)"
    "i64 (int (q0 + t) - int (j + s)) = int (q0 + t - (j + s))"
    using T(2,3) small ls(4,5) by (auto intro!: i64_small [THEN trans])
  ultimately have out: "emitUnifiedHunk (int ctx) sa sb g run = Some (printUnifiedHunk ?h)"
    unfolding emitUnifiedHunk_def Let_def by (simp only: prod.case ls(1)) (simp add: printUnifiedHunk_def)
  have wf: "wfHunk ?h"
    using len length_le_F [of ls] T(2,3) small by (simp add: wfHunk_def fits_def flip: length_F)
  have old: "drop i ?A = pre @ oldF ls @ drop (p0 + t) ?A"
    using drop_split [of i hs ?A] drop_split [of hs "p0 + t" ?A] s ls(2,4) by (simp add: pre_def)
  have new: "drop j ?B = pre @ newF ls @ drop (q0 + t) ?B"
    using drop_split [of j "j + s" ?B] drop_split [of "j + s" "q0 + t" ?B] ls(3,5) G(1) by (simp add: pre_def)
  have ends: "p0 + t = i + length pre + length (oldF ls)" "q0 + t = j + length pre + length (newF ls)"
    using len lp s(1) ls(4,5) by simp_all
  have "int (p0 + t) \<le> a1 (last (g # run)) + int ctx" using last by (simp add: t_def)
  moreover have "length pre = nat (a0 g) - ctx - i" using lp k s by (simp add: s_def hs_def)
  moreover have "OldStart ?h = int (i + length pre)" "NewStart ?h = int (j + length pre)" "Lines ?h = ls"
    using lp s(1) by simp_all
  ultimately show ?thesis
    using out wf old new ends T(4) ls(6) by metis
qed

lemma emitUnifiedHunks_ok:
  assumes "script (flagged sa) (flagged sb) i j gs" "unifiedOK sa sb (int ctx)"
    "gs \<noteq> [] \<longrightarrow> i < nat (a0 (hd gs)) - ctx \<or> i = 0 \<and> j = 0"
  shows "\<exists>hs rest. emitUnifiedHunks (int ctx) sa sb gs = Some (concat (map printUnifiedHunk hs)) \<and>
    fitF i j (drop i (flagged sa)) hs (drop j (flagged sb)) rest"
  using assms(1,3)
proof (induction gs arbitrary: i j rule: length_induct)
  case (1 gs)
  show ?case
  proof (cases gs)
    case Nil
    then have "drop i (flagged sa) = drop j (flagged sb)" using 1(2) by (auto elim: script_NilE)
    then show ?thesis using Nil fitF_done [of i j "drop j (flagged sb)"]
      by (intro exI [of _ "[]"] exI [of _ "drop j (flagged sb)"]) simp
  next
    case (Cons g gs')
    obtain run rest where run: "mergeRun (int ctx) g gs' = (run, rest)" by fastforce
    have gs: "gs = g # run @ rest" using mergeRun_append [OF run] Cons by simp
    have two: "i64 (2 * int ctx) = int (2 * ctx)"
      using assms(2) by (intro i64_small [THEN trans]) (auto simp: unifiedOK_def)
    have far: "rest \<noteq> [] \<longrightarrow> a0 (hd rest) - a1 (last (g # run)) > int (2 * ctx)"
      using mergeRun_spec [OF run] two by auto
    have le: "i \<le> nat (a0 g) - ctx" using 1(3) Cons by auto
    obtain h pre p q where h: "emitUnifiedHunk (int ctx) sa sb g run = Some (printUnifiedHunk h)"
      "OldStart h = int (i + length pre)" "NewStart h = int (j + length pre)" "wfHunk h" "Lines h \<noteq> []"
      "length pre = nat (a0 g) - ctx - i"
      "drop i (flagged sa) = pre @ oldF (Lines h) @ drop p (flagged sa)"
      "drop j (flagged sb) = pre @ newF (Lines h) @ drop q (flagged sb)"
      "p = i + length pre + length (oldF (Lines h))" "q = j + length pre + length (newF (Lines h))"
      "script (flagged sa) (flagged sb) p q rest" "int p \<le> a1 (last (g # run)) + int ctx"
      using emitUnifiedHunk_ok [OF 1(2) [unfolded gs] assms(2) le far] by metis
    have "rest \<noteq> [] \<longrightarrow> p < nat (a0 (hd rest)) - ctx" using far h(12) by linarith
    moreover have "length rest < length gs" by (simp add: gs)
    ultimately obtain hs tail where hs: "emitUnifiedHunks (int ctx) sa sb rest = Some (concat (map printUnifiedHunk hs))"
      "fitF p q (drop p (flagged sa)) hs (drop q (flagged sb)) tail"
      using 1(1) h(11) by blast
    have "pre \<noteq> [] \<or> i = 0 \<and> j = 0" using 1(3) Cons h(6) by auto
    then have "fitF i j (drop i (flagged sa)) (h # hs) (drop j (flagged sb)) tail"
      unfolding h(7,8) using h(2-5) hs(2) [unfolded h(9,10)] h(9,10) by (intro fitF_hunk) auto
    moreover have "emitUnifiedHunks (int ctx) sa sb gs = Some (concat (map printUnifiedHunk (h # hs)))"
      using run h(1) hs(1) by (simp add: Cons)
    ultimately show ?thesis by blast
  qed
qed

lemma fitF_sides:
  assumes "fitF 0 0 (flagged sa) hs (flagged sb) rest" "textSide sa" "textSide sb"
  shows "list_all smallHunk hs" "list_all textHunk hs" "finalEOL (sideNoEOL sa) hs (map fst rest) = sideNoEOL sb"
    "fitHunks 0 0 (sideLines sa) hs (sideLines sb) (map fst rest)"
    "finalEOL (sideNoEOL sb) (map reverseHunk hs) (map fst rest) = sideNoEOL sa"
proof -
  show "list_all smallHunk hs" using fitF_small [OF assms(1)] assms(2,3) by (auto simp: textSide_def)
  have "\<forall>x \<in> set (flagged sa) \<union> set (flagged sb). textLine (fst x)"
    using assms(2,3) fst_flagged [of sa] fst_flagged [of sb]
    by (auto simp: textSide_def list_all_iff) (metis fst_conv image_eqI set_map)+
  from fitF_text [OF assms(1) this] show "list_all textHunk hs" by (simp add: textHunk_def list_all_iff)
  show "finalEOL (sideNoEOL sa) hs (map fst rest) = sideNoEOL sb"
    using fitF_finalEOL [OF assms(1)] assms(2,3) by (simp add: textSide_def)
  show "finalEOL (sideNoEOL sb) (map reverseHunk hs) (map fst rest) = sideNoEOL sa"
    using fitF_finalEOL [OF fitF_reverse [OF assms(1)]] assms(2,3) by (simp add: textSide_def)
  show "fitHunks 0 0 (sideLines sa) hs (sideLines sb) (map fst rest)"
    using fitF_fitHunks [OF assms(1)] by (simp add: fst_flagged)
qed

lemma textSide_fits: "textSide s \<Longrightarrow> fits (sideLines s)"
  by (simp add: textSide_def fits_def)

lemma emitUnified_patched:
  assumes "script (flagged sa) (flagged sb) 0 0 gs" "textSide sa" "textSide sb" "namedSide sa" "namedSide sb"
    "0 \<le> ctx" "ctx < 2 ^ 61" "oldData \<noteq> newData"
    "splitFileLines oldData = (sideLines sa, sideNoEOL sa)" "splitFileLines newData = (sideLines sb, sideNoEOL sb)"
  shows "\<exists>out. emitUnified ctx sa sb gs = Some out \<and>
    patches (unlines out) oldData newData \<and> unpatches (unlines out) oldData newData"
proof -
  define c where "c = nat ctx"
  have ctx: "ctx = int c" using assms(6) by (simp add: c_def)
  have ok: "unifiedOK sa sb (int c)" using assms(2,3,6,7) by (auto simp: unifiedOK_def textSide_def ctx)
  obtain hs rest where hs: "emitUnifiedHunks ctx sa sb gs = Some (concat (map printUnifiedHunk hs))"
    "fitF 0 0 (flagged sa) hs (flagged sb) rest"
    using emitUnifiedHunks_ok [OF assms(1) ok] by (auto simp: ctx)
  let ?p = "printUnified (sideName sa @ TAB # sideStamp sa) (sideName sb @ TAB # sideStamp sb) hs"
  have "emitUnified ctx sa sb gs = Some ?p"
    by (simp add: emitUnified_def hs(1) printUnified_def)
  note F = fitF_sides [OF hs(2) assms(2,3)]
  have "printableUnified (sideName sa) (sideStamp sa) (sideName sb) (sideStamp sb) hs"
    using assms(4,5) F(1,2) by (simp add: printableUnified_def namedSide_def)
  then have "patches (unlines ?p) oldData newData \<and> unpatches (unlines ?p) oldData newData"
    using uni.both_ways [OF _ F(4) textSide_fits [OF assms(2)] textSide_fits [OF assms(3)] assms(8-10) F(3,5)] by blast
  then show ?thesis using \<open>emitUnified ctx sa sb gs = Some ?p\<close> by blast
qed

end
