(* ===== verification/Diff_Correct.thy ===== *)
theory Diff_Correct
  imports Diff_Compare Diff_Unified
begin

text \<open>
  What a run of \<open>diff\<close> does: the keys of the two sides are equal exactly where their lines are, no emitter
  indexes out of range, the exit status says whether the files are the same, the recursive
  comparison of directories ends, and the unified output of a text comparison patches the old file
  into the new one.
\<close>

section \<open>Interning\<close>

definition internOK :: "internMap \<Rightarrow> bool" where
  "internOK m \<longleftrightarrow> distinct (map snd m) \<and> (\<forall>i \<in> set (map snd m). i < int (length m))"

lemma internOK_Nil: "internOK []"
  by (simp add: internOK_def)

lemma internOK_inj: "internOK m \<Longrightarrow> map_of m k = Some i \<Longrightarrow> map_of m k' = Some i \<Longrightarrow> k = k'"
  unfolding internOK_def by (metis map_of_SomeD distinct_map inj_on_def snd_conv fst_conv)

lemma internKey_ok:
  assumes "internKey m k = (i, m')" "internOK m"
  shows "internOK m' \<and> map_of m' k = Some i \<and> map_of m \<subseteq>\<^sub>m map_of m'"
proof (cases "map_of m k")
  case None
  then have e: "i = int (length m)" "m' = (k, int (length m)) # m" using assms(1) by (auto simp: internKey_def)
  have "internOK m'" using assms(2) unfolding e internOK_def by force
  then show ?thesis using None e by (auto simp: map_le_def)
next
  case (Some j)
  then show ?thesis using assms by (simp add: internKey_def)
qed

lemma internKeys_ok:
  "internKeys m ks = (is, m') \<Longrightarrow> internOK m \<Longrightarrow>
   internOK m' \<and> map (map_of m') ks = map Some is \<and> map_of m \<subseteq>\<^sub>m map_of m'"
proof (induction ks arbitrary: m "is")
  case (Cons k ks)
  obtain i m1 where k: "internKey m k = (i, m1)" by fastforce
  obtain js where ks: "internKeys m1 ks = (js, m')" "is = i # js"
    using Cons.prems(1) k by (auto split: prod.splits)
  note a = internKey_ok [OF k Cons.prems(2)]
  then have b: "internOK m'" "map (map_of m') ks = map Some js" "map_of m1 \<subseteq>\<^sub>m map_of m'"
    using Cons.IH [OF ks(1)] by auto
  have "map_of m' k = Some i" using a b(3) by (metis domI map_le_def)
  then show ?case using a b ks(2) by (auto intro: map_le_trans)
qed simp

text \<open>Two sides interned one after the other have equal identifiers exactly where the keys are equal.\<close>

lemma intern_two:
  assumes "internKeys [] ka = (ia, m)" "internKeys m kb = (ib, m')"
  shows "length ia = length ka" "length ib = length kb"
    "i < length ka \<Longrightarrow> j < length kb \<Longrightarrow> ia ! i = ib ! j \<longleftrightarrow> ka ! i = kb ! j"
proof -
  note a = internKeys_ok [OF assms(1) internOK_Nil]
  then have m: "internOK m" by blast
  note b = internKeys_ok [OF assms(2) m]
  show len: "length ia = length ka" "length ib = length kb" using a b by (metis length_map)+
  show "ia ! i = ib ! j \<longleftrightarrow> ka ! i = kb ! j" if "i < length ka" "j < length kb"
  proof -
    have "map_of m (ka ! i) = Some (ia ! i)" using a that(1) len(1) by (metis nth_map)
    then have x: "map_of m' (ka ! i) = Some (ia ! i)" using b by (metis domI map_le_def)
    have y: "map_of m' (kb ! j) = Some (ib ! j)" using b that(2) len(2) by (metis nth_map)
    show ?thesis using x y internOK_inj [of m' "ka ! i" "ia ! i" "kb ! j"] b by auto
  qed
qed

section \<open>Prepared sides\<close>

lemma length_lineKeys [simp]: "length (lineKeys opts lns e) = length lns"
  by (simp add: lineKeys_def)

lemma prep_lines: "(sideLines (fst (prep s opts m)), sideNoEOL (fst (prep s opts m))) = splitFileLines (ldData s)"
proof (cases "ldData s" rule: rev_cases)
  case (snoc d c)
  then show ?thesis
    by (cases "c = NL") (auto simp: prep_def splitFileLines_def hasSuffixByte_def splitByte_snoc Let_def split: prod.splits)
qed (simp add: prep_def splitFileLines_def)

lemma prep_name: "sideName (fst (prep s opts m)) = ldName s" "sideStamp (fst (prep s opts m)) = ldStamp s"
  by (auto simp: prep_def Let_def split: prod.splits)

definition sideKeyLines :: "loadedSide \<Rightarrow> diffOptions \<Rightarrow> string list" where
  "sideKeyLines s opts = (case splitFileLines (ldData s) of (lns, e) \<Rightarrow> lineKeys opts lns e)"

lemma prep_intern: "internKeys m (sideKeyLines s opts) = (sideKeys (fst (prep s opts m)), snd (prep s opts m))"
proof (cases "ldData s" rule: rev_cases)
  case (snoc d c)
  then show ?thesis
    by (cases "c = NL") (auto simp: sideKeyLines_def prep_def splitFileLines_def hasSuffixByte_def splitByte_snoc Let_def split: prod.splits)
qed (simp add: prep_def splitFileLines_def sideKeyLines_def lineKeys_def)

text \<open>Both sides of a comparison.\<close>

lemma prep_two:
  assumes "prep la opts [] = (sa, m)" "prep lb opts m = (sb, m')"
  shows "length (sideKeys sa) = length (sideKeyLines la opts)" "length (sideKeys sb) = length (sideKeyLines lb opts)"
    "i < length (sideKeys sa) \<Longrightarrow> j < length (sideKeys sb) \<Longrightarrow>
     sideKeys sa ! i = sideKeys sb ! j \<longleftrightarrow> sideKeyLines la opts ! i = sideKeyLines lb opts ! j"
proof -
  have "internKeys [] (sideKeyLines la opts) = (sideKeys sa, m)" "internKeys m (sideKeyLines lb opts) = (sideKeys sb, m')"
    using prep_intern [of "[]" la opts] prep_intern [of m lb opts] assms by simp_all
  note t = intern_two [OF this]
  show "length (sideKeys sa) = length (sideKeyLines la opts)" "length (sideKeys sb) = length (sideKeyLines lb opts)"
    by (rule t)+
  then show "sideKeys sa ! i = sideKeys sb ! j \<longleftrightarrow> sideKeyLines la opts ! i = sideKeyLines lb opts ! j"
    if "i < length (sideKeys sa)" "j < length (sideKeys sb)"
    using t(3) that by simp
qed

lemma keys_equal:
  assumes "prep la opts [] = (sa, m)" "prep lb opts m = (sb, m')"
  shows "sideKeys sa = sideKeys sb \<longleftrightarrow> sideKeyLines la opts = sideKeyLines lb opts"
  using prep_two [OF assms] by (metis nth_equalityI)

lemma length_sideKeys:
  assumes "prep la opts [] = (sa, m)" "prep lb opts m = (sb, m')"
  shows "length (sideKeys sa) = length (sideLines sa)" "length (sideKeys sb) = length (sideLines sb)"
  using prep_two(1,2) [OF assms] prep_lines [of la opts "[]"] prep_lines [of lb opts m] assms
  by (auto simp: sideKeyLines_def split: prod.splits)

section \<open>Plain comparisons\<close>

definition plainOptions :: "diffOptions \<Rightarrow> bool" where
  "plainOptions opts \<longleftrightarrow> \<not> oIgnoreCase opts \<and> \<not> oIgnoreAllSpace opts \<and> \<not> oIgnoreSpaceChange opts"

lemma canon_plain: "plainOptions opts \<Longrightarrow> canon l opts = l"
  by (simp add: canon_def plainOptions_def Let_def)

lemma key_inj: "NUL \<notin> set k \<Longrightarrow> NUL \<notin> set k' \<Longrightarrow>
    k @ (if p then [NUL] else []) = k' @ (if q then [NUL] else []) \<Longrightarrow> k = k' \<and> p = q"
  by (auto split: if_splits)

lemma splitByte_subset: "l \<in> set (splitByte c d) \<Longrightarrow> set l \<subseteq> set d"
  by (induction d arbitrary: l) (force split: if_splits list.splits)+

lemma splitFileLines_subset: "l \<in> set (fst (splitFileLines d)) \<Longrightarrow> set l \<subseteq> set d"
  by (auto simp: splitFileLines_def Let_def split: if_splits dest: in_set_butlastD splitByte_subset)

lemma script_map:
  assumes "script xs ys i j gs" "length xs = length us" "length ys = length vs"
    "\<And>p q. p < length xs \<Longrightarrow> q < length ys \<Longrightarrow> xs ! p = ys ! q \<Longrightarrow> us ! p = vs ! q"
  shows "script us vs i j gs"
proof -
  have tk: "take k (drop p us) = take k (drop q vs)"
    if "take k (drop p xs) = take k (drop q ys)" for p q k
  proof (rule nth_equalityI)
    have l: "min (length xs - p) k = min (length ys - q) k"
      using arg_cong [OF that, of length] by (simp add: min.commute)
    then show "length (take k (drop p us)) = length (take k (drop q vs))" using assms(2,3) by (simp add: min.commute)
    fix t assume "t < length (take k (drop p us))"
    then have t: "t < k" "p + t < length xs" "q + t < length ys" using l assms(2) by auto
    have "take k (drop p xs) ! t = take k (drop q ys) ! t" using that by simp
    then have "xs ! (p + t) = ys ! (q + t)" using t by simp
    then show "take k (drop p us) ! t = take k (drop q vs) ! t" using assms(2-4) t by simp
  qed
  show ?thesis using assms(1)
  proof (induction rule: script.induct)
    case (script_done i j)
    then have "take (length us) (drop i us) = take (length us) (drop j vs)" using tk [of "length us" i j] by simp
    moreover have "length vs - j \<le> length us"
      using arg_cong [OF script_done(3), of length] assms(2,3) by simp
    ultimately show ?case using script_done assms(2,3) by (intro script.script_done) auto
  next
    case (script_group g i k j p q gs)
    then show ?case using tk [of k i j] assms(2,3) by (intro script.script_group [of g i k j p q]) auto
  qed
qed

lemma plain_script:
  assumes "prep la opts [] = (sa, m)" "prep lb opts m = (sb, m')" "plainOptions opts"
    "NUL \<notin> set (ldData la)" "NUL \<notin> set (ldData lb)" "script (sideKeys sa) (sideKeys sb) 0 0 gs"
  shows "script (flagged sa) (flagged sb) 0 0 gs"
proof (rule script_map [OF assms(6)])
  note len = length_sideKeys [OF assms(1,2)]
  show "length (sideKeys sa) = length (flagged sa)" "length (sideKeys sb) = length (flagged sb)" using len by simp_all
  have key: "sideKeyLines s opts ! i = sideLines t ! i @ (if snd (flagged t ! i) then [NUL] else []) \<and>
      NUL \<notin> set (sideLines t ! i)"
    if "prep s opts x = (t, y)" "i < length (sideLines t)" "NUL \<notin> set (ldData s)" for s t x y i
  proof -
    have sp: "splitFileLines (ldData s) = (sideLines t, sideNoEOL t)" using prep_lines [of s opts x] that(1) by simp
    have "NUL \<notin> set (sideLines t ! i)"
      using splitFileLines_subset [of "sideLines t ! i" "ldData s"] sp that(2,3) by auto
    then show ?thesis using that sp assms(3)
      by (simp add: sideKeyLines_def lineKeys_def canon_plain flagged_nth plainOptions_def)
  qed
  fix p q assume p: "p < length (sideKeys sa)" "q < length (sideKeys sb)" "sideKeys sa ! p = sideKeys sb ! q"
  then have "sideKeyLines la opts ! p = sideKeyLines lb opts ! q" using prep_two(3) [OF assms(1,2)] by blast
  then have "sideLines sa ! p = sideLines sb ! q \<and> snd (flagged sa ! p) = snd (flagged sb ! q)"
    using key [OF assms(1) _ assms(4), of p] key [OF assms(2) _ assms(5), of q] p len
      key_inj [of "sideLines sa ! p" "sideLines sb ! q" "snd (flagged sa ! p)" "snd (flagged sb ! q)"] by simp
  then show "flagged sa ! p = flagged sb ! q" using p len by (simp add: flagged_nth)
qed

section \<open>The emitters never index out of range\<close>

lemma seqOut_total: "\<forall>r \<in> set outs. r \<noteq> None \<Longrightarrow> seqOut outs \<noteq> None"
  by (induction outs rule: seqOut.induct) auto

lemma emitRange_total: "0 \<le> i \<Longrightarrow> hi \<le> int (length (sideLines s)) \<Longrightarrow> emitRange m s i hi \<noteq> None"
proof (cases "i < hi")
  case True
  assume "0 \<le> i" "hi \<le> int (length (sideLines s))"
  then show ?thesis using True emitRange_ok [of "nat i" "nat hi" s m] by simp
qed (simp add: emitRange.simps)

definition groupIn :: "nat \<Rightarrow> nat \<Rightarrow> group \<Rightarrow> bool" where
  "groupIn n m g \<longleftrightarrow> 0 \<le> a0 g \<and> a0 g \<le> a1 g \<and> a1 g \<le> int n \<and> 0 \<le> b0 g \<and> b0 g \<le> b1 g \<and> b1 g \<le> int m"

lemma script_groupIn: "script xs ys i j gs \<Longrightarrow> g \<in> set gs \<Longrightarrow> groupIn (length xs) (length ys) g"
  by (induction rule: script.induct) (auto simp: groupIn_def)

lemma emitUnifiedBody_total:
  "0 \<le> ai \<Longrightarrow> 0 \<le> bi \<Longrightarrow> he \<le> int (length (sideLines sa)) \<Longrightarrow>
   \<forall>g \<in> set gs. groupIn (length (sideLines sa)) (length (sideLines sb)) g \<Longrightarrow> emitUnifiedBody sa sb he ai bi gs \<noteq> None"
proof (induction gs arbitrary: ai bi)
  case (Cons g gs)
  have g: "groupIn (length (sideLines sa)) (length (sideLines sb)) g" using Cons.prems by simp
  let ?ai = "max ai (a0 g)" let ?bi = "bi + (?ai - ai)"
  have "emitUnifiedBody sa sb he (max ?ai (a1 g)) (max ?bi (b1 g)) gs \<noteq> None"
    using Cons.prems by (intro Cons.IH) auto
  moreover have "emitRange '' '' sa ai (a0 g) \<noteq> None" "emitRange ''-'' sa ?ai (a1 g) \<noteq> None"
    "emitRange ''+'' sb ?bi (b1 g) \<noteq> None"
    using Cons.prems g by (intro emitRange_total; simp add: groupIn_def)+
  ultimately show ?case unfolding emitUnifiedBody.simps Let_def by (intro seqOut_total) auto
qed (simp add: emitRange_total)

lemma emitContextOld_total:
  "0 \<le> ai \<Longrightarrow> he \<le> int (length (sideLines sa)) \<Longrightarrow>
   \<forall>g \<in> set gs. groupIn (length (sideLines sa)) m g \<Longrightarrow> emitContextOld sa he ai gs \<noteq> None"
proof (induction gs arbitrary: ai)
  case (Cons g gs)
  have g: "groupIn (length (sideLines sa)) m g" using Cons.prems by simp
  let ?ai = "max ai (a0 g)"
  have "emitContextOld sa he (max ?ai (a1 g)) gs \<noteq> None" using Cons.prems by (intro Cons.IH) auto
  moreover have "emitRange ''  '' sa ai (a0 g) \<noteq> None"
    "emitRange (if b1 g > b0 g then ''! '' else ''- '') sa ?ai (a1 g) \<noteq> None"
    using Cons.prems g by (intro emitRange_total; simp add: groupIn_def)+
  ultimately show ?case unfolding emitContextOld.simps Let_def by (intro seqOut_total) auto
qed (simp add: emitRange_total)

lemma emitContextNew_total:
  "0 \<le> bi \<Longrightarrow> he \<le> int (length (sideLines sb)) \<Longrightarrow>
   \<forall>g \<in> set gs. groupIn n (length (sideLines sb)) g \<Longrightarrow> emitContextNew sb he bi gs \<noteq> None"
proof (induction gs arbitrary: bi)
  case (Cons g gs)
  have g: "groupIn n (length (sideLines sb)) g" using Cons.prems by simp
  let ?bi = "max bi (b0 g)"
  have "emitContextNew sb he (max ?bi (b1 g)) gs \<noteq> None" using Cons.prems by (intro Cons.IH) auto
  moreover have "emitRange ''  '' sb bi (b0 g) \<noteq> None"
    "emitRange (if a1 g > a0 g then ''! '' else ''+ '') sb ?bi (b1 g) \<noteq> None"
    using Cons.prems g by (intro emitRange_total; simp add: groupIn_def)+
  ultimately show ?case unfolding emitContextNew.simps Let_def by (intro seqOut_total) auto
qed (simp add: emitRange_total)

lemma script_rest:
  "script xs ys i j (run @ rest) \<Longrightarrow> run \<noteq> [] \<Longrightarrow> a1 (last run) = int p \<Longrightarrow> b1 (last run) = int q \<Longrightarrow>
   script xs ys p q rest"
proof (induction run arbitrary: i j)
  case (Cons g run)
  have "script xs ys i j (g # (run @ rest))" using Cons.prems(1) by simp
  then obtain p1 q1 where h: "a1 g = int p1" "b1 g = int q1" "script xs ys p1 q1 (run @ rest)"
    by (rule script_ConsE) blast
  then show ?case using Cons.IH [OF h(3)] Cons.prems(3,4) by (cases "run = []") auto
qed simp

text \<open>The span of a hunk lies in the two files.\<close>

lemma hunkSpan_in:
  assumes "script xs ys i j (g # run @ rest)" "int (length xs) < 2 ^ 60" "int (length ys) < 2 ^ 60" "int ctx < 2 ^ 61"
    "i \<le> nat (a0 g) - ctx" "rest \<noteq> [] \<longrightarrow> a0 (hd rest) - a1 (last (g # run)) > int (2 * ctx)"
  shows "\<exists>hs he hbs hbe p q. hunkSpan (int ctx) (length xs) g (last (g # run)) = (hs, he, hbs, hbe) \<and>
    0 \<le> hs \<and> he \<le> int (length xs) \<and> 0 \<le> hbs \<and> hbe \<le> int (length ys) \<and> script xs ys p q rest \<and>
    a1 (last (g # run)) = int p"
proof -
  obtain k where k: "a0 g = int (i + k)" "b0 g = int (j + k)" using assms(1) by (elim script_ConsE) auto
  define hs where "hs = i + k - ctx"
  have s: "hs \<le> i + k" "i \<le> hs" using assms(5) k by (auto simp: hs_def)
  have sc: "script xs ys i j ((g # run) @ rest)" using assms(1) by simp
  obtain p q where pq: "endPos i j (g # run) = (p, q)" by fastforce
  have last: "a1 (last (g # run)) = int p" "b1 (last (g # run)) = int q" "p \<le> length xs" "q \<le> length ys"
    using script_endPos [OF sc pq] by auto
  have rest: "script xs ys p q rest" using script_rest [OF sc _ last(1,2)] by simp
  define t where "t = min ctx (length xs - p)"
  have tg: "t \<le> gap xs p rest"
  proof (cases rest)
    case (Cons r rs)
    then show ?thesis using assms(6) last(1) by (simp add: gap_def t_def)
  qed (simp add: gap_def t_def)
  have "hunkSpan (int ctx) (length xs) g (last (g # run)) = (int hs, int (p + t), int (j + (hs - i)), int (q + t))"
    using hunkSpan_ok [of g "i + k" "j + (hs - i)" hs ctx "last (g # run)" p q "length xs" "length ys"]
      k s last assms(2-4) by (simp add: hs_def t_def)
  then show ?thesis using script_gap(2,3) [OF rest tg] rest last(1)
    by (intro exI [of _ "int hs"] exI [of _ "int (p + t)"] exI [of _ "int (j + (hs - i))"] exI [of _ "int (q + t)"]
        exI [of _ p] exI [of _ q]) auto
qed

lemma emitHunks_total:
  assumes "script xs ys i j gs" "length (sideLines sa) = length xs" "length (sideLines sb) = length ys"
    "unifiedOK sa sb (int ctx)" "gs \<noteq> [] \<longrightarrow> i \<le> nat (a0 (hd gs)) - ctx \<or> i = 0"
  shows "emitUnifiedHunks (int ctx) sa sb gs \<noteq> None \<and> emitContextHunks (int ctx) sa sb gs \<noteq> None"
  using assms(1,5)
proof (induction gs arbitrary: i j rule: length_induct)
  case (1 gs)
  show ?case
  proof (cases gs)
    case (Cons g gs')
    obtain run rest where run: "mergeRun (int ctx) g gs' = (run, rest)" by fastforce
    have gs: "gs = g # run @ rest" using mergeRun_append [OF run] Cons by simp
    have two: "i64 (2 * int ctx) = int (2 * ctx)"
      using assms(4) by (intro i64_small [THEN trans]) (auto simp: unifiedOK_def)
    have far: "rest \<noteq> [] \<longrightarrow> a0 (hd rest) - a1 (last (g # run)) > int (2 * ctx)"
      using mergeRun_spec [OF run] two by auto
    have le: "i \<le> nat (a0 g) - ctx" using 1(3) Cons by auto
    obtain hs he hbs hbe p q where h: "hunkSpan (int ctx) (length xs) g (last (g # run)) = (hs, he, hbs, hbe)"
      "0 \<le> hs" "he \<le> int (length xs)" "0 \<le> hbs" "hbe \<le> int (length ys)" "script xs ys p q rest"
      "a1 (last (g # run)) = int p"
      using hunkSpan_in [OF 1(2) [unfolded gs] _ _ _ le far] assms(2-4) by (auto simp: unifiedOK_def)
    have groups: "\<forall>x \<in> set (g # run). groupIn (length (sideLines sa)) (length (sideLines sb)) x"
      using script_groupIn [OF 1(2)] gs assms(2,3) by auto
    have "emitUnifiedHunk (int ctx) sa sb g run \<noteq> None" "emitContextHunk (int ctx) sa sb g run \<noteq> None"
      using emitUnifiedBody_total [OF h(2,4) _ groups, of he] emitContextOld_total [OF h(2) _ groups, of he]
        emitContextNew_total [OF h(4) _ groups, of hbe] h assms(2,3)
      by (auto simp: emitUnifiedHunk_def emitContextHunk_def Let_def intro!: seqOut_total)
    moreover have "emitUnifiedHunks (int ctx) sa sb rest \<noteq> None \<and> emitContextHunks (int ctx) sa sb rest \<noteq> None"
    proof -
      have "length rest < length gs" "rest \<noteq> [] \<longrightarrow> p \<le> nat (a0 (hd rest)) - ctx \<or> p = 0"
        using h(7) far by (auto simp: gs)
      then show ?thesis using 1(1) h(6) by blast
    qed
    ultimately show ?thesis using run by (auto simp: Cons intro!: seqOut_total)
  qed simp
qed

lemma emitGroups_total:
  assumes "groupIn (length (sideLines sa)) (length (sideLines sb)) g"
  shows "emitNormalGroup sa sb g \<noteq> None" "emitEdGroup sb g \<noteq> None" "emitForwardEdGroup sb g \<noteq> None"
proof -
  have s: "goSlice (sideLines sb) (b0 g) (b1 g) \<noteq> None" using assms by (simp add: goSlice_def groupIn_def)
  then show "emitEdGroup sb g \<noteq> None" "emitForwardEdGroup sb g \<noteq> None"
    by (auto simp: emitEdGroup_def emitForwardEdGroup_def Let_def)
  have "emitRange ''< '' sa (a0 g) (a1 g) \<noteq> None" "emitRange ''> '' sb (b0 g) (b1 g) \<noteq> None"
    using assms by (intro emitRange_total; simp add: groupIn_def)+
  then show "emitNormalGroup sa sb g \<noteq> None" unfolding emitNormalGroup_def Let_def by (intro seqOut_total) auto
qed

lemma emitStyle_total:
  assumes "script xs ys 0 0 gs" "length (sideLines sa) = length xs" "length (sideLines sb) = length ys"
    "unifiedOK sa sb (oContext opts)"
  shows "emitStyle opts sa sb gs \<noteq> None"
proof -
  have groups: "\<forall>g \<in> set gs. groupIn (length (sideLines sa)) (length (sideLines sb)) g"
    using script_groupIn [OF assms(1)] assms(2,3) by auto
  have each: "\<forall>r \<in> set (map f gs). r \<noteq> None" if "\<And>g. g \<in> set gs \<Longrightarrow> f g \<noteq> None" for f :: "group \<Rightarrow> string list option"
    using that by auto
  have "emitNormal sa sb gs \<noteq> None" "emitForwardEd sb gs \<noteq> None"
    unfolding emitNormal_def emitForwardEd_def
    by (rule seqOut_total [OF each], rule emitGroups_total, use groups in blast)+
  moreover have "emitEd sb gs \<noteq> None"
  proof -
    have "\<forall>g \<in> set gs. emitEdGroup sb g \<noteq> None" using emitGroups_total(2) [of sa sb] groups by blast
    then show ?thesis unfolding emitEd_def by (intro seqOut_total) auto
  qed
  moreover have "oContext opts = int (nat (oContext opts))" using assms(4) by (simp add: unifiedOK_def)
  then have "emitUnifiedHunks (oContext opts) sa sb gs \<noteq> None \<and> emitContextHunks (oContext opts) sa sb gs \<noteq> None"
    using emitHunks_total [OF assms(1-3), of "nat (oContext opts)"] assms(4) by simp
  then have "emitUnified (oContext opts) sa sb gs \<noteq> None" "emitContext (oContext opts) sa sb gs \<noteq> None"
    unfolding emitUnified_def emitContext_def by (auto intro!: seqOut_total)
  ultimately show ?thesis by (simp add: emitStyle_def)
qed

section \<open>What a comparison reports\<close>

text \<open>A pair of loaded sides within the bounds of the address space, and a context length that does not overflow.\<close>

definition boundedPair :: "diffOptions \<Rightarrow> loadedSide \<Rightarrow> loadedSide \<Rightarrow> bool" where
  "boundedPair opts la lb \<longleftrightarrow> int (length (ldData la)) < 2 ^ 59 \<and> int (length (ldData lb)) < 2 ^ 59 \<and>
     0 \<le> oContext opts \<and> oContext opts < 2 ^ 61"

lemma length_splitByte: "length (splitByte c d) \<le> Suc (length d)"
  by (induction d) (auto split: list.splits)

lemma length_splitFileLines: "length (fst (splitFileLines d)) \<le> Suc (length d)"
  using length_splitByte [of NL d] by (auto simp: splitFileLines_def Let_def)

lemma prep_split:
  assumes "prep s opts m = (t, m')"
  shows "splitFileLines (ldData s) = (sideLines t, sideNoEOL t)" "length (sideLines t) \<le> Suc (length (ldData s))"
proof -
  show sp: "splitFileLines (ldData s) = (sideLines t, sideNoEOL t)" using prep_lines [of s opts m] assms by simp
  show "length (sideLines t) \<le> Suc (length (ldData s))" using length_splitFileLines [of "ldData s"] sp by simp
qed

lemma compareText_ok:
  assumes "boundedPair opts la lb"
  shows "\<exists>out err st. compareText opts la lb hdr = Some (out, err, st) \<and>
    (st = 0 \<longleftrightarrow> sideKeyLines la opts = sideKeyLines lb opts) \<and> (st = 0 \<longrightarrow> out = [] \<and> err = []) \<and> st \<in> {0, 1, 2} \<and>
    (\<not> oEdStyle opts \<and> \<not> oForwardEdStyle opts \<longrightarrow> st \<noteq> 2)"
proof -
  obtain sa m where a: "prep la opts [] = (sa, m)" by fastforce
  obtain sb m' where b: "prep lb opts m = (sb, m')" by fastforce
  obtain gs where gs: "diffGroups (sideKeys sa) (sideKeys sb) = Some gs" "script (sideKeys sa) (sideKeys sb) 0 0 gs"
    using diffGroups_ok [of "sideKeys sa" "sideKeys sb"] by blast
  have eq: "gs = [] \<longleftrightarrow> sideKeyLines la opts = sideKeyLines lb opts"
    using diffGroups_Nil [of "sideKeys sa" "sideKeys sb"] gs(1) keys_equal [OF a b] by auto
  have "unifiedOK sa sb (oContext opts)"
    using prep_split(2) [OF a] prep_split(2) [OF b] assms by (auto simp: unifiedOK_def boundedPair_def)
  then have "emitStyle opts sa sb gs \<noteq> None"
    using emitStyle_total [OF gs(2)] length_sideKeys [OF a b] by simp
  then show ?thesis using a b gs(1) eq by (auto simp: compareText_def Let_def)
qed

definition sameFile :: "diffOptions \<Rightarrow> loadedSide \<Rightarrow> loadedSide \<Rightarrow> bool" where
  "sameFile opts la lb \<longleftrightarrow> ldData la = ldData lb \<or>
     \<not> isBinary (ldData la) \<and> \<not> isBinary (ldData lb) \<and> sideKeyLines la opts = sideKeyLines lb opts"

lemma compareFiles_ok:
  assumes "loadSide env (envIn env) opts a = (Inr la, inp)" "loadSide env inp opts b = (Inr lb, inp')"
    "boundedPair opts la lb"
  shows "\<exists>out err st. compareFiles env opts a b hdr = Some (out, err, st) \<and> (st = 0 \<longleftrightarrow> sameFile opts la lb) \<and>
    (st = 0 \<longrightarrow> out = [] \<and> err = []) \<and> st \<in> {0, 1, 2}"
proof -
  consider "ldData la = ldData lb" | "ldData la \<noteq> ldData lb" "isBinary (ldData la) \<or> isBinary (ldData lb)"
    | "ldData la \<noteq> ldData lb" "\<not> isBinary (ldData la)" "\<not> isBinary (ldData lb)" by blast
  then show ?thesis
  proof cases
    case 3
    obtain out err st where "compareText opts la lb hdr = Some (out, err, st)"
      "st = 0 \<longleftrightarrow> sideKeyLines la opts = sideKeyLines lb opts" "st = 0 \<longrightarrow> out = [] \<and> err = []" "st \<in> {0, 1, 2}"
      using compareText_ok [OF assms(3), of hdr] by blast
    then show ?thesis using 3 assms(1,2) by (simp add: compareFiles_def sameFile_def)
  qed (use assms(1,2) in \<open>auto simp: compareFiles_def sameFile_def\<close>)
qed

section \<open>The unified output patches the old file into the new one\<close>

definition textData :: "string \<Rightarrow> bool" where
  "textData d \<longleftrightarrow> NUL \<notin> set d \<and> list_all (\<lambda>l. \<not> hasSuffixByte l CR) (fst (splitFileLines d)) \<and> int (length d) < 2 ^ 59"

text \<open>A text file in the sense of POSIX: empty, or ending in a newline.\<close>

definition endsInNewline :: "string \<Rightarrow> bool" where
  "endsInNewline d \<longleftrightarrow> \<not> snd (splitFileLines d)"

definition headerField :: "string \<Rightarrow> string \<Rightarrow> bool" where
  "headerField name stamp \<longleftrightarrow> NL \<notin> set name \<and> TAB \<notin> set name \<and> name \<noteq> DevNull \<and> textLine (TAB # stamp)"

lemma splitFileLines_noNL: "l \<in> set (fst (splitFileLines d)) \<Longrightarrow> NL \<notin> set l"
  by (auto simp: splitFileLines_def Let_def split: if_splits dest: in_set_butlastD splitByte_parts)

lemma textData_side:
  assumes "textData (ldData s)" "prep s opts m = (t, m')" shows "textSide t"
proof -
  note sp = prep_split(1) [OF assms(2)]
  have "list_all textLine (sideLines t)"
    using assms(1) sp splitFileLines_noNL [of _ "ldData s"] by (auto simp: textData_def textLine_def list_all_iff)
  moreover have "sideLines t = [] \<longrightarrow> \<not> sideNoEOL t"
    using sp by (auto simp: splitFileLines_def Let_def split: if_splits)
  ultimately show ?thesis using assms(1) prep_split(2) [OF assms(2)] by (auto simp: textSide_def textData_def)
qed

definition unifiedOptions :: "diffOptions \<Rightarrow> bool" where
  "unifiedOptions opts \<longleftrightarrow> oUnified opts \<and> \<not> oEdStyle opts \<and> \<not> oForwardEdStyle opts \<and> \<not> oBrief opts \<and>
     plainOptions opts \<and> 0 \<le> oContext opts \<and> oContext opts < 2 ^ 61"

text \<open>What a comparison of two different text files hands to the emitter.\<close>

lemma plain_sides:
  assumes "plainOptions opts" "textData (ldData la)" "textData (ldData lb)" "ldData la \<noteq> ldData lb"
  obtains sa m sb m' gs where "prep la opts [] = (sa, m)" "prep lb opts m = (sb, m')"
    "diffGroups (sideKeys sa) (sideKeys sb) = Some gs" "script (flagged sa) (flagged sb) 0 0 gs" "separated gs" "gs \<noteq> []"
    "splitFileLines (ldData la) = (sideLines sa, sideNoEOL sa)" "splitFileLines (ldData lb) = (sideLines sb, sideNoEOL sb)"
    "textSide sa" "textSide sb" "sideName sa = ldName la" "sideStamp sa = ldStamp la" "sideName sb = ldName lb"
    "sideStamp sb = ldStamp lb"
proof -
  obtain sa m where a: "prep la opts [] = (sa, m)" by fastforce
  obtain sb m' where b: "prep lb opts m = (sb, m')" by fastforce
  obtain gs where gs: "diffGroups (sideKeys sa) (sideKeys sb) = Some gs" "script (sideKeys sa) (sideKeys sb) 0 0 gs" "separated gs"
    using diffGroups_ok [of "sideKeys sa" "sideKeys sb"] by blast
  have sc: "script (flagged sa) (flagged sb) 0 0 gs"
    using plain_script [OF a b assms(1) _ _ gs(2)] assms(2,3) by (simp add: textData_def)
  note split = prep_split(1) [OF a] prep_split(1) [OF b]
  note ts = textData_side [OF assms(2) a] textData_side [OF assms(3) b]
  have names: "sideName sa = ldName la" "sideStamp sa = ldStamp la" "sideName sb = ldName lb" "sideStamp sb = ldStamp lb"
    using prep_name [of la opts "[]"] prep_name [of lb opts m] a b by simp_all
  have "gs \<noteq> []"
  proof
    assume "gs = []"
    then have fl: "flagged sa = flagged sb" using sc by (auto elim: script_NilE)
    then have "sideLines sa = sideLines sb" using fst_flagged by metis
    moreover have "sideNoEOL sa = sideNoEOL sb"
      using last_flagged [of sa] last_flagged [of sb] fl \<open>sideLines sa = sideLines sb\<close> ts
      by (cases "sideLines sa = []") (auto simp: textSide_def)
    ultimately have "joinFileLines (sideLines sa) (sideNoEOL sa) = joinFileLines (sideLines sb) (sideNoEOL sb)" by simp
    then show False using join_split_file [of "ldData la"] join_split_file [of "ldData lb"] split assms(4) by simp
  qed
  then show ?thesis using that a b gs sc split ts names by blast
qed

lemma compareText_patched:
  assumes "unifiedOptions opts" "textData (ldData la)" "textData (ldData lb)" "ldData la \<noteq> ldData lb"
    "headerField (ldName la) (ldStamp la)" "headerField (ldName lb) (ldStamp lb)"
  shows "\<exists>out. compareText opts la lb False = Some (out, [], 1) \<and>
    patches out (ldData la) (ldData lb) \<and> unpatches out (ldData la) (ldData lb)"
proof -
  have o: "plainOptions opts" "oUnified opts" "\<not> oEdStyle opts" "\<not> oForwardEdStyle opts" "\<not> oBrief opts"
    "0 \<le> oContext opts" "oContext opts < 2 ^ 61" using assms(1) by (auto simp: unifiedOptions_def)
  obtain sa m sb m' gs where a: "prep la opts [] = (sa, m)" and b: "prep lb opts m = (sb, m')"
    and gs: "diffGroups (sideKeys sa) (sideKeys sb) = Some gs" "gs \<noteq> []" and sc: "script (flagged sa) (flagged sb) 0 0 gs"
    and split: "splitFileLines (ldData la) = (sideLines sa, sideNoEOL sa)" "splitFileLines (ldData lb) = (sideLines sb, sideNoEOL sb)"
    and ts: "textSide sa" "textSide sb" and names: "sideName sa = ldName la" "sideStamp sa = ldStamp la" "sideName sb = ldName lb"
    "sideStamp sb = ldStamp lb"
    by (rule plain_sides [OF o(1) assms(2-4)])
  have "namedSide sa" "namedSide sb" using assms(5,6) names by (auto simp: namedSide_def headerField_def)
  then obtain out where out: "emitUnified (oContext opts) sa sb gs = Some out"
    "patches (unlines out) (ldData la) (ldData lb)" "unpatches (unlines out) (ldData la) (ldData lb)"
    using emitUnified_patched [OF sc ts _ _ o(6,7) assms(4) split] by blast
  then have "compareText opts la lb False = Some (unlines out, [], 1)"
    using a b gs o by (simp add: compareText_def emitStyle_def Let_def)
  then show ?thesis using out(2,3) by blast
qed

lemma compareFiles_text:
  assumes "loadSide env (envIn env) opts a = (Inr la, inp)" "loadSide env inp opts b = (Inr lb, inp')"
    "textData (ldData la)" "textData (ldData lb)" "ldData la \<noteq> ldData lb"
  shows "compareFiles env opts a b hdr = compareText opts la lb hdr"
  using assms by (simp add: compareFiles_def isBinary_def textData_def)

section \<open>The directory comparison ends\<close>

text \<open>
  What the operating system guarantees: no path longer than a limit names a directory (\<open>PATH_MAX\<close>), a
  directory has no entry with an empty name, and a file fits the address space.
\<close>

definition osLimits :: "diffEnv \<Rightarrow> nat \<Rightarrow> bool" where
  "osLimits env limit \<longleftrightarrow>
     (\<forall>p fi. envStat env p = Inr fi \<longrightarrow> isDir fi \<longrightarrow> length p \<le> limit) \<and>
     (\<forall>p ents. envDir env p = Inr ents \<longrightarrow> [] \<notin> set ents) \<and>
     (\<forall>p d. envRead env p = Inr d \<longrightarrow> int (length d) < 2 ^ 59) \<and>
     (\<forall>d. envIn env = Inr d \<longrightarrow> int (length d) < 2 ^ 59)"

definition contextOK :: "diffOptions \<Rightarrow> bool" where
  "contextOK opts \<longleftrightarrow> 0 \<le> oContext opts \<and> oContext opts < 2 ^ 61"

lemma loadSide_bounded:
  assumes "osLimits env limit" "\<forall>d. inp = Inr d \<longrightarrow> int (length d) < 2 ^ 59" "loadSide env inp opts a = (r, inp')"
  shows "(\<forall>la. r = Inr la \<longrightarrow> int (length (ldData la)) < 2 ^ 59) \<and> (\<forall>d. inp' = Inr d \<longrightarrow> int (length d) < 2 ^ 59)"
  using assms unfolding osLimits_def loadSide_def by (auto split: if_splits sum.splits)

lemma compareFiles_total:
  assumes "osLimits env limit" "contextOK opts"
  shows "compareFiles env opts a b hdr \<noteq> None"
proof -
  obtain ra inp where a: "loadSide env (envIn env) opts a = (ra, inp)" by fastforce
  obtain rb inp' where b: "loadSide env inp opts b = (rb, inp')" by fastforce
  have "\<forall>d. envIn env = Inr d \<longrightarrow> int (length d) < 2 ^ 59" using assms(1) by (simp add: osLimits_def)
  note la = loadSide_bounded [OF assms(1) this a]
  note lb = loadSide_bounded [OF assms(1) conjunct2 [OF la] b]
  show ?thesis
  proof (cases ra)
    case ra: (Inr la)
    show ?thesis
    proof (cases rb)
      case rb: (Inr lb)
      then have "boundedPair opts la lb" using ra la lb assms(2) by (simp add: boundedPair_def contextOK_def)
      then show ?thesis using compareFiles_ok [of env opts a la inp b lb inp' hdr] a b ra rb by auto
    qed (use a b ra in \<open>auto simp: compareFiles_def\<close>)
  qed (use a in \<open>auto simp: compareFiles_def\<close>)
qed

lemma seqRuns_total: "\<forall>r \<in> set rs. r \<noteq> None \<Longrightarrow> seqRuns rs st \<noteq> None"
proof (induction rs arbitrary: st)
  case (Cons r rs)
  then obtain out err s where r: "r = Some (out, err, s)" by auto
  obtain o' e' s' where "seqRuns rs (if s > st then s else st) = Some (o', e', s')"
    using Cons.IH [of "if s > st then s else st"] Cons.prems by auto
  then show ?case unfolding r by simp
qed simp

lemma length_joinDisplay: "name \<noteq> [] \<Longrightarrow> length d < length (joinDisplay d name)"
  by (simp add: joinDisplay_def)

lemma compareEntry_total:
  assumes "osLimits env limit" "contextOK opts" "name \<noteq> []"
    and descend: "\<And>pa pb. length da < length pa \<Longrightarrow> length db < length pb \<Longrightarrow> min (length pa) (length pb) \<le> limit \<Longrightarrow>
      descend pa pb \<noteq> None"
  shows "compareEntry descend env opts da db la lb name \<noteq> None"
proof -
  let ?pa = "joinDisplay da name" and ?pb = "joinDisplay db name"
  have l: "length da < length ?pa" "length db < length ?pb" using length_joinDisplay [OF assms(3)] by auto
  have dir: "length p \<le> limit" if "envStat env p = Inr fi" "isDir fi" for p fi
    using assms(1) that by (auto simp: osLimits_def)
  have go: "descend ?pa ?pb \<noteq> None" if "envStat env p = Inr fi" "isDir fi" "p = ?pa \<or> p = ?pb" for p fi
    using descend [OF l] dir [OF that(1,2)] that(3) by (auto simp: min_def)
  note files = compareFiles_total [OF assms(1,2)]
  have "comparePair descend env opts ?pa ?pb \<noteq> None"
    unfolding comparePair_def using files go by (auto split: sum.splits simp del: not_None_eq)
  moreover have "onlyIn descend env opts da name ?pa ?pb True \<noteq> None" "onlyIn descend env opts db name ?pb ?pa False \<noteq> None"
    unfolding onlyIn_def Let_def using files go by (auto split: sum.splits simp del: not_None_eq)
  ultimately show ?thesis unfolding compareEntry_def Let_def by (auto simp del: not_None_eq)
qed

lemma compareDirs_total:
  assumes "osLimits env limit" "contextOK opts"
  shows "min (length da) (length db) \<le> limit \<Longrightarrow> limit < depth + min (length da) (length db) \<Longrightarrow>
    compareDirs depth env opts da db \<noteq> None"
proof (induction depth arbitrary: da db)
  case (Suc depth)
  show ?case
  proof (cases "\<exists>la lb. readDirNames env opts da = Inr la \<and> readDirNames env opts db = Inr lb")
    case True
    then obtain la lb where r: "readDirNames env opts da = Inr la" "readDirNames env opts db = Inr lb" by blast
    have "[] \<notin> set la" "[] \<notin> set lb"
      using r assms(1) by (auto simp: readDirNames_def osLimits_def split: sum.splits if_splits)
    then have ne: "[] \<notin> set (sortedUnion la lb)" by (auto simp: sortedUnion_def)
    have "compareEntry (compareDirs depth env opts) env opts da db la lb name \<noteq> None"
      if "name \<in> set (sortedUnion la lb)" for name
    proof (rule compareEntry_total [OF assms])
      show "name \<noteq> []" using that ne by auto
      show "compareDirs depth env opts pa pb \<noteq> None"
        if "length da < length pa" "length db < length pb" "min (length pa) (length pb) \<le> limit" for pa pb
        using Suc.IH [OF that(3)] Suc.prems that by (auto simp: min_def split: if_splits)
    qed
    then have "seqRuns (map (compareEntry (compareDirs depth env opts) env opts da db la lb) (sortedUnion la lb)) 0 \<noteq> None"
      by (intro seqRuns_total) (auto simp del: not_None_eq)
    then show ?thesis using r by simp
  next
    case False
    then show ?thesis by (auto split: sum.splits)
  qed
qed simp

lemma dispatch_total:
  assumes "osLimits env limit" "contextOK opts"
  shows "dispatch (Suc limit) env opts a b \<noteq> None"
proof -
  have "compareDirs (Suc limit) env opts a b \<noteq> None"
    if "statOperand env opts a = Inr (True, x)" for x
  proof (rule compareDirs_total [OF assms])
    have "length a \<le> limit"
      using that assms(1) by (auto simp: statOperand_def osLimits_def split: if_splits sum.splits)
    then show "min (length a) (length b) \<le> limit" by simp
  qed simp
  then show ?thesis using compareFiles_total [OF assms]
    unfolding dispatch_def by (auto split: sum.splits prod.splits simp del: not_None_eq)
qed

section \<open>Properties\<close>

text \<open>C13: Whenever both operands can be read, \<open>compareFiles\<close> returns; its status is \<open>0\<close>
  exactly when the files are the same (the same bytes, or text files whose lines have the same
  keys under \<open>-i\<close>, \<open>-w\<close> and \<open>-b\<close>), and then nothing is printed.\<close>

theorem compareFiles_status:
  assumes "loadSide env (envIn env) opts a = (Inr la, inp)" "loadSide env inp opts b = (Inr lb, inp')"
    "boundedPair opts la lb"
  shows "\<exists>out err st. compareFiles env opts a b hdr = Some (out, err, st) \<and> (st = 0 \<longleftrightarrow> sameFile opts la lb) \<and>
    (st = 0 \<longrightarrow> out = [] \<and> err = [])"
  using compareFiles_ok [OF assms, of hdr] by blast

text \<open>C14: On a file system with a bound on the length of the path of a directory the
  comparison of any two operands ends, without a panic, within that many levels.\<close>

theorem dispatch_returns:
  assumes "osLimits env limit" "contextOK opts"
  shows "\<exists>out err st. dispatch (Suc limit) env opts a b = Some (out, err, st)"
  using dispatch_total [OF assms, of a b] by auto

section \<open>An example\<close>

definition demoStat :: "string \<Rightarrow> osError + fileInfo" where
  "demoStat p =
     (if p = ''d'' then Inr \<lparr>fiKind = Directory, fiStamp = ''t''\<rparr>
      else if p \<in> {''a'', ''b'', ''d/a''} then Inr \<lparr>fiKind = Regular, fiStamp = ''t''\<rparr>
      else Inl ErrNotExist)"

definition demoEnv :: diffEnv where
  "demoEnv = \<lparr>envStat = demoStat,
     envRead = (\<lambda>p. if p = ''a'' \<or> p = ''d/a'' then Inr (unlines [''x'', ''y'']) else
                    if p = ''b'' then Inr (unlines [''x'', ''z'']) else Inl ErrNotExist),
     envDir = (\<lambda>p. if p = ''d'' then Inr [''a''] else Inl ErrNotExist),
     envIn = Inr [], envNow = ''now'', envEpoch = ''epoch''\<rparr>"

definition demoU :: diffOptions where
  "demoU = defaultOptions\<lparr>oUnified := True\<rparr>"

definition demoSide :: "string \<Rightarrow> string list \<Rightarrow> loadedSide" where
  "demoSide name ls = \<lparr>ldName = name, ldData = unlines ls, ldStamp = ''t''\<rparr>"

lemma demo_load:
  "loadSide demoEnv (envIn demoEnv) demoU ''a'' = (Inr (demoSide ''a'' [''x'', ''y'']), Inr [])"
  "loadSide demoEnv (Inr []) demoU ''b'' = (Inr (demoSide ''b'' [''x'', ''z'']), Inr [])"
  "boundedPair demoU (demoSide ''a'' [''x'', ''y'']) (demoSide ''b'' [''x'', ''z''])"
  by code_simp+

lemma demo_limits: "osLimits demoEnv 1" "contextOK demoU"
  by (auto simp: osLimits_def demoEnv_def demoStat_def isDir_def contextOK_def demoU_def defaultOptions_def
      split: if_splits)

theorem compareFiles_status_witness:
  "\<exists>out err st. compareFiles demoEnv demoU ''a'' ''b'' False = Some (out, err, st) \<and>
    (st = 0 \<longleftrightarrow> sameFile demoU (demoSide ''a'' [''x'', ''y'']) (demoSide ''b'' [''x'', ''z''])) \<and>
    (st = 0 \<longrightarrow> out = [] \<and> err = [])"
  using compareFiles_status [OF demo_load, of False] .

theorem dispatch_returns_witness:
  "\<exists>out err st. dispatch (Suc 1) demoEnv demoU ''d'' ''b'' = Some (out, err, st)"
  using dispatch_returns [OF demo_limits, of "''d''" "''b''"] .

end
