(* ===== verification/Ed_Roundtrip.thy ===== *)
theory Ed_Roundtrip
  imports Patch_Ed Diff_Correct
begin

text \<open>
  The scripts of \<open>diff -e\<close> (\<open>emitEd\<close> of \<open>src/cmds/diff/diff.go\<close>) read back by \<open>src/pkg/patch/ed.go\<close>: an
  address is read as it was printed, a block is inserted as it was, also where a line is a single
  period, and the groups, applied from the last to the first, turn the old lines into the new ones.
\<close>

section \<open>Reading a block back\<close>

definition edPlain :: "edState \<Rightarrow> bool" where
  "edPlain st \<longleftrightarrow> \<not> edNoEOL st \<and> edRejects st = []"

definition edMk :: "string list \<Rightarrow> nat \<Rightarrow> edState" where
  "edMk ls dot = \<lparr>edLines = ls, edNoEOL = False, edCurrent = int dot, edRejects = [], edApplied = True\<rparr>"

lemma trim_textLine [simp]: "textLine l \<Longrightarrow> trimSuffixByte l CR = l"
  by (simp add: textLine_def trimSuffixByte_def)

lemma edText_plain: "list_all textLine ls \<Longrightarrow> ''.'' \<notin> set ls \<Longrightarrow> edText (ls @ ''.'' # rest) = Some (ls, rest)"
  by (induction ls) (auto simp: Let_def trimSuffixByte_def hasSuffixByte_def textLine_def)

lemma block_plain: "''.'' \<notin> set ls \<Longrightarrow> emitEdBlock_loop ls True = ls @ [''.'']"
  by (induction ls) auto

lemma block_dot: "''.'' \<notin> set l1 \<Longrightarrow>
    emitEdBlock_loop (l1 @ ''.'' # l2) True =
      l1 @ [''..'', ''.'', ''s/.//''] @ (if l2 \<noteq> [] then ''a'' # emitEdBlock_loop l2 True else [])"
  by (induction l1) auto

lemma edSubst_dot: "edSubst (edMk (pre @ ''..'' # suf) (Suc (length pre))) = edMk (pre @ ''.'' # suf) (Suc (length pre))"
  by (simp add: edSubst_def edMk_def Let_def nth_append)

lemma edAppend_at: "edPlain st \<Longrightarrow> edLines st = pre @ suf \<Longrightarrow> first \<le> int (length pre) \<Longrightarrow>
    edExec [] first (int (length pre)) CHR ''a'' body st = Some (edMk (pre @ body @ suf) (length pre + length body))"
  by (simp add: edExec_def edAppend_def edSplice_def spliceLines_Some keepBack_def Let_def edMk_def edPlain_def)

lemma edCommand_bare_a: "edCommand [] ''a'' rest st =
    (if edCurrent st < 0 then Some (Inl (InvalidEdAddress ''a''))
     else case edText rest of
       None \<Rightarrow> Some (Inl (UnterminatedEd ''a''))
     | Some (body, rest') \<Rightarrow> map_option (\<lambda>st'. Inr (st', rest')) (edExec [] (edCurrent st) (edCurrent st) CHR ''a'' body st))"
proof -
  have "edCommandRE ''a'' = Some ([], [], CHR ''a'')" by code_simp
  then show ?thesis
    by (simp add: edCommand_def trimSuffixByte_def hasSuffixByte_def Let_def split: option.splits)
qed

text \<open>After the first run of text is in the buffer, the rest of the block completes it.\<close>

lemma edBlock_ok:
  assumes "list_all textLine ls"
  shows "\<exists>body rest'. edText (emitEdBlock_loop ls True @ rest) = Some (body, rest') \<and>
    edLoop [] rest' (edMk (pre @ body @ suf) (length pre + length body)) =
    edLoop [] rest (edMk (pre @ ls @ suf) (length pre + length ls))"
  using assms
proof (induction "length ls" arbitrary: ls pre rule: less_induct)
  case less
  show ?case
  proof (cases "''.'' \<in> set ls")
    case False
    then show ?thesis using edText_plain [OF less.prems False, of rest] by (simp add: block_plain)
  next
    case True
    then obtain l1 l2 where l: "ls = l1 @ ''.'' # l2" "''.'' \<notin> set l1" by (meson split_list_first)
    let ?tail = "(if l2 \<noteq> [] then ''a'' # emitEdBlock_loop l2 True else [])"
    have ok: "list_all textLine (l1 @ [''..''])" "''.'' \<notin> set (l1 @ [''..''])"
      using less.prems l by (auto simp: textLine_def hasSuffixByte_def)
    have rd: "edText (emitEdBlock_loop ls True @ rest) = Some (l1 @ [''..''], ''s/.//'' # ?tail @ rest)"
      using edText_plain [OF ok, of "''s/.//'' # ?tail @ rest"] by (simp add: l block_dot)
    let ?p = "pre @ l1" let ?q = "?p @ [''.'']"
    let ?st = "edMk (?q @ suf) (length ?q)"
    have subst: "edLoop [] (''s/.//'' # ?tail @ rest) (edMk (pre @ (l1 @ [''..'']) @ suf) (length pre + length (l1 @ [''..'']))) =
        edLoop [] (?tail @ rest) ?st"
      using edSubst_dot [of ?p suf] by (simp add: edCommand_def trimSuffixByte_def hasSuffixByte_def)
    show ?thesis
    proof (cases "l2 = []")
      case True
      then show ?thesis using rd subst l by (intro exI [of _ "l1 @ [''..'']"] exI [of _ "''s/.//'' # ?tail @ rest"]) simp
    next
      case False
      have small: "length l2 < length ls" "list_all textLine l2" using l less.prems by auto
      obtain body rest' where b: "edText (emitEdBlock_loop l2 True @ rest) = Some (body, rest')"
        "edLoop [] rest' (edMk (?q @ body @ suf) (length ?q + length body)) =
         edLoop [] rest (edMk (?q @ l2 @ suf) (length ?q + length l2))"
        using less.hyps [OF small, of ?q] by blast
      have cur: "edCurrent ?st = int (length ?q)" "edPlain ?st" "edLines ?st = ?q @ suf"
        by (simp_all add: edMk_def edPlain_def)
      have "edCommand [] ''a'' (emitEdBlock_loop l2 True @ rest) ?st =
          Some (Inr (edMk (?q @ body @ suf) (length ?q + length body), rest'))"
        using edAppend_at [OF cur(2,3), of "int (length ?q)" body] unfolding edCommand_bare_a b(1) cur(1) by simp
      then have "edLoop [] (?tail @ rest) ?st = edLoop [] rest (edMk (?q @ l2 @ suf) (length ?q + length l2))"
        using False b(2) by simp
      moreover have "edMk (?q @ l2 @ suf) (length ?q + length l2) = edMk (pre @ ls @ suf) (length pre + length ls)"
        by (simp add: l add.assoc)
      ultimately show ?thesis using rd subst by metis
    qed
  qed
qed

section \<open>Reading an address back\<close>

lemma edCommandRE_range:
  assumes "rangeRe (r @ [c]) = Some (m1, m2, [c])" "isEdOp c" shows "edCommandRE (r @ [c]) = Some (m1, m2, c)"
  using assms by (simp add: edCommandRE_def)

section \<open>Reading a group back\<close>

lemma edChange_at:
  assumes "edPlain st" "edLines st = pre @ old @ suf" "old \<noteq> []"
  shows "edExec [] (int (length pre) + 1) (int (length pre + length old)) CHR ''c'' body st =
    Some (edMk (pre @ body @ suf) (length pre + length body))"
  using assms by (cases old) (simp_all add: edExec_def edChange_def edSplice_def spliceLines_Some goSlice_def keepBack_def Let_def
      edMk_def edPlain_def nat_add_distrib)

lemma edDelete_at:
  assumes "edPlain st" "edLines st = pre @ old @ suf" "old \<noteq> []"
  shows "\<exists>st'. edExec [] (int (length pre) + 1) (int (length pre + length old)) CHR ''d'' [] st = Some st' \<and>
    edPlain st' \<and> edLines st' = pre @ suf"
  using assms by (cases old) (simp_all add: edExec_def edDelete_def edSplice_def spliceLines_Some goSlice_def Let_def
      edPlain_def nat_add_distrib)

lemma edCommand_addr:
  assumes "rangeRe (r @ [c]) = Some (m1, m2, [c])" "isEdOp c" "m1 \<noteq> []" "Atoi m1 = f"
    "(if m2 \<noteq> [] then Atoi m2 else Atoi m1) = l" "0 \<le> f" "f \<le> l"
  shows "edCommand [] (r @ [c]) rest st =
    (if c = CHR ''d'' then map_option (\<lambda>st'. Inr (st', rest)) (edExec [] f l c [] st)
     else case edText rest of
       None \<Rightarrow> Some (Inl (UnterminatedEd (r @ [c])))
     | Some (body, rest') \<Rightarrow> map_option (\<lambda>st'. Inr (st', rest')) (edExec [] f l c body st))"
proof -
  have t: "trimSuffixByte (r @ [c]) CR = r @ [c]" "r @ [c] \<noteq> ''s/.//''"
    using assms(2) by (auto simp: trimSuffixByte_def hasSuffixByte_def isEdOp_def append_eq_Cons_conv)
  have l: "(if m2 \<noteq> [] then Atoi m2 else f) = l"
    "(if m1 \<noteq> [] then Atoi m1 else edCurrent st) = f" "\<not> (f < 0 \<or> l < f)"
    using assms by auto
  show ?thesis
    unfolding edCommand_def Let_def t(1) edCommandRE_range [OF assms(1,2)] option.case prod.case l(2) l(1)
      if_not_P [OF t(2)] if_not_P [OF l(3)] by (rule refl)
qed

text \<open>What the output of one group does to a buffer that holds the old lines of the group.\<close>

lemma edGroup_ok:
  assumes g: "a0 g = int (length pre)" "a1 g = int (length pre + length old)"
      "goSlice (sideLines sb) (b0 g) (b1 g) = Some new" "b1 g - b0 g = int (length new)" "old \<noteq> [] \<or> new \<noteq> []"
    and st: "edPlain st" "edLines st = pre @ old @ suf"
    and b: "list_all textLine new" "int (length (edLines st)) \<le> maxInt"
  shows "\<exists>out. emitEdGroup sb g = Some out \<and>
    (\<forall>rest. \<exists>st'. edLoop [] (out @ rest) st = edLoop [] rest st' \<and> edPlain st' \<and> edLines st' = pre @ new @ suf)"
proof -
  have d: "a1 g - a0 g = int (length old)" using g by simp
  have mk: "edPlain (edMk ls k)" "edLines (edMk ls k) = ls" for ls k by (simp_all add: edMk_def edPlain_def)
  note cmd = edCommand_addr
  have small: "0 < length old \<Longrightarrow> int (length pre + length old) \<le> maxInt" using st(2) b(2) by simp
  consider (c) "old \<noteq> []" "new \<noteq> []" | (d) "old \<noteq> []" "new = []" | (a) "old = []" "new \<noteq> []" using g(5) by blast
  then show ?thesis
  proof cases
    case c
    let ?r = "normalRange (int (length pre)) (int (length old))"
    obtain m1 m2 where m: "rangeRe (?r @ [CHR ''c'']) = Some (m1, m2, [CHR ''c''])" "m1 \<noteq> []"
      "Atoi m1 = int (length pre) + 1" "(if m2 \<noteq> [] then Atoi m2 else Atoi m1) = int (length pre + length old)"
      using rangeRe_normalRange [of "length old" "CHR ''c''" "length pre" "[]"] c small by (auto simp: isDigit_not readsRange_def)
    have pos: "Suc 0 \<le> length old" using c(1) by (cases old) auto
    have "\<exists>st'. edLoop [] (((?r @ ''c'') # emitEdBlock new) @ rest) st = edLoop [] rest st' \<and> edPlain st' \<and>
        edLines st' = pre @ new @ suf" for rest
    proof -
      obtain body rest' where k: "edText (emitEdBlock_loop new True @ rest) = Some (body, rest')"
        "edLoop [] rest' (edMk (pre @ body @ suf) (length pre + length body)) =
         edLoop [] rest (edMk (pre @ new @ suf) (length pre + length new))"
        using edBlock_ok [OF b(1)] by blast
      have "edCommand [] (?r @ [CHR ''c'']) (emitEdBlock_loop new True @ rest) st =
          Some (Inr (edMk (pre @ body @ suf) (length pre + length body), rest'))"
        using cmd [OF m(1) _ m(2-4), of "emitEdBlock_loop new True @ rest"] c edChange_at [OF st c(1), of body] k(1) pos
        by (simp add: isEdOp_def)
      then show ?thesis using k(2) mk by (simp add: emitEdBlock_def) blast
    qed
    moreover have "emitEdGroup sb g = Some ((?r @ ''c'') # emitEdBlock new)"
      using g c d by (simp add: emitEdGroup_def Let_def)
    ultimately show ?thesis by blast
  next
    case d
    let ?r = "normalRange (int (length pre)) (int (length old))"
    obtain m1 m2 where m: "rangeRe (?r @ [CHR ''d'']) = Some (m1, m2, [CHR ''d''])" "m1 \<noteq> []"
      "Atoi m1 = int (length pre) + 1" "(if m2 \<noteq> [] then Atoi m2 else Atoi m1) = int (length pre + length old)"
      using rangeRe_normalRange [of "length old" "CHR ''d''" "length pre" "[]"] d small by (auto simp: isDigit_not readsRange_def)
    obtain st' where s: "edExec [] (int (length pre) + 1) (int (length pre + length old)) CHR ''d'' [] st = Some st'"
      "edPlain st'" "edLines st' = pre @ suf" using edDelete_at [OF st d(1)] by blast
    have pos: "Suc 0 \<le> length old" using d(1) by (cases old) auto
    have "edCommand [] (?r @ [CHR ''d'']) rest st = Some (Inr (st', rest))" for rest
      using cmd [OF m(1) _ m(2-4), of rest] d s(1) pos by (simp add: isEdOp_def)
    then have "\<exists>st'. edLoop [] ([?r @ ''d''] @ rest) st = edLoop [] rest st' \<and> edPlain st' \<and>
        edLines st' = pre @ new @ suf" for rest using s d(2) by (intro exI [of _ st']) simp
    moreover have "emitEdGroup sb g = Some [?r @ ''d'']"
      using g d \<open>a1 g - a0 g = int (length old)\<close> by (simp add: emitEdGroup_def Let_def)
    ultimately show ?thesis by blast
  next
    case a
    let ?r = "itoaNat (length pre)"
    have m: "rangeRe (?r @ [CHR ''a'']) = Some (?r, [], [CHR ''a''])" using rangeRe_one [of "CHR ''a''" "length pre" "[]"]
      by (simp add: isDigit_not)
    have at: "Atoi ?r = int (length pre)" using Atoi_itoaNat st(2) b(2) by simp
    have "\<exists>st'. edLoop [] (((?r @ ''a'') # emitEdBlock new) @ rest) st = edLoop [] rest st' \<and> edPlain st' \<and>
        edLines st' = pre @ new @ suf" for rest
    proof -
      obtain body rest' where k: "edText (emitEdBlock_loop new True @ rest) = Some (body, rest')"
        "edLoop [] rest' (edMk (pre @ body @ suf) (length pre + length body)) =
         edLoop [] rest (edMk (pre @ new @ suf) (length pre + length new))"
        using edBlock_ok [OF b(1)] by blast
      have "edCommand [] (?r @ [CHR ''a'']) (emitEdBlock_loop new True @ rest) st =
          Some (Inr (edMk (pre @ body @ suf) (length pre + length body), rest'))"
        using cmd [OF m _ _ at, of "int (length pre)" "emitEdBlock_loop new True @ rest"] at a
          edAppend_at [OF st(1), of pre suf "int (length pre)" body] st(2) k(1) by (simp add: isEdOp_def)
      then show ?thesis using k(2) mk by (simp add: emitEdBlock_def) blast
    qed
    moreover have "emitEdGroup sb g = Some ((?r @ ''a'') # emitEdBlock new)"
      using g a by (simp add: emitEdGroup_def Let_def)
    ultimately show ?thesis by blast
  qed
qed

section \<open>The whole script\<close>

lemma seqOut_snoc: "seqOut (outs @ [r]) = (case (seqOut outs, r) of (Some x, Some y) \<Rightarrow> Some (x @ y) | _ \<Rightarrow> None)"
  by (induction outs rule: seqOut.induct) (auto split: option.splits)

lemma emitEd_Cons: "emitEd sb gs = Some outs \<Longrightarrow> emitEdGroup sb g = Some out \<Longrightarrow> emitEd sb (g # gs) = Some (outs @ out)"
  by (simp add: emitEd_def seqOut_snoc)

lemma emitEd_ok:
  assumes "script xs (sideLines sb) i j gs" "list_all textLine (sideLines sb)"
    "int (length xs + length (sideLines sb)) \<le> maxInt"
  shows "\<exists>outs. emitEd sb gs = Some outs \<and>
    (\<forall>rest st. edPlain st \<longrightarrow> edLines st = xs \<longrightarrow> (\<exists>st'. edLoop [] (outs @ rest) st = edLoop [] rest st' \<and>
       edPlain st' \<and> edLines st' = take i xs @ drop j (sideLines sb)))"
  using assms(1)
proof (induction gs arbitrary: i j rule: list.induct)
  case Nil
  then have "drop i xs = drop j (sideLines sb)" by (auto elim: script_NilE)
  then have "take i xs @ drop j (sideLines sb) = xs" by (metis append_take_drop_id)
  then show ?case by (auto simp: emitEd_def)
next
  case (Cons g gs)
  let ?ys = "sideLines sb"
  obtain k p q where h: "a0 g = int (i + k)" "b0 g = int (j + k)" "a1 g = int p" "b1 g = int q"
    "i + k \<le> p" "j + k \<le> q" "i + k < p \<or> j + k < q" "p \<le> length xs" "q \<le> length ?ys"
    "take k (drop i xs) = take k (drop j ?ys)" "script xs ?ys p q gs"
    using script_ConsE [OF Cons.prems] by blast
  obtain outs where o: "emitEd sb gs = Some outs"
    "\<forall>rest st. edPlain st \<longrightarrow> edLines st = xs \<longrightarrow> (\<exists>st'. edLoop [] (outs @ rest) st = edLoop [] rest st' \<and>
       edPlain st' \<and> edLines st' = take p xs @ drop q ?ys)"
    using Cons.IH [OF h(11)] by blast
  define pre old new where "pre = take (i + k) xs" and "old = take (p - (i + k)) (drop (i + k) xs)"
    and "new = take (q - (j + k)) (drop (j + k) ?ys)"
  have len: "length pre = i + k" "length old = p - (i + k)" "length new = q - (j + k)"
    using h by (simp_all add: pre_def old_def new_def)
  have split: "take p xs = pre @ old"
    using take_add [of "i + k" "p - (i + k)" xs] h(5) by (simp add: pre_def old_def)
  have fin: "pre @ new @ drop q ?ys = take i xs @ drop j ?ys"
  proof -
    have "new @ drop q ?ys = drop (j + k) ?ys"
      using append_take_drop_id [of "q - (j + k)" "drop (j + k) ?ys"] h(6) by (simp add: new_def)
    moreover have "pre = take i xs @ take k (drop j ?ys)" using h(10) by (simp add: pre_def take_add)
    ultimately show ?thesis using append_take_drop_id [of k "drop j ?ys"] by (simp add: add.commute)
  qed
  have grp: "a0 g = int (length pre)" "a1 g = int (length pre + length old)" "goSlice ?ys (b0 g) (b1 g) = Some new"
    "b1 g - b0 g = int (length new)" "old \<noteq> [] \<or> new \<noteq> []" "list_all textLine new"
  proof -
    show "goSlice ?ys (b0 g) (b1 g) = Some new" using h by (simp add: goSlice_def new_def nat_add_distrib)
    show "old \<noteq> [] \<or> new \<noteq> []" using len h(7) by fastforce
    show "list_all textLine new" using assms(2) by (auto simp: new_def list_all_iff dest: in_set_takeD in_set_dropD)
  qed (use h len in auto)
  have bound: "int (length (take p xs @ drop q ?ys)) \<le> maxInt" using assms(3) h by simp
  have step: "\<exists>out. emitEdGroup sb g = Some out \<and>
      (\<forall>rest. \<exists>st'. edLoop [] (out @ rest) st = edLoop [] rest st' \<and> edPlain st' \<and> edLines st' = pre @ new @ drop q ?ys)"
    if "edPlain st" "edLines st = take p xs @ drop q ?ys" for st
    using edGroup_ok [OF grp(1-5) that(1) _ grp(6)] that(2) bound split by simp
  obtain out where out: "emitEdGroup sb g = Some out"
    using step [of "edMk (take p xs @ drop q ?ys) 0"] by (auto simp: edMk_def edPlain_def)
  have "\<exists>st'. edLoop [] ((outs @ out) @ rest) st = edLoop [] rest st' \<and> edPlain st' \<and> edLines st' = take i xs @ drop j ?ys"
    if st: "edPlain st" "edLines st = xs" for rest st
  proof -
    obtain s where s: "edLoop [] (outs @ out @ rest) st = edLoop [] (out @ rest) s" "edPlain s" "edLines s = take p xs @ drop q ?ys"
      using o(2) st by blast
    obtain s' where "edLoop [] (out @ rest) s = edLoop [] rest s'" "edPlain s'" "edLines s' = pre @ new @ drop q ?ys"
      using step [OF s(2,3)] out by auto
    then show ?thesis using s(1) fin by auto
  qed
  then show ?case using emitEd_Cons [OF o(1) out] by blast
qed

section \<open>The lines of a script\<close>

lemma rangeRe_digit: "rangeRe s = Some r \<Longrightarrow> s \<noteq> [] \<and> isDigit (hd s)"
  by (cases s) (auto simp: rangeRe_def digits1_def Let_def split: if_splits option.splits)

lemma noNL_block: "\<forall>l \<in> set ls. NL \<notin> set l \<Longrightarrow> l \<in> set (emitEdBlock_loop ls b) \<Longrightarrow> NL \<notin> set l"
  by (induction ls b rule: emitEdBlock_loop.induct) (auto split: if_splits)

lemma emitEdGroup_lines:
  assumes "emitEdGroup sb g = Some out" "groupIn n (length (sideLines sb)) g" "\<forall>l \<in> set (sideLines sb). NL \<notin> set l"
    "int n \<le> maxInt"
  shows "(\<forall>l \<in> set out. NL \<notin> set l) \<and> (\<exists>r c m1 m2 ls. out = (r @ [c]) # ls \<and> rangeRe (r @ [c]) = Some (m1, m2, [c]) \<and> isEdOp c)"
proof -
  let ?da = "a1 g - a0 g"
  have g: "0 \<le> a0 g" "0 \<le> ?da" "a1 g \<le> int n" using assms(2) by (auto simp: groupIn_def)
  have sl: "\<forall>l \<in> set new. NL \<notin> set l" if "goSlice (sideLines sb) (b0 g) (b1 g) = Some new" for new
    using that assms(3) by (auto simp: goSlice_def split: if_splits dest: in_set_takeD in_set_dropD)
  have "\<forall>l \<in> set out. NL \<notin> set l"
    using assms(1) g sl normalRange_noNL [of "a0 g" ?da] noNL_block [of _ _ True]
    by (fastforce simp: emitEdGroup_def Let_def emitEdBlock_def itoaNat_no isDigit_not split: if_splits option.splits)
  moreover have rng: "\<exists>m1 m2. rangeRe (normalRange (a0 g) ?da @ [c]) = Some (m1, m2, [c])"
    if "0 < ?da" "\<not> isDigit c" "c \<noteq> CHR '',''" for c
  proof -
    have "int (nat (a0 g)) = a0 g" "int (nat ?da) = ?da" "int (nat (a0 g) + nat ?da) \<le> maxInt" "0 < nat ?da"
      using g that(1) assms(4) by auto
    then show ?thesis using rangeRe_normalRange [of "nat ?da" c "nat (a0 g)" "[]"] that(2,3) by auto
  qed
  have "\<exists>r c m1 m2 ls. out = (r @ [c]) # ls \<and> rangeRe (r @ [c]) = Some (m1, m2, [c]) \<and> isEdOp c"
  proof (cases "0 < ?da")
    case True
    then have "(\<exists>ls. out = (normalRange (a0 g) ?da @ [CHR ''c'']) # ls) \<or> (\<exists>ls. out = (normalRange (a0 g) ?da @ [CHR ''d'']) # ls)"
      using assms(1) by (auto simp: emitEdGroup_def Let_def split: if_splits option.splits)
    then show ?thesis using rng [OF True, of "CHR ''c''"] rng [OF True, of "CHR ''d''"]
      by (elim disjE exE) (auto simp: isEdOp_def isDigit_not)
  next
    case False
    then have "\<exists>ls. out = (itoaNat (nat (a0 g)) @ [CHR ''a'']) # ls"
      using assms(1) g by (auto simp: emitEdGroup_def Let_def split: if_splits option.splits)
    then show ?thesis using rangeRe_one [of "CHR ''a''" "nat (a0 g)" "[]"] by (auto simp: isEdOp_def isDigit_not)
  qed
  ultimately show ?thesis by blast
qed

lemma emitEd_lines:
  assumes "emitEd sb gs = Some outs" "gs \<noteq> []" "\<forall>g \<in> set gs. groupIn n (length (sideLines sb)) g"
    "\<forall>l \<in> set (sideLines sb). NL \<notin> set l" "int n \<le> maxInt"
  shows "(\<forall>l \<in> set outs. NL \<notin> set l) \<and> (\<exists>r c m1 m2 ls. outs = (r @ [c]) # ls \<and> rangeRe (r @ [c]) = Some (m1, m2, [c]) \<and> isEdOp c)"
  using assms(1-3)
proof (induction gs arbitrary: outs rule: list.induct)
  case (Cons g gs)
  obtain o1 o2 where o: "emitEd sb gs = Some o1" "emitEdGroup sb g = Some o2" "outs = o1 @ o2"
    using Cons.prems(1) by (auto simp: emitEd_def seqOut_snoc split: option.splits)
  note g = emitEdGroup_lines [OF o(2) _ assms(4,5)]
  show ?case
  proof (cases gs)
    case Nil
    then show ?thesis using g Cons.prems(3) o by (auto simp: emitEd_def)
  next
    case (Cons h hs)
    then have "(\<forall>l \<in> set o1. NL \<notin> set l) \<and> (\<exists>r c m1 m2 ls. o1 = (r @ [c]) # ls \<and> rangeRe (r @ [c]) = Some (m1, m2, [c]) \<and> isEdOp c)"
      using Cons.IH [OF o(1)] Cons.prems(3) by simp
    then show ?thesis using g Cons.prems(3) o(3) by auto
  qed
qed simp

text \<open>\<open>patch\<close> takes such an output for an ed script.\<close>

lemma ExtractEdScript_script:
  assumes "\<forall>l \<in> set outs. NL \<notin> set l" "outs = (r @ [c]) # ls" "rangeRe (r @ [c]) = Some (m1, m2, [c])" "isEdOp c"
  shows "ExtractEdScript (unlines outs) = (unlines outs, [], True)"
proof -
  let ?h = "r @ [c]"
  have h: "isDigit (hd ?h)" "?h \<noteq> []" using rangeRe_digit [OF assms(3)] by auto
  obtain d h' where dh: "?h = d # h'" "isDigit d" using h by (cases ?h) auto
  have trim: "trimSuffixByte ?h CR = ?h" using assms(4) by (auto simp: trimSuffixByte_def hasSuffixByte_def isEdOp_def)
  have ne: "d \<noteq> SP" "d \<noteq> TAB" "d \<noteq> CHR ''I''" "d \<noteq> CHR ''-''" "d \<noteq> CHR ''+''" "d \<noteq> CHR ''*''" "d \<noteq> CHR ''@''"
    using dh(2) by (auto simp: isDigit_def)
  have left: "trimLeft ?h [SP, TAB] = ?h" using ne by (simp add: dh(1) trimLeft_def)
  have idx: "\<not> hasPrefix ?h ''Index:''" using ne by (simp add: dh(1) hasPrefix_Cons)
  have "normalHunkRe ?h = None" using assms(3) by (simp add: normalHunkRe_def rangeRe_def digits1_def)
  then have listing: "\<not> looksLikeDiffListing ?h"
    using ne by (simp add: looksLikeDiffListing_def dh(1) hasPrefix_Cons normalDiffCommandRE_def)
  have start: "edScriptStartRE ?h" using assms(3,4) by (simp add: edScriptStartRE_def)
  have "splitByte NL (unlines outs) = outs @ [[]]" using splitByte_unlines assms(1) by blast
  moreover have "joinByte NL (outs @ [[]]) = unlines outs"
    using \<open>splitByte NL (unlines outs) = outs @ [[]]\<close> joinByte_splitByte by metis
  ultimately show ?thesis
    unfolding ExtractEdScript_def assms(2)
    by (simp add: Let_def trim left idx listing start unindent_def)
qed

section \<open>\<open>diff -e\<close> and \<open>patch\<close>\<close>

definition edOptions :: "diffOptions \<Rightarrow> bool" where
  "edOptions opts \<longleftrightarrow> oEdStyle opts \<and> \<not> oBrief opts \<and> plainOptions opts"

lemma bytesToLines_split: "bytesToLines d = splitFileLines d"
  by (simp add: bytesToLines_def splitFileLines_def Let_def)

lemma linesToBytes_join: "linesToBytes ls e = joinFileLines ls e"
  by (induction ls e rule: joinFileLines.induct) (auto simp: linesToBytes_def)

lemma splitByte_script:
  assumes "outs \<noteq> []" "\<forall>l \<in> set outs. NL \<notin> set l"
  shows "splitByte NL (trimSuffixByte (unlines outs) NL) = outs"
proof -
  have "trimSuffixByte (unlines outs) NL = joinByte NL outs"
    using unlines_joinByte [OF assms(1)] by (metis butlast_snoc hasSuffixByte_conv trimSuffixByte_def)
  then show ?thesis using splitByte_joinByte assms by simp
qed

lemma compareText_ed:
  assumes "edOptions opts" "textData (ldData la)" "textData (ldData lb)" "ldData la \<noteq> ldData lb"
    "endsInNewline (ldData la)" "endsInNewline (ldData lb)"
  shows "\<exists>out. compareText opts la lb False = Some (out, [], 1) \<and> ExtractEdScript out = (out, [], True) \<and>
    ApplyEd (ldData la) out = Some (Inr (ldData lb, None))"
proof -
  have o: "plainOptions opts" "oEdStyle opts" "\<not> oBrief opts" using assms(1) by (auto simp: edOptions_def)
  obtain sa m sb m' gs where a: "prep la opts [] = (sa, m)" and b: "prep lb opts m = (sb, m')"
    and gs: "diffGroups (sideKeys sa) (sideKeys sb) = Some gs" "gs \<noteq> []" and sc: "script (flagged sa) (flagged sb) 0 0 gs"
    and split: "splitFileLines (ldData la) = (sideLines sa, sideNoEOL sa)" "splitFileLines (ldData lb) = (sideLines sb, sideNoEOL sb)"
    and ts: "textSide sa" "textSide sb"
    by (rule plain_sides [OF o(1) assms(2-4)])
  have eol: "\<not> sideNoEOL sa" "\<not> sideNoEOL sb" using assms(5,6) split by (auto simp: endsInNewline_def)
  have lines: "script (sideLines sa) (sideLines sb) 0 0 gs"
    by (rule script_map [OF sc]) (simp_all add: flagged_nth)
  have tl: "list_all textLine (sideLines sb)" "\<forall>l \<in> set (sideLines sb). NL \<notin> set l"
    using ts(2) by (auto simp: textSide_def list_all_iff textLine_def)
  have size: "int (length (sideLines sa) + length (sideLines sb)) \<le> maxInt" using ts by (simp add: textSide_def)
  obtain outs where outs: "emitEd sb gs = Some outs"
    "\<forall>rest st. edPlain st \<longrightarrow> edLines st = sideLines sa \<longrightarrow> (\<exists>st'. edLoop [] (outs @ rest) st = edLoop [] rest st' \<and>
       edPlain st' \<and> edLines st' = sideLines sb)"
    using emitEd_ok [OF lines tl(1) size] by auto
  have grp: "\<forall>g \<in> set gs. groupIn (length (sideLines sa)) (length (sideLines sb)) g" using script_groupIn [OF lines] by auto
  have "int (length (sideLines sa)) \<le> maxInt" using size by simp
  then obtain r c m1 m2 ls where l: "\<forall>l \<in> set outs. NL \<notin> set l" "outs = (r @ [c]) # ls"
    "rangeRe (r @ [c]) = Some (m1, m2, [c])" "isEdOp c"
    using emitEd_lines [OF outs(1) gs(2) grp tl(2)] by blast
  let ?st = "\<lparr>edLines = sideLines sa, edNoEOL = False, edCurrent = 0, edRejects = [], edApplied = False\<rparr>"
  obtain st' where st': "edLoop [] (outs @ []) ?st = edLoop [] [] st'" "edPlain st'" "edLines st' = sideLines sb"
    using outs(2) by (metis edPlain_def edState.select_convs(1,2,4))
  have "unlines outs \<noteq> []" using l(2) by simp
  then have "ApplyEd (ldData la) (unlines outs) = Some (Inr (joinFileLines (sideLines sb) False, None))"
    using st' eol splitByte_script [OF _ l(1)] l(2)
    by (simp add: ApplyEd_def applyEd_def bytesToLines_split split linesToBytes_join edPlain_def del: edLoop.simps(2))
  moreover have "joinFileLines (sideLines sb) False = ldData lb"
    using join_split_file [of "ldData lb"] split(2) eol(2) by simp
  moreover have "compareText opts la lb False = Some (unlines outs, [], 1)"
    using a b gs o outs(1) eol by (simp add: compareText_def emitStyle_def Let_def noEOLMsg_def)
  ultimately show ?thesis using ExtractEdScript_script [OF l] by auto
qed

lemma compareText_ed_patches:
  assumes "edOptions opts" "textData (ldData la)" "textData (ldData lb)" "ldData la \<noteq> ldData lb"
    "endsInNewline (ldData la)" "endsInNewline (ldData lb)"
  shows "\<exists>out. compareText opts la lb False = Some (out, [], 1) \<and> patches out (ldData la) (ldData lb)"
proof -
  obtain out where out: "compareText opts la lb False = Some (out, [], 1)" "ExtractEdScript out = (out, [], True)"
    "ApplyEd (ldData la) out = Some (Inr (ldData lb, None))"
    using compareText_ed [OF assms] by blast
  then show ?thesis using runCore_ed [OF _ _ out(2,3)] unfolding patches_def by blast
qed

text \<open>C3: For two different text files that end in a newline (or are empty), \<open>diff -e\<close>
  prints a script that \<open>patch\<close> takes for an ed script; run on the old file it exits with status \<open>0\<close> and leaves the
  new file in its place.\<close>

theorem diff_ed_roundtrip:
  assumes "loadSide env (envIn env) opts a = (Inr la, inp)" "loadSide env inp opts b = (Inr lb, inp')"
    "edOptions opts" "textData (ldData la)" "textData (ldData lb)" "ldData la \<noteq> ldData lb"
    "endsInNewline (ldData la)" "endsInNewline (ldData lb)"
    "patchable ctx f fs fn (ldData la) m" "plainFlags f" "\<not> fReverse f"
  shows "\<exists>out st'. compareFiles env opts a b False = Some (out, [], 1) \<and>
    runCore ctx f [fn] (Inr out) (startState fs tty) = Some (0, st') \<and>
    psFiles st' = patchedFiles ctx f fs fn (ldData la) (ldData lb) m"
proof -
  obtain out where "compareText opts la lb False = Some (out, [], 1)" "patches out (ldData la) (ldData lb)"
    using compareText_ed_patches [OF assms(3-8)] by blast
  then show ?thesis using compareFiles_text [OF assms(1,2,4-6), of False] assms(9-11) unfolding patches_def by auto
qed

definition demoEd :: diffOptions where
  "demoEd = defaultOptions\<lparr>oEdStyle := True\<rparr>"

theorem diff_ed_roundtrip_witness:
  "\<exists>out st'. compareFiles demoEnv demoEd ''a'' ''b'' False = Some (out, [], 1) \<and>
    runCore demoCtx defaultFlags [''f''] (Inr out) (startState demoFiles []) = Some (0, st') \<and>
    psFiles st' = patchedFiles demoCtx defaultFlags demoFiles ''f'' (unlines [''x'', ''y'']) (unlines [''x'', ''z'']) 0x1A4"
proof -
  have "loadSide demoEnv (envIn demoEnv) demoEd ''a'' = (Inr (demoSide ''a'' [''x'', ''y'']), Inr [])"
    "loadSide demoEnv (Inr []) demoEd ''b'' = (Inr (demoSide ''b'' [''x'', ''z'']), Inr [])"
    "edOptions demoEd" "textData (ldData (demoSide ''a'' [''x'', ''y'']))" "textData (ldData (demoSide ''b'' [''x'', ''z'']))"
    "ldData (demoSide ''a'' [''x'', ''y'']) \<noteq> ldData (demoSide ''b'' [''x'', ''z''])"
    "endsInNewline (ldData (demoSide ''a'' [''x'', ''y'']))" "endsInNewline (ldData (demoSide ''b'' [''x'', ''z'']))"
    by code_simp+
  moreover have "\<not> fReverse defaultFlags" by (simp add: defaultFlags_def)
  ultimately show ?thesis
    using diff_ed_roundtrip [of demoEnv demoEd "''a''" "demoSide ''a'' [''x'', ''y'']" "Inr []" "''b''" "demoSide ''b'' [''x'', ''z'']"
        "Inr []" demoCtx defaultFlags demoFiles "''f''" "0x1A4" "[]"] demo_patchable by (simp add: demoSide_def)
qed

end
