(* ===== verification/Notation_Normal.thy ===== *)
theory Notation_Normal
  imports Patch_Notation
begin

text \<open>
  The normal notation: what \<open>emitNormal\<close> of \<open>src/cmds/diff/diff.go\<close> prints for hunks without context is
  read back by \<open>parseNormalFile\<close> of \<open>src/pkg/patch/parse.go\<close>, as long as no line lacks its newline.
\<close>

section \<open>Printing\<close>

definition delLine :: "string \<Rightarrow> HunkLine" where
  "delLine t = \<lparr>Kind = LineDelete, Text = t, NoEOL = False\<rparr>"

definition addLine :: "string \<Rightarrow> HunkLine" where
  "addLine t = \<lparr>Kind = LineAdd, Text = t, NoEOL = False\<rparr>"

definition printNormalHead :: "Hunk \<Rightarrow> string" where
  "printNormalHead h =
     (if OldCount h > 0 \<and> NewCount h > 0
      then normalRange (OldStart h) (OldCount h) @ ''c'' @ normalRange (NewStart h) (NewCount h)
      else if OldCount h > 0 then normalRange (OldStart h) (OldCount h) @ ''d'' @ Itoa (NewStart h)
      else Itoa (OldStart h) @ ''a'' @ normalRange (NewStart h) (NewCount h))"

definition printNormalHunk :: "Hunk \<Rightarrow> string list" where
  "printNormalHunk h =
     printNormalHead h # map (\<lambda>t. ''< '' @ t) (oldSeq (Lines h)) @
     (if OldCount h > 0 \<and> NewCount h > 0 then [''---''] else []) @ map (\<lambda>t. ''> '' @ t) (newSeq (Lines h))"

definition printNormal :: "Hunk list \<Rightarrow> string list" where
  "printNormal hs = concat (map printNormalHunk hs)"

text \<open>Deletions before additions, every line with its newline.\<close>

definition normalShape :: "Hunk \<Rightarrow> bool" where
  "normalShape h \<longleftrightarrow> Lines h = map delLine (oldSeq (Lines h)) @ map addLine (newSeq (Lines h)) \<and> Lines h \<noteq> []"

definition printableNormal :: "Hunk list \<Rightarrow> bool" where
  "printableNormal hs \<longleftrightarrow> hs \<noteq> [] \<and> list_all (\<lambda>h. normalShape h \<and> smallHunk h \<and> textHunk h) hs"

section \<open>Reading a hunk back\<close>

lemma consumeFixed_print:
  assumes "pfx = ''< '' \<or> pfx = ''> ''"
  shows "consumeFixedMarked (map rawOf (map (\<lambda>t. pfx @ t) ts) @ rest) pfx (int (length out + length ts)) out =
    Inr (out @ map (\<lambda>t. \<lparr>mark = [], mText = t, mNoEOL = False\<rparr>) ts, rest)"
proof (induction ts arbitrary: out)
  case Nil
  then show ?case by (cases rest) auto
next
  case (Cons t ts)
  have "consumeFixedMarked (map rawOf (map (\<lambda>t. pfx @ t) (t # ts)) @ rest) pfx (int (length out + length (t # ts))) out =
      consumeFixedMarked (map rawOf (map (\<lambda>t. pfx @ t) ts) @ rest) pfx
        (int (length (out @ [\<lparr>mark = [], mText = t, mNoEOL = False\<rparr>]) + length ts)) (out @ [\<lparr>mark = [], mText = t, mNoEOL = False\<rparr>])"
    using assms by (auto simp: startsWith_def Let_def hasPrefix_Cons)
  then show ?case using Cons.IH [of "out @ [\<lparr>mark = [], mText = t, mNoEOL = False\<rparr>]"] by simp
qed

lemma consumeFixed_all:
  "consumeFixedMarked (map rawOf (map (\<lambda>t. ''< '' @ t) ts) @ rest) ''< '' (int (length ts)) [] =
    Inr (map (\<lambda>t. \<lparr>mark = [], mText = t, mNoEOL = False\<rparr>) ts, rest)"
  "consumeFixedMarked (map rawOf (map (\<lambda>t. ''> '' @ t) ts) @ rest) ''> '' (int (length ts)) [] =
    Inr (map (\<lambda>t. \<lparr>mark = [], mText = t, mNoEOL = False\<rparr>) ts, rest)"
  using consumeFixed_print [of "''< ''" ts rest "[]"] consumeFixed_print [of "''> ''" ts rest "[]"] by simp_all

lemma asLine_plain: "map (asLine LineDelete \<circ> (\<lambda>t. \<lparr>mark = [], mText = t, mNoEOL = False\<rparr>)) ts = map delLine ts"
  "map (asLine LineAdd \<circ> (\<lambda>t. \<lparr>mark = [], mText = t, mNoEOL = False\<rparr>)) ts = map addLine ts"
  by (simp_all add: asLine_def delLine_def addLine_def)

lemma normalShape_facts:
  assumes "normalShape h" "smallHunk h"
  shows "0 \<le> OldStart h" "0 \<le> NewStart h" "OldStart h + OldCount h \<le> maxInt" "NewStart h + NewCount h \<le> maxInt"
    "OldCount h = int (length (oldSeq (Lines h)))" "NewCount h = int (length (newSeq (Lines h)))"
    "int (nat (OldStart h)) = OldStart h" "int (nat (NewStart h)) = NewStart h"
    "h = \<lparr>OldStart = OldStart h, OldCount = int (length (oldSeq (Lines h))), NewStart = NewStart h,
       NewCount = int (length (newSeq (Lines h))),
       Lines = map delLine (oldSeq (Lines h)) @ map addLine (newSeq (Lines h))\<rparr>"
    "Atoi (itoaNat (nat (OldStart h))) = OldStart h" "Atoi (itoaNat (nat (NewStart h))) = NewStart h"
proof -
  show s: "0 \<le> OldStart h" "0 \<le> NewStart h" "OldStart h + OldCount h \<le> maxInt" "NewStart h + NewCount h \<le> maxInt"
    using smallHunk_sum [OF assms(2)] assms(2) by (auto simp: smallHunk_def)
  show c: "OldCount h = int (length (oldSeq (Lines h)))" "NewCount h = int (length (newSeq (Lines h)))"
    using assms(2) by (auto simp: smallHunk_def wfHunk_def)
  show "int (nat (OldStart h)) = OldStart h" "int (nat (NewStart h)) = NewStart h" using s by simp_all
  have "Lines h = map delLine (oldSeq (Lines h)) @ map addLine (newSeq (Lines h))"
    using assms(1) by (simp add: normalShape_def)
  then show "h = \<lparr>OldStart = OldStart h, OldCount = int (length (oldSeq (Lines h))), NewStart = NewStart h,
      NewCount = int (length (newSeq (Lines h))),
      Lines = map delLine (oldSeq (Lines h)) @ map addLine (newSeq (Lines h))\<rparr>" using c by simp
  show "Atoi (itoaNat (nat (OldStart h))) = OldStart h" "Atoi (itoaNat (nat (NewStart h))) = NewStart h"
    using Atoi_itoaNat [of "nat (OldStart h)"] Atoi_itoaNat [of "nat (NewStart h)"] s c by auto
qed

lemma normalChange_print:
  assumes "normalShape h" "smallHunk h" and ne: "oldSeq (Lines h) \<noteq> []" "newSeq (Lines h) \<noteq> []"
  shows "\<exists>m. normalHunkRe (printNormalHead h) = Some m \<and>
    normalHunk m (map rawOf (tl (printNormalHunk h)) @ rest) = Inr (h, rest)"
proof -
  note f = normalShape_facts [OF assms(1,2)]
  obtain m4 m5 where n: "rangeRe (normalRange (NewStart h) (int (length (newSeq (Lines h))))) = Some (m4, m5, [])" "readsRange (nat (NewStart h)) (length (newSeq (Lines h))) m4 m5"
    using rangeRe_normalRange_end [of "length (newSeq (Lines h))" "nat (NewStart h)"] ne(2) f(4,6,8) by auto
  let ?s = "normalRange (NewStart h) (int (length (newSeq (Lines h))))"
  obtain m1 m2 where o: "rangeRe (normalRange (OldStart h) (int (length (oldSeq (Lines h)))) @ CHR ''c'' # ?s) = Some (m1, m2, CHR ''c'' # ?s)"
    "readsRange (nat (OldStart h)) (length (oldSeq (Lines h))) m1 m2"
    using rangeRe_normalRange [of "length (oldSeq (Lines h))" "CHR ''c''" "nat (OldStart h)" ?s] ne(1) f(3,5,7) by (auto simp: isDigit_not)
  have "printNormalHead h = normalRange (OldStart h) (int (length (oldSeq (Lines h)))) @ CHR ''c'' # ?s"
    using ne f(5,6) by (simp add: printNormalHead_def)
  then have re: "normalHunkRe (printNormalHead h) = Some (m1, m2, CHR ''c'', m4, m5)"
    using o(1) n(1) by (simp add: normalHunkRe_def)
  have tl: "map rawOf (tl (printNormalHunk h)) @ rest =
      map rawOf (map (\<lambda>t. ''< '' @ t) (oldSeq (Lines h))) @ rawOf ''---'' # map rawOf (map (\<lambda>t. ''> '' @ t) (newSeq (Lines h))) @ rest"
    using ne f(5,6) by (simp add: printNormalHunk_def)
  have "normalHunk (m1, m2, CHR ''c'', m4, m5) (map rawOf (tl (printNormalHunk h)) @ rest) =
      normalChange (Atoi m1) (int (length (oldSeq (Lines h)))) (Atoi m4) (int (length (newSeq (Lines h)))) (map rawOf (tl (printNormalHunk h)) @ rest)"
    using o(2) n(2) unfolding normalHunk_def readsRange_def Let_def by simp
  also have "\<dots> = Inr (\<lparr>OldStart = OldStart h, OldCount = int (length (oldSeq (Lines h))), NewStart = NewStart h, NewCount = int (length (newSeq (Lines h))),
      Lines = map delLine (oldSeq (Lines h)) @ map addLine (newSeq (Lines h))\<rparr>, rest)"
    unfolding tl normalChange_def consumeFixed_all sum.case prod.case list.sel
    using o(2) n(2) f(7,8) by (simp add: asLine_plain readsRange_def)
  also have "\<dots> = Inr (h, rest)" by (simp only: f(9) [symmetric])
  finally show ?thesis using re by blast
qed

lemma normalDelete_print:
  assumes "normalShape h" "smallHunk h" and ne: "oldSeq (Lines h) \<noteq> []" "newSeq (Lines h) = []"
  shows "\<exists>m. normalHunkRe (printNormalHead h) = Some m \<and>
    normalHunk m (map rawOf (tl (printNormalHunk h)) @ rest) = Inr (h, rest)"
proof -
  note f = normalShape_facts [OF assms(1,2)]
  obtain m1 m2 where o: "rangeRe (normalRange (OldStart h) (int (length (oldSeq (Lines h)))) @ CHR ''d'' # itoaNat (nat (NewStart h))) = Some (m1, m2, CHR ''d'' # itoaNat (nat (NewStart h)))"
    "readsRange (nat (OldStart h)) (length (oldSeq (Lines h))) m1 m2"
    using rangeRe_normalRange [of "length (oldSeq (Lines h))" "CHR ''d''" "nat (OldStart h)" "itoaNat (nat (NewStart h))"] ne(1) f(3,5,7) by (auto simp: isDigit_not)
  have "printNormalHead h = normalRange (OldStart h) (int (length (oldSeq (Lines h)))) @ CHR ''d'' # itoaNat (nat (NewStart h))"
    using ne f(2,5,6) by (simp add: printNormalHead_def)
  then have re: "normalHunkRe (printNormalHead h) = Some (m1, m2, CHR ''d'', itoaNat (nat (NewStart h)), [])"
    using o(1) rangeRe_one_end by (simp add: normalHunkRe_def)
  have tl: "map rawOf (tl (printNormalHunk h)) @ rest = map rawOf (map (\<lambda>t. ''< '' @ t) (oldSeq (Lines h))) @ rest"
    using ne f(5,6) by (simp add: printNormalHunk_def)
  have "normalHunk (m1, m2, CHR ''d'', itoaNat (nat (NewStart h)), []) (map rawOf (tl (printNormalHunk h)) @ rest) =
      normalDelete (Atoi m1) (int (length (oldSeq (Lines h)))) (NewStart h) (map rawOf (tl (printNormalHunk h)) @ rest)"
    using o(2) f(11) unfolding normalHunk_def readsRange_def Let_def by simp
  also have "\<dots> = Inr (\<lparr>OldStart = OldStart h, OldCount = int (length (oldSeq (Lines h))), NewStart = NewStart h, NewCount = int (length (newSeq (Lines h))),
      Lines = map delLine (oldSeq (Lines h)) @ map addLine (newSeq (Lines h))\<rparr>, rest)"
    unfolding tl normalDelete_def consumeFixed_all using o(2) f(7,8) ne(2) by (simp add: asLine_plain readsRange_def)
  also have "\<dots> = Inr (h, rest)" by (simp only: f(9) [symmetric])
  finally show ?thesis using re by blast
qed

lemma normalAdd_print:
  assumes "normalShape h" "smallHunk h" and ne: "oldSeq (Lines h) = []" "newSeq (Lines h) \<noteq> []"
  shows "\<exists>m. normalHunkRe (printNormalHead h) = Some m \<and>
    normalHunk m (map rawOf (tl (printNormalHunk h)) @ rest) = Inr (h, rest)"
proof -
  note f = normalShape_facts [OF assms(1,2)]
  obtain m4 m5 where n: "rangeRe (normalRange (NewStart h) (int (length (newSeq (Lines h))))) = Some (m4, m5, [])" "readsRange (nat (NewStart h)) (length (newSeq (Lines h))) m4 m5"
    using rangeRe_normalRange_end [of "length (newSeq (Lines h))" "nat (NewStart h)"] ne(2) f(4,6,8) by auto
  let ?s = "normalRange (NewStart h) (int (length (newSeq (Lines h))))"
  have "printNormalHead h = itoaNat (nat (OldStart h)) @ CHR ''a'' # ?s" using ne f(1,5,6) by (simp add: printNormalHead_def)
  then have re: "normalHunkRe (printNormalHead h) = Some (itoaNat (nat (OldStart h)), [], CHR ''a'', m4, m5)"
    using rangeRe_one [of "CHR ''a''" "nat (OldStart h)" ?s] n(1) by (simp add: normalHunkRe_def isDigit_not)
  have tl: "map rawOf (tl (printNormalHunk h)) @ rest = map rawOf (map (\<lambda>t. ''> '' @ t) (newSeq (Lines h))) @ rest"
    using ne f(5,6) by (simp add: printNormalHunk_def)
  have "normalHunk (itoaNat (nat (OldStart h)), [], CHR ''a'', m4, m5) (map rawOf (tl (printNormalHunk h)) @ rest) =
      normalAdd (OldStart h) (Atoi m4) (int (length (newSeq (Lines h)))) (map rawOf (tl (printNormalHunk h)) @ rest)"
    using n(2) f(10) unfolding normalHunk_def readsRange_def Let_def by simp
  also have "\<dots> = Inr (\<lparr>OldStart = OldStart h, OldCount = int (length (oldSeq (Lines h))), NewStart = NewStart h, NewCount = int (length (newSeq (Lines h))),
      Lines = map delLine (oldSeq (Lines h)) @ map addLine (newSeq (Lines h))\<rparr>, rest)"
    unfolding tl normalAdd_def consumeFixed_all using n(2) f(7,8) ne(1) by (simp add: asLine_plain readsRange_def)
  also have "\<dots> = Inr (h, rest)" by (simp only: f(9) [symmetric])
  finally show ?thesis using re by blast
qed

lemma normalHunk_print:
  assumes "normalShape h" "smallHunk h"
  shows "\<exists>m. normalHunkRe (printNormalHead h) = Some m \<and>
    normalHunk m (map rawOf (tl (printNormalHunk h)) @ rest) = Inr (h, rest)"
proof -
  have "oldSeq (Lines h) \<noteq> [] \<or> newSeq (Lines h) \<noteq> []" using assms(1) by (auto simp: normalShape_def)
  then show ?thesis
    using normalChange_print [OF assms] normalDelete_print [OF assms] normalAdd_print [OF assms] by blast
qed

section \<open>A printed file is read back\<close>

lemma printNormalHunk_hd: "printNormalHunk h = printNormalHead h # tl (printNormalHunk h)"
  by (simp add: printNormalHunk_def)

lemma normalHunks_print:
  assumes "list_all (\<lambda>h. normalShape h \<and> smallHunk h) hs"
  shows "normalHunks (map rawOf (printNormal hs)) = Inr (hs, [])"
  using assms
proof (induction hs)
  case (Cons h hs)
  let ?more = "map rawOf (printNormal hs)"
  obtain m where m: "normalHunkRe (printNormalHead h) = Some m" "normalHunk m (map rawOf (tl (printNormalHunk h)) @ ?more) = Inr (h, ?more)"
    using normalHunk_print [of h ?more] Cons.prems by auto
  have "map rawOf (printNormal (h # hs)) = rawOf (printNormalHead h) # map rawOf (tl (printNormalHunk h)) @ ?more"
    by (subst printNormal_def, subst list.simps(9), subst concat.simps, subst printNormalHunk_hd) (simp add: printNormal_def)
  then show ?case using m Cons by simp
qed (simp add: printNormal_def)

lemma printNormalHead_text:
  assumes "smallHunk h" shows "textLine (printNormalHead h)" "\<exists>d s. printNormalHead h = d # s \<and> isDigit d"
proof -
  have s: "0 \<le> OldStart h" "0 \<le> NewStart h" "0 \<le> OldCount h" "0 \<le> NewCount h"
    using smallHunk_sum [OF assms] assms by (auto simp: smallHunk_def)
  have dig: "\<exists>d r. itoaNat n = d # r \<and> isDigit d" for n
    using itoaNat_digits [of "hd (itoaNat n)" n] by (cases "itoaNat n") auto
  have last: "\<not> hasSuffixByte (p @ itoaNat n) CR" "\<not> hasSuffixByte (itoaNat n) CR" for p n
    using itoaNat_digits [of "last (itoaNat n)" n] isDigit_not(2) by (auto simp: hasSuffixByte_def)
  have "\<not> hasSuffixByte (printNormalHead h) CR"
    using s last(1) [of "_ @ _"] last(1) [of "_ # _"] last(1) last(2)
    by (auto simp: printNormalHead_def normalRange_def simp flip: append_assoc append_Cons)
  then show "textLine (printNormalHead h)"
    using s by (simp add: textLine_def printNormalHead_def normalRange_noNL itoaNat_no isDigit_not)
  show "\<exists>d s. printNormalHead h = d # s \<and> isDigit d"
    using s dig [of "nat (OldStart h)"] dig [of "nat (OldStart h + 1)"] by (auto simp: printNormalHead_def normalRange_def)
qed

lemma printNormal_text:
  assumes "list_all (\<lambda>h. normalShape h \<and> smallHunk h \<and> textHunk h) hs"
  shows "list_all textLine (printNormal hs)"
proof -
  have "textLine l" if "h \<in> set hs" "l \<in> set (printNormalHunk h)" for h l
  proof -
    have h: "smallHunk h" "textHunk h" using assms that(1) by (auto simp: list_all_iff)
    have "textLine (''< '' @ t)" "textLine (''> '' @ t)" if "t \<in> set (oldSeq (Lines h)) \<union> set (newSeq (Lines h))" for t
      using that h(2) by (auto simp: textHunk_def list_all_iff oldSeq_def newSeq_def textLine_def hasSuffixByte_def)
    moreover have "textLine ''---''" by (simp add: textLine_def hasSuffixByte_def)
    ultimately show ?thesis using that(2) printNormalHead_text(1) [OF h(1)] by (auto simp: printNormalHunk_def split: if_splits)
  qed
  then show ?thesis by (auto simp: printNormal_def list_all_iff)
qed

lemma Parse_printNormal:
  assumes "printableNormal hs"
  shows "Parse (unlines (printNormal hs)) = Inr [emptyFilePatch\<lparr>PatchFormat := FormatNormal, Hunks := hs\<rparr>]"
proof -
  have ok: "list_all (\<lambda>h. normalShape h \<and> smallHunk h \<and> textHunk h) hs" "hs \<noteq> []" using assms by (auto simp: printableNormal_def)
  obtain h hs' where hs: "hs = h # hs'" using ok(2) by (cases hs) auto
  have h: "normalShape h" "smallHunk h" using ok(1) hs by auto
  obtain d s where ds: "printNormalHead h = d # s" "isDigit d" using printNormalHead_text(2) [OF h(2)] by blast
  have raw: "splitRawLines (unlines (printNormal hs)) = map rawOf (printNormal hs)"
    using splitRawLines_unlines [OF printNormal_text [OF ok(1)]] by simp
  have all: "normalHunks (map rawOf (printNormal hs)) = Inr (hs, [])"
    using normalHunks_print [of hs] ok(1) by (simp add: list_all_iff)
  obtain ls where first: "map rawOf (printNormal hs) = rawOf (printNormalHead h) # ls"
    using printNormalHunk_hd [of h] by (simp add: printNormal_def hs) (metis append_Cons list.simps(9) map_append)
  have ne: "d \<noteq> SP" "d \<noteq> TAB" "d \<noteq> CHR ''I''" "d \<noteq> CHR ''d''" "d \<noteq> CHR ''-''" "d \<noteq> CHR ''*''"
    using ds(2) by (auto simp: isDigit_def)
  have re: "normalHunkRe (printNormalHead h) \<noteq> None" using normalHunk_print [OF h] by blast
  have strip: "stripPatchIndentAt (rawOf (printNormalHead h) # ls) = None"
    using ne by (simp add: stripPatchIndentAt_def Let_def ds(1) trimLeft_def)
  have pf: "parseNormalFile (rawOf (printNormalHead h) # ls) = Inr (emptyFilePatch\<lparr>PatchFormat := FormatNormal, Hunks := hs\<rparr>, [])"
    using all ok(2) unfolding first by (simp add: parseNormalFile_def)
  have no: "\<not> hasPrefix (printNormalHead h) ''Index:''" "\<not> hasPrefix (printNormalHead h) ''diff --git ''"
    "\<not> hasPrefix (printNormalHead h) ''--- ''" "\<not> hasPrefix (printNormalHead h) ''*** ''"
    using ne by (simp_all add: ds(1) hasPrefix_Cons)
  show ?thesis unfolding Parse_def raw first parseLoop.simps(2) strip sectionAt_def
    using re no pf by (simp add: emptyFilePatch_def)
qed

interpretation nrm: diff_notation printNormal printableNormal
proof unfold_locales
  fix hs assume "printableNormal hs"
  then show "\<exists>fp. Parse (unlines (printNormal hs)) = Inr [fp] \<and> Hunks fp = hs \<and> Unsupported fp = [] \<and>
    OldName fp \<noteq> DevNull \<and> NewName fp \<noteq> DevNull"
    using Parse_printNormal by (simp add: emptyFilePatch_def DevNull_def)
  obtain h hs' where h: "hs = h # hs'" "normalShape h" "smallHunk h"
    using \<open>printableNormal hs\<close> by (cases hs) (auto simp: printableNormal_def)
  obtain d s where ds: "printNormalHead h = d # s" "isDigit d" using printNormalHead_text(2) [OF h(3)] by blast
  have ne: "d \<noteq> SP" "d \<noteq> TAB" "d \<noteq> CHR ''I''" using ds(2) by (auto simp: isDigit_def)
  have "looksLikeDiffListing (printNormalHead h)"
    using normalHunk_print [OF h(2,3)] by (auto simp: looksLikeDiffListing_def normalDiffCommandRE_def)
  then have "ExtractEdScript (unlines (printNormalHead h # ls)) = ([], [], False)" for ls
    using ExtractEdScript_listing [OF printNormalHead_text(1) [OF h(3)], of ls] ne by (simp add: ds(1) hasPrefix_Cons)
  then show "ExtractEdScript (unlines (printNormal hs)) = ([], [], False)"
    using printNormalHunk_hd [of h] by (simp add: printNormal_def h(1)) (metis append_Cons unlines.simps(2) unlines_append append.assoc)
qed

end
