(* ===== verification/Diff_Normal.thy ===== *)
theory Diff_Normal
  imports Notation_Normal Diff_Correct
begin

text \<open>
  The default output of \<open>diff\<close> (\<open>emitNormal\<close> of \<open>src/cmds/diff/diff.go\<close>) as hunks in the normal notation, and
  the way back through \<open>patch\<close>: between files that end in a newline the patched file is the new one.
\<close>

section \<open>The hunks of a normal diff\<close>

text \<open>The hunk of a group that replaces \<open>old\<close> by \<open>new\<close>.\<close>

definition normalHunkOf :: "nat \<Rightarrow> nat \<Rightarrow> string list \<Rightarrow> string list \<Rightarrow> Hunk" where
  "normalHunkOf i j old new = \<lparr>OldStart = int i, OldCount = int (length old), NewStart = int j,
     NewCount = int (length new), Lines = map delLine old @ map addLine new\<rparr>"

lemma plainLines [simp]:
  "oldSeq (map delLine ts) = ts" "oldSeq (map addLine ts) = []" "newSeq (map delLine ts) = []" "newSeq (map addLine ts) = ts"
  "oldF (map delLine ts) = map (\<lambda>t. (t, False)) ts" "oldF (map addLine ts) = []"
  "newF (map delLine ts) = []" "newF (map addLine ts) = map (\<lambda>t. (t, False)) ts"
  by (simp_all add: oldSeq_def newSeq_def oldF_def newF_def delLine_def addLine_def o_def filter_map)

lemma app_two: "(@) [c, d] = (\<lambda>t. c # d # t)"
  by (rule ext) simp

lemma flagged_plain: "\<not> sideNoEOL s \<Longrightarrow> flagged s = map (\<lambda>t. (t, False)) (sideLines s)"
  by (rule nth_equalityI) (simp_all add: flagged_nth)

lemma emitRange_plain:
  assumes "\<not> sideNoEOL s" "lo \<le> hi" "hi \<le> length (sideLines s)"
  shows "emitRange m s (int lo) (int hi) = Some (map (\<lambda>t. m @ t) (take (hi - lo) (drop lo (sideLines s))))"
proof -
  have "concat (map (printMarked m) (map (\<lambda>t. (t, False)) ts)) = map (\<lambda>t. m @ t) ts" for ts
    by (induction ts) (simp_all add: printMarked_def)
  then show ?thesis using emitRange_ok [OF assms(2,3), of m] by (simp add: flagged_plain [OF assms(1)] drop_map take_map)
qed

lemma emitNormalGroup_ok:
  assumes "\<not> sideNoEOL sa" "\<not> sideNoEOL sb" "a0 g = int u" "a1 g = int p" "b0 g = int v" "b1 g = int q"
    "u \<le> p" "v \<le> q" "p \<le> length (sideLines sa)" "q \<le> length (sideLines sb)"
  shows "emitNormalGroup sa sb g =
    Some (printNormalHunk (normalHunkOf u v (take (p - u) (drop u (sideLines sa))) (take (q - v) (drop v (sideLines sb)))))"
proof -
  have r: "emitRange ''< '' sa (a0 g) (a1 g) = Some (map (\<lambda>t. ''< '' @ t) (take (p - u) (drop u (sideLines sa))))"
    "emitRange ''> '' sb (b0 g) (b1 g) = Some (map (\<lambda>t. ''> '' @ t) (take (q - v) (drop v (sideLines sb))))"
    unfolding assms(3-6) using assms by (intro emitRange_plain; simp)+
  have l: "length (take (p - u) (drop u (sideLines sa))) = p - u" "length (take (q - v) (drop v (sideLines sb))) = q - v"
    using assms by simp_all
  show ?thesis unfolding emitNormalGroup_def Let_def r using assms l
    by (simp add: printNormalHunk_def printNormalHead_def normalHunkOf_def of_nat_diff app_two)
qed

lemma emitNormal_ok:
  assumes "script (flagged sa) (flagged sb) i j gs" "\<not> sideNoEOL sa" "\<not> sideNoEOL sb" "separated gs"
    "int (length (sideLines sa)) < 2 ^ 60" "int (length (sideLines sb)) < 2 ^ 60"
    "gs \<noteq> [] \<longrightarrow> int i < a0 (hd gs) \<or> i = 0 \<and> j = 0"
  shows "\<exists>hs rest. emitNormal sa sb gs = Some (printNormal hs) \<and> fitF i j (drop i (flagged sa)) hs (drop j (flagged sb)) rest \<and>
    list_all normalShape hs \<and> (hs = [] \<longleftrightarrow> gs = [])"
  using assms(1,4,7)
proof (induction gs arbitrary: i j rule: list.induct)
  case Nil
  then have "drop i (flagged sa) = drop j (flagged sb)" by (auto elim: script_NilE)
  then show ?case using fitF_done [of i j "drop j (flagged sb)"]
    by (intro exI [of _ "[]"] exI [of _ "drop j (flagged sb)"]) (simp add: emitNormal_def printNormal_def)
next
  case (Cons g gs)
  let ?A = "flagged sa" and ?B = "flagged sb"
  obtain k p q where h: "a0 g = int (i + k)" "b0 g = int (j + k)" "a1 g = int p" "b1 g = int q"
    "i + k \<le> p" "j + k \<le> q" "i + k < p \<or> j + k < q" "p \<le> length ?A" "q \<le> length ?B"
    "take k (drop i ?A) = take k (drop j ?B)" "script ?A ?B p q gs"
    using script_ConsE [OF Cons.prems(1)] by blast
  have sep: "separated gs" "gs \<noteq> [] \<longrightarrow> int p < a0 (hd gs) \<or> p = 0 \<and> q = 0"
    using Cons.prems(2) h(3) by (cases gs; simp)+
  obtain hs rest where hs: "emitNormal sa sb gs = Some (printNormal hs)" "fitF p q (drop p ?A) hs (drop q ?B) rest"
    "list_all normalShape hs"
    using Cons.IH [OF h(11) sep] by blast
  define old new where "old = take (p - (i + k)) (drop (i + k) (sideLines sa))"
    and "new = take (q - (j + k)) (drop (j + k) (sideLines sb))"
  let ?h = "normalHunkOf (i + k) (j + k) old new"
  have len: "length old = p - (i + k)" "length new = q - (j + k)" using h(8,9) by (simp_all add: old_def new_def)
  have out: "emitNormalGroup sa sb g = Some (printNormalHunk ?h)"
    unfolding old_def new_def using h assms(2,3) by (intro emitNormalGroup_ok) auto
  define pre where "pre = take k (drop i ?A)"
  have lp: "length pre = k" using h(5,8) by (simp add: pre_def)
  have oF: "oldF (Lines ?h) = take (p - (i + k)) (drop (i + k) ?A)"
    by (simp add: normalHunkOf_def old_def flagged_plain [OF assms(2)] take_map drop_map)
  have nF: "newF (Lines ?h) = take (q - (j + k)) (drop (j + k) ?B)"
    by (simp add: normalHunkOf_def new_def flagged_plain [OF assms(3)] take_map drop_map)
  have A: "drop i ?A = pre @ oldF (Lines ?h) @ drop p ?A"
    using drop_split [of i "i + k" ?A] drop_split [of "i + k" p ?A] h(5) unfolding oF pre_def by simp
  have B: "drop j ?B = pre @ newF (Lines ?h) @ drop q ?B"
    using drop_split [of j "j + k" ?B] drop_split [of "j + k" q ?B] h(6,10) unfolding nF pre_def by simp
  have wf: "wfHunk ?h" using len assms(5,6) h(8,9) by (simp add: wfHunk_def normalHunkOf_def fits_def)
  have ne: "Lines ?h \<noteq> []" using len h(7) by (auto simp: normalHunkOf_def)
  have "pre \<noteq> [] \<or> i = 0 \<and> j = 0" using Cons.prems(3) h(1) lp by auto
  then have "fitF i j (drop i ?A) (?h # hs) (drop j ?B) rest"
    unfolding A B using hs(2) wf ne lp len h(5,6)
    by (intro fitF_hunk) (simp_all add: normalHunkOf_def)
  moreover have "normalShape ?h" using ne by (simp add: normalShape_def normalHunkOf_def)
  moreover have "emitNormal sa sb (g # gs) = Some (printNormal (?h # hs))"
    using out hs(1) by (simp add: emitNormal_def printNormal_def)
  ultimately show ?case using hs(3) by (intro exI [of _ "?h # hs"] exI [of _ rest]) simp
qed
section \<open>\<open>diff\<close> and \<open>patch\<close>\<close>

definition normalOptions :: "diffOptions \<Rightarrow> bool" where
  "normalOptions opts \<longleftrightarrow> \<not> oUnified opts \<and> \<not> oContextStyle opts \<and> \<not> oEdStyle opts \<and> \<not> oForwardEdStyle opts \<and>
     \<not> oBrief opts \<and> plainOptions opts"

lemma compareText_normal:
  assumes "normalOptions opts" "textData (ldData la)" "textData (ldData lb)" "ldData la \<noteq> ldData lb"
    "endsInNewline (ldData la)" "endsInNewline (ldData lb)"
  shows "\<exists>out. compareText opts la lb False = Some (out, [], 1) \<and>
    patches out (ldData la) (ldData lb) \<and> unpatches out (ldData la) (ldData lb)"
proof -
  have o: "plainOptions opts" using assms(1) by (simp add: normalOptions_def)
  obtain sa m sb m' gs where a: "prep la opts [] = (sa, m)" and b: "prep lb opts m = (sb, m')"
    and gs: "diffGroups (sideKeys sa) (sideKeys sb) = Some gs" "gs \<noteq> []" and sc: "script (flagged sa) (flagged sb) 0 0 gs"
    and sep: "separated gs"
    and split: "splitFileLines (ldData la) = (sideLines sa, sideNoEOL sa)" "splitFileLines (ldData lb) = (sideLines sb, sideNoEOL sb)"
    and ts: "textSide sa" "textSide sb"
    by (rule plain_sides [OF o assms(2-4)])
  have eol: "\<not> sideNoEOL sa" "\<not> sideNoEOL sb" using assms(5,6) split by (simp_all add: endsInNewline_def)
  obtain hs rest where hs: "emitNormal sa sb gs = Some (printNormal hs)" "fitF 0 0 (flagged sa) hs (flagged sb) rest"
    "list_all normalShape hs" "hs \<noteq> []"
    using emitNormal_ok [OF sc eol sep] ts gs(2) by (auto simp: textSide_def)
  note F = fitF_sides [OF hs(2) ts]
  have "printableNormal hs" using F(1,2) hs(3,4) by (simp add: printableNormal_def list_all_iff)
  then have "patches (unlines (printNormal hs)) (ldData la) (ldData lb) \<and> unpatches (unlines (printNormal hs)) (ldData la) (ldData lb)"
    using nrm.both_ways [OF _ F(4) textSide_fits [OF ts(1)] textSide_fits [OF ts(2)] assms(4) split F(3,5)] by blast
  moreover have "compareText opts la lb False = Some (unlines (printNormal hs), [], 1)"
    using a b gs hs(1) assms(1) by (simp add: compareText_def emitStyle_def Let_def normalOptions_def)
  ultimately show ?thesis by blast
qed

text \<open>C2: For two different text files that end in a newline, the default output of \<open>diff\<close>,
  fed to \<open>patch\<close> on the old file, exits with status \<open>0\<close> and leaves the new file in its place, byte for byte and with
  the mode of the old one; no other file changes, except that \<open>-b\<close> keeps the old content as a backup.\<close>

theorem diff_normal_roundtrip:
  assumes "loadSide env (envIn env) opts a = (Inr la, inp)" "loadSide env inp opts b = (Inr lb, inp')"
    "normalOptions opts" "textData (ldData la)" "textData (ldData lb)" "ldData la \<noteq> ldData lb"
    "endsInNewline (ldData la)" "endsInNewline (ldData lb)"
    "patchable ctx f fs fn (ldData la) m" "plainFlags f" "\<not> fReverse f"
  shows "\<exists>out st'. compareFiles env opts a b False = Some (out, [], 1) \<and>
    runCore ctx f [fn] (Inr out) (startState fs tty) = Some (0, st') \<and>
    psFiles st' = patchedFiles ctx f fs fn (ldData la) (ldData lb) m"
proof -
  obtain out where "compareText opts la lb False = Some (out, [], 1)" "patches out (ldData la) (ldData lb)"
    using compareText_normal [OF assms(3-8)] by blast
  then show ?thesis using compareFiles_text [OF assms(1,2,4-6), of False] assms(9-11) unfolding patches_def by auto
qed

theorem diff_normal_roundtrip_witness:
  "\<exists>out st'. compareFiles demoEnv defaultOptions ''a'' ''b'' False = Some (out, [], 1) \<and>
    runCore demoCtx defaultFlags [''f''] (Inr out) (startState demoFiles []) = Some (0, st') \<and>
    psFiles st' = patchedFiles demoCtx defaultFlags demoFiles ''f'' (unlines [''x'', ''y'']) (unlines [''x'', ''z'']) 0x1A4"
proof -
  have "loadSide demoEnv (envIn demoEnv) defaultOptions ''a'' = (Inr (demoSide ''a'' [''x'', ''y'']), Inr [])"
    "loadSide demoEnv (Inr []) defaultOptions ''b'' = (Inr (demoSide ''b'' [''x'', ''z'']), Inr [])"
    "normalOptions defaultOptions" "textData (ldData (demoSide ''a'' [''x'', ''y'']))" "textData (ldData (demoSide ''b'' [''x'', ''z'']))"
    "ldData (demoSide ''a'' [''x'', ''y'']) \<noteq> ldData (demoSide ''b'' [''x'', ''z''])"
    "endsInNewline (ldData (demoSide ''a'' [''x'', ''y'']))" "endsInNewline (ldData (demoSide ''b'' [''x'', ''z'']))"
    by code_simp+
  moreover have "\<not> fReverse defaultFlags" by (simp add: defaultFlags_def)
  ultimately show ?thesis
    using diff_normal_roundtrip [of demoEnv defaultOptions "''a''" "demoSide ''a'' [''x'', ''y'']" "Inr []" "''b''" "demoSide ''b'' [''x'', ''z'']"
        "Inr []" demoCtx defaultFlags demoFiles "''f''" "0x1A4" "[]"] demo_patchable by (simp add: demoSide_def)
qed

end
