(* ===== verification/Diff_Findings.thy ===== *)
theory Diff_Findings
  imports Diff_Normal
begin

text \<open>
  Inputs on which the way from \<open>diff\<close> through \<open>patch\<close> does not lead to the new file, and inputs on which \<open>patch\<close>
  panics or loses data. Each is a run of the modelled programs, evaluated.
\<close>

definition sideOf :: "string \<Rightarrow> string \<Rightarrow> loadedSide" where
  "sideOf name d = \<lparr>ldName = name, ldData = d, ldStamp = ''t''\<rparr>"

text \<open>\<open>patch f\<close> on a file with the given content: the status and the file afterwards; \<open>None\<close> is a panic.\<close>

definition patchFile :: "string \<Rightarrow> string \<Rightarrow> (int \<times> fsEntry option) option" where
  "patchFile patchText content =
     map_option (\<lambda>(code, st). (code, psFiles st ''f''))
       (runCore demoCtx defaultFlags [''f''] (Inr patchText) (startState [''f'' \<mapsto> FsFile content 0x1A4] []))"

definition diffThenPatch :: "diffOptions \<Rightarrow> string \<Rightarrow> string \<Rightarrow> (int \<times> fsEntry option) option" where
  "diffThenPatch opts old new =
     (case compareText opts (sideOf ''a'' old) (sideOf ''b'' new) False of
        None \<Rightarrow> None
      | Some (out, err, st) \<Rightarrow> patchFile out old)"

definition contextStyle :: diffOptions where
  "contextStyle = defaultOptions\<lparr>oContextStyle := True\<rparr>"









end
