(* ===== verification/Patch_Status.thy ===== *)
theory Patch_Status
  imports Patch_Applied
begin

text \<open>
  The exit status of \<open>patch\<close>: \<open>0\<close> is returned only by a run that reported no problem. The theory also
  states what the whole run leaves alone: everything with \<open>--dry-run\<close>, the originals with \<open>-o\<close>.
\<close>

section \<open>Messages of a run without trouble\<close>

fun benign :: "patchMsg \<Rightarrow> bool" where
  "benign (MsgPrompt p) = True"
| "benign (MsgVerb v n d) = True"
| "benign (MsgFuzzy i p z) = True"
| "benign m = False"

definition clean :: "patchState \<Rightarrow> patchState \<Rightarrow> bool" where
  "clean st st' \<longleftrightarrow> (\<exists>ms. psErr st' = psErr st @ ms \<and> list_all benign ms)"

lemma clean_same: "psErr st' = psErr st \<Longrightarrow> clean st st'"
  by (simp add: clean_def)

lemma clean_trans: "clean st st' \<Longrightarrow> clean st' st'' \<Longrightarrow> clean st st''"
  by (auto simp: clean_def)

lemma clean_say: "benign m \<Longrightarrow> clean st (say m st)"
  by (simp add: clean_def say_def)

lemma askPrompt_clean:
  assumes "askPrompt ctx prompt st = ((a, None), st')" shows "clean st st'"
  using assms by (auto simp: askPrompt_def readPromptLine_def clean_def say_def split: if_splits list.splits)

lemma chooseTarget_clean:
  assumes "chooseTarget ctx f origFile oldName newName indexName createMode st = (Some x, st')" shows "clean st st'"
proof -
  obtain a e s where p: "askPrompt ctx ''File to patch: '' st = ((a, e), s)" by (metis surj_pair)
  have c: "clean st s" if "e = None" using askPrompt_clean p that by blast
  show ?thesis using assms p c clean_same [of st st]
    by (auto simp: chooseTarget_def Let_def split: if_splits prod.splits)
qed

lemma loadTarget_clean: "loadTarget ctx path nm cm st = (Some x, st') \<Longrightarrow> st' = st"
  by (auto simp: loadTarget_def split: option.splits sum.splits if_splits)

lemma askReverse_clean:
  assumes "askReverse ctx st = (True, st')" shows "clean st st'"
proof -
  obtain a e s where p: "askPrompt ctx reversePrompt st = ((a, e), s)" by (metis surj_pair)
  then show ?thesis using assms askPrompt_clean by (auto simp: askReverse_def split: sum.splits)
qed

text \<open>A refused or failed prompt leaves the first hunk failed.\<close>

lemma refused_fails:
  assumes "policyPrompts old no hs ro cc = Some True" "applyWithPolicy old no hs ro cc False = Some (res, rv)"
  shows "\<not> AllApplied res"
proof -
  let ?fwd = "if \<not> cc then applyEither old no hs ro ((roApplyOpts ro)\<lparr>Force := True\<rparr>) else Some (failedResult old no hs)"
  have f: "\<not> roReverse ro" "\<not> roForce ro" "\<not> roBatch ro" "\<not> roForward ro"
    using assms(1) by (auto simp: policyPrompts_def split: if_splits)
  obtain fw where fw: "?fwd = Some fw" "Reports fw \<noteq> []" "Outcome (hd (Reports fw)) = HunkFailed"
    using assms(1) f unfolding policyPrompts_def Let_def by (auto split: option.splits if_splits)
  have "res = fw"
    using assms(2) f fw unfolding applyWithPolicy_def Let_def by (auto split: option.splits if_splits)
  then show ?thesis using fw by (cases "Reports fw") (auto simp: AllApplied_def)
qed

lemma runPolicy_clean:
  assumes "runPolicy ctx old no hs ro cc st = Some (res, rv, st')" "AllApplied res" shows "clean st st'"
proof -
  obtain asks where a: "policyPrompts old no hs ro cc = Some asks" using assms(1) by (auto simp: runPolicy_def split: option.splits)
  obtain yes s where y: "(if asks then askReverse ctx st else (False, st)) = (yes, s)" by fastforce
  have r: "applyWithPolicy old no hs ro cc yes = Some (res, rv)" "st' = s"
    using assms(1) a y by (auto simp: runPolicy_def split: option.splits)
  have "asks \<Longrightarrow> yes" using refused_fails [of old no hs ro cc res rv] a r assms(2) by (cases yes) auto
  then show ?thesis using y r(2) askReverse_clean [of ctx st] clean_same [of st st] by (auto split: if_splits)
qed

lemma tallyReports_clean:
  assumes "tallyReports q (Reports res) st = (t, st')" "AllApplied res" "\<not> htIgnored t \<or> q" shows "clean st st'"
proof -
  have "clean s0 s1" if "foldl (tallyReport q) (t0, s0) reps = (t1, s1)" "list_all (\<lambda>r. Outcome r \<noteq> HunkFailed) reps"
    "\<not> htIgnored t1 \<or> q" for reps t0 s0 t1 s1
    using that
  proof (induction reps arbitrary: t0 s0)
    case (Cons r reps)
    obtain t2 s2 where s: "tallyReport q (t0, s0) r = (t2, s2)" by fastforce
    have ig: "htIgnored t2 \<Longrightarrow> htIgnored t1"
    proof -
      have "htIgnored a \<Longrightarrow> foldl (tallyReport q) (a, b) reps = (t1, s1) \<Longrightarrow> htIgnored t1" for a b
      proof (induction reps arbitrary: a b)
        case (Cons r reps)
        obtain a' b' where ab: "tallyReport q (a, b) r = (a', b')" by fastforce
        have "htIgnored a'" using ab Cons.prems(1) by (auto simp: tallyReport_def split: HunkOutcome.splits)
        then show ?case using Cons.IH Cons.prems(2) ab by simp
      qed simp
      then show "htIgnored t2 \<Longrightarrow> htIgnored t1" using Cons.prems(1) s by simp
    qed
    have "clean s0 s2" using s ig Cons.prems clean_say clean_same [of s0 s0]
      by (auto simp: tallyReport_def split: HunkOutcome.splits if_splits)
    then show ?case using Cons s clean_trans by fastforce
  qed (simp add: clean_same)
  then show ?thesis using assms by (auto simp: tallyReports_def AllApplied_def)
qed

lemma orFail_clean: "orFail m (e, s) = (True, s') \<Longrightarrow> s' = s"
  by (auto simp: orFail_def split: option.splits)

lemma backupIf_clean: "backupIf ctx w path st = (True, st') \<Longrightarrow> psErr st' = psErr st"
proof -
  assume b: "backupIf ctx w path st = (True, st')"
  obtain e s where s: "backupFile ctx path st = (e, s)" by fastforce
  have "psErr s = psErr st" using calls_act(3) [of st ctx path] s acts_fields(1) by fastforce
  then show ?thesis using b s by (auto simp: backupIf_def backupOnce_def orFail_def split: if_splits option.splits)
qed

lemma writeFileContent_err: "writeFileContent ctx path content perm ex st = (e, st') \<Longrightarrow> psErr st' = psErr st"
  using calls_act(2) [of st ctx path content perm ex] acts_fields(1) by fastforce

lemma doOp_err: "doOp ctx op st = (e, st') \<Longrightarrow> psErr st' = psErr st"
  using doOp_acts [of st ctx op] acts_fields(1) by fastforce

lemma commitFile_clean:
  assumes "commitFile ctx f path tf res ch dm st = (True, st')" shows "psErr st' = psErr st"
proof -
  let ?content = "joinFileLines (ResLines res) (NoFinalNewline res)"
  define st1 where "st1 = (case psAggregate st of None \<Rightarrow> st
    | Some buf \<Rightarrow> st\<lparr>psIntermediate := (path, ?content) # psIntermediate st, psAggregate := Some (buf @ ?content)\<rparr>)"
  have e1: "psErr st1 = psErr st" by (simp add: st1_def split: option.splits)
  have w: "psErr s' = psErr s" if "orFail MsgError (writeFileContent ctx path c perm ex s) = (True, s')" for c perm ex s s'
    using that writeFileContent_err orFail_clean by (metis prod.collapse)
  have r: "psErr s' = psErr s" if "orFail MsgError (doOp ctx op s) = (True, s')" for op s s'
    using that doOp_err orFail_clean by (metis prod.collapse)
  show ?thesis
    using assms backupIf_clean [of ctx _ path st1] w r e1 unfolding commitFile_def Let_def st1_def [symmetric]
    by (fastforce split: sum.splits osError.splits if_splits prod.splits bool.splits)
qed

lemma finishFile_clean:
  assumes "finishFile ctx f fp path nm tf res cm dm st = (True, st')" shows "clean st st' \<and> AllApplied res"
proof -
  let ?q = "fQuiet f \<or> fSilent f"
  define st1 where "st1 = (if ?q then st else say (MsgVerb (verbOf cm dm) nm (fDryRun f)) st)"
  obtain t st2 where t: "tallyReports ?q (Reports res) st1 = (t, st2)" by fastforce
  obtain ok st4 where c: "commitFile ctx f path tf res (htChanged t) dm (if AllApplied res then st2\<lparr>psProbe := False\<rparr> else st2) = (ok, st4)"
    by fastforce
  have a: "AllApplied res" "\<not> htIgnored t" "st' = st2\<lparr>psProbe := False\<rparr> \<or> ok \<and> st' = st4"
    using assms t c unfolding finishFile_def Let_def st1_def by (auto split: if_splits prod.splits bool.splits)
  have c1: "clean st st1" using clean_say [of "MsgVerb (verbOf cm dm) nm (fDryRun f)" st] clean_same [of st st] by (simp add: st1_def)
  have c2: "clean st st2" using clean_trans [OF c1 tallyReports_clean [OF t a(1)]] a(2) by blast
  moreover have "psErr st' = psErr st2" using a(1,3) c commitFile_clean by fastforce
  ultimately show ?thesis using a(1) by (simp add: clean_def)
qed

lemma applyOneFile_clean:
  assumes "applyOneFile ctx f origFile fp st = Some (True, st')" shows "clean st st'"
proof -
  let ?ro = "policyOptions f st"
  define on nn c where "on = (if roReverse ?ro then NewName fp else OldName fp)"
    and "nn = (if roReverse ?ro then OldName fp else NewName fp)" and "c = (on = DevNull \<and> nn \<noteq> DevNull)"
  note A = assms [unfolded applyOneFile_def Let_def, folded on_def nn_def, folded c_def]
  obtain path nm st1 where s1: "chooseTarget ctx f origFile on nn (IndexName fp) c st = (Some (path, nm), st1)"
    using A by (auto split: prod.splits option.splits)
  obtain tf where s2: "loadTarget ctx path nm c st1 = (Some tf, st1)"
    using A s1 loadTarget_clean [of ctx path nm c st1] by (auto split: prod.splits option.splits)
  obtain res rv st3 where s3: "runPolicy ctx (tfLines tf) (tfNoEOL tf) (Hunks fp) ?ro (c \<and> (tfLines tf \<noteq> [] \<or> tfNoEOL tf)) st1 = Some (res, rv, st3)"
    using A s1 s2 by (auto split: option.splits)
  obtain cm dm st4 where s4: "finishFile ctx f fp path nm tf res cm dm st4 = (True, st')" "psErr st4 = psErr st3"
    using A s1 s2 s3 by (auto split: if_splits)
  have "clean st st1" by (rule chooseTarget_clean [OF s1])
  moreover have "clean st1 st3" using runPolicy_clean [OF s3] finishFile_clean [OF s4(1)] by blast
  moreover have "clean st3 st'" using finishFile_clean [OF s4(1)] s4(2) by (simp add: clean_def)
  ultimately show ?thesis using clean_trans by blast
qed

lemma applyFiles_clean:
  assumes "applyFiles ctx f origFile fps tr st = Some (False, st')" shows "clean st st'"
  using assms
proof (induction fps arbitrary: tr st)
  case (Cons fp fps)
  have mono: "applyFiles ctx f origFile fps True s = Some (b, s') \<Longrightarrow> b = True" for fps s b s'
    by (induction fps arbitrary: s) (auto split: if_splits option.splits)
  show ?case
  proof (cases "Unsupported fp = []")
    case True
    then obtain ok s where s: "applyOneFile ctx f origFile fp st = Some (ok, s)" "applyFiles ctx f origFile fps (tr \<or> \<not> ok) s = Some (False, st')"
      using Cons.prems by (auto split: option.splits)
    then have ok using mono [of fps s False st'] by (cases ok) auto
    then have "clean st s" using applyOneFile_clean s(1) by simp
    then show ?thesis using Cons.IH [OF s(2)] clean_trans by blast
  next
    case False
    then show ?thesis using Cons.prems mono [of fps _ False st'] by auto
  qed
qed (simp add: clean_same)

lemma writeAggregateOutput_clean:
  assumes "writeAggregateOutput ctx f buf st = (True, st')" shows "psErr st' = psErr st"
proof -
  let ?path = "resolveOperandPath ctx (fDirectory f) (fOutput f)"
  have w: "psErr s' = psErr s" if "orFail MsgError (writeFileContent ctx ?path buf perm ex s) = (True, s')" for perm ex s s'
    using that writeFileContent_err orFail_clean by (metis prod.collapse)
  show ?thesis using assms backupIf_clean [of ctx _ ?path st] w unfolding writeAggregateOutput_def Let_def
    by (fastforce split: sum.splits osError.splits if_splits prod.splits bool.splits)
qed

lemma runParsed_clean:
  assumes "runParsed ctx f origFile d st = Some (0, st')" shows "clean st st'"
  using assms
proof (cases rule: runParsed_parts)
  case (2 fps tr st1 ok)
  then have tr: "\<not> tr" "ok" by (auto split: if_splits)
  have "clean (if fOutput f \<noteq> [] then st\<lparr>psAggregate := Some []\<rparr> else st) st1" using applyFiles_clean 2(2) tr by simp
  then have "clean st st1" by (auto simp: clean_def split: if_splits)
  moreover have "psErr st' = psErr st1" using 2(3) tr writeAggregateOutput_clean by (auto split: option.splits if_splits)
  ultimately show ?thesis by (simp add: clean_def)
qed simp

lemma runEdScript_clean:
  assumes "runEdScript ctx f script origFile idx st = Some (0, st')" shows "clean st st'"
proof -
  obtain a e s where q: "(if edTarget ctx f origFile idx st = [] then askPrompt ctx ''File to patch: '' st
      else ((edTarget ctx f origFile idx st, None), st)) = ((a, e), s)" by (metis surj_pair)
  have s: "clean st s" if "e = None" using q that askPrompt_clean clean_same [of st st] by (auto split: if_splits)
  have fe: "psErr s' = psErr s" if "finishEd ctx f target result rejected s = (0, s')" for target result rejected s'
  proof -
    let ?out = "if fOutput f \<noteq> [] then resolveOperandPath ctx (fDirectory f) (fOutput f) else target"
    have b: "psErr s1 = psErr s" if "backupFile ctx ?out s = (x, s1)" for x s1
      using calls_act(3) [of s ctx ?out] that acts_fields(1) by fastforce
    show ?thesis using that b writeFileContent_err unfolding finishEd_def saveEdRejects_def Let_def
      by (fastforce split: if_splits option.splits prod.splits)
  qed
  then show ?thesis using assms s unfolding runEdScript_def Let_def q
    by (auto simp: clean_def split: if_splits option.splits sum.splits)
qed

text \<open>The status \<open>0\<close> is returned only by a run that reported no problem.\<close>

lemma runCore_clean:
  assumes "runCore ctx f operands inp st = Some (0, st')" shows "clean st st'"
  using assms runParsed_clean runEdScript_clean
  unfolding runCore_def Let_def by (auto split: if_splits sum.splits prod.splits)

lemma runParsed_code: "runParsed ctx f origFile d st = Some (code, st') \<Longrightarrow> code \<in> {0, 1, 2}"
  by (erule runParsed_parts) auto

lemma runCore_code:
  assumes "runCore ctx f operands inp st = Some (code, st')" shows "code \<in> {0, 1, 2}"
proof -
  have fe: "code \<in> {0, 1, 2}" if "finishEd ctx f target result rejected s = (code, s')" for target result rejected s code s'
    using that unfolding finishEd_def saveEdRejects_def Let_def by (auto split: if_splits option.splits prod.splits)
  have ed: "code \<in> {0, 1, 2}" if "runEdScript ctx f sc og idx s = Some (code, s')" for sc og idx s code s'
    using that unfolding runEdScript_def Let_def by (auto split: if_splits option.splits prod.splits sum.splits dest: fe)
  show ?thesis using assms unfolding runCore_def Let_def
    by (auto split: if_splits sum.splits prod.splits dest: runParsed_code ed)
qed

section \<open>Properties\<close>

text \<open>C16: With \<open>--dry-run\<close> a run, whatever it reports, makes no call that changes the file system.\<close>

theorem dry_run_pure:
  assumes "fDryRun f" "runCore ctx f operands inp st = Some (code, st')"
  shows "psFiles st' = psFiles st \<and> psOps st' = psOps st"
  using runCore_dry [OF assms] by (simp add: calm_def)

text \<open>C12: With \<open>-o\<close> no existing file changes except the output file, its backup and the reject
  file; in particular the files the patch names stay as they are.\<close>

theorem output_keeps_originals:
  assumes "freshTemp ctx" "finite (dom (psFiles st))" "fOutput f \<noteq> []"
    "runCore ctx f operands inp st = Some (code, st')" "p \<notin> outputPaths ctx f" "psFiles st p \<noteq> None"
  shows "psFiles st' p = psFiles st p"
  using runCore_output [OF assms(1,4,3,5)] assms(2,6) by (simp add: keeps_def)

text \<open>C15: The exit status is \<open>0\<close>, \<open>1\<close> or \<open>2\<close>; and when it is \<open>0\<close> the run reported nothing but prompts,
  the names of the files it patched and hunks that applied with fuzz: no hunk failed or was already applied, no file
  was missing, and nothing could not be written.\<close>

theorem patch_status:
  assumes "runCore ctx f operands inp st = Some (code, st')"
  shows "code \<in> {0, 1, 2} \<and> (code = 0 \<longrightarrow> (\<exists>ms. psErr st' = psErr st @ ms \<and> list_all benign ms))"
  using runCore_code [OF assms] runCore_clean [of ctx f operands inp st st'] assms by (auto simp: clean_def)

section \<open>Examples\<close>

definition demoPatch :: string where
  "demoPatch = unlines [''2c2'', ''< y'', ''---'', ''> Y'']"

definition demoDry :: patchFlags where
  "demoDry = defaultFlags\<lparr>fDryRun := True\<rparr>"

definition demoOut :: patchFlags where
  "demoOut = defaultFlags\<lparr>fOutput := ''o''\<rparr>"

lemma demo_runs:
  "map_option fst (runCore demoCtx demoDry [''f''] (Inr demoPatch) (startState demoFiles [])) = Some 0"
  "map_option fst (runCore demoCtx demoOut [''f''] (Inr demoPatch) (startState demoFiles [])) = Some 0"
  by code_simp+

theorem dry_run_pure_witness:
  "\<exists>st'. runCore demoCtx demoDry [''f''] (Inr demoPatch) (startState demoFiles []) = Some (0, st') \<and> psFiles st' = demoFiles"
proof -
  obtain st' where r: "runCore demoCtx demoDry [''f''] (Inr demoPatch) (startState demoFiles []) = Some (0, st')"
    using demo_runs(1) by auto
  from dry_run_pure [OF _ r] r show ?thesis by (simp add: demoDry_def)
qed

theorem output_keeps_originals_witness:
  "\<exists>st'. runCore demoCtx demoOut [''f''] (Inr demoPatch) (startState demoFiles []) = Some (0, st') \<and> psFiles st' ''f'' = demoFiles ''f''"
proof -
  obtain st' where r: "runCore demoCtx demoOut [''f''] (Inr demoPatch) (startState demoFiles []) = Some (0, st')"
    using demo_runs(2) by auto
  have o: "rejectPath demoCtx demoOut [] = ''o.rej''" "resolveOperandPath demoCtx (fDirectory demoOut) (fOutput demoOut) = ''o''"
    by code_simp+
  have "''f'' \<notin> outputPaths demoCtx demoOut" by (simp add: outputPaths_def o Let_def)
  moreover have "fOutput demoOut \<noteq> []" "psFiles (startState demoFiles []) ''f'' \<noteq> None"
    by (simp_all add: demoOut_def demoFiles_def)
  ultimately show ?thesis
    using output_keeps_originals [OF demoCtx_fresh(1) _ _ r, of "''f''"] demoFiles_finite r by simp
qed

theorem patch_status_witness:
  "\<exists>st'. runCore demoCtx demoOut [''f''] (Inr demoPatch) (startState demoFiles []) = Some (0, st') \<and>
    list_all benign (psErr st')"
proof -
  obtain st' where r: "runCore demoCtx demoOut [''f''] (Inr demoPatch) (startState demoFiles []) = Some (0, st')"
    using demo_runs(2) by auto
  from patch_status [OF r] r show ?thesis by (auto simp: startState_def)
qed

end
