(* ===== verification/Reject_Roundtrip.thy ===== *)
theory Reject_Roundtrip
  imports Patch_Reject Notation_Unified
begin

text \<open>
  The unified writer of \<open>src/pkg/patch/reject.go\<close> prints the notation of \<open>Notation_Unified\<close>, so the parser reads its
  output back hunk by hunk.
\<close>

lemma noNewlineText_line: "noNewlineText = noNewline @ [NL]"
  by (simp add: noNewlineText_def noNewline_def)

lemma hunkHeader_line:
  "hunkHeader h @ s = hd (printUnifiedHunk h) @ NL # s"
  by (simp add: hunkHeader_def printUnifiedHunk_def unifiedRangeText_def unifiedRange_def)

lemma unifiedRejectLine_lines: "unifiedRejectLine = (\<lambda>l. unlines (printUnifiedLine l))"
  by (rule ext) (simp add: unifiedRejectLine_def printUnifiedLine_def rejectMark_def lineMark_def noNewlineText_line)

lemma unlines_concat: "unlines (concat xs) = concat (map unlines xs)"
  by (induction xs) simp_all

lemma writeUnifiedReject_print: "writeUnifiedReject oldName newName hs = unlines (printUnified oldName newName hs)"
proof -
  have "hunkHeader h @ concat (map unifiedRejectLine (Lines h)) = unlines (printUnifiedHunk h)" for h
    unfolding hunkHeader_line
    by (simp add: printUnifiedHunk_def unlines_concat o_def unifiedRejectLine_lines)
  then show ?thesis by (simp add: writeUnifiedReject_def printUnified_def unlines_concat o_def)
qed

text \<open>C24: Hunks written as a unified reject parse back to the same hunks, the markers for a
  missing newline included.\<close>

theorem unified_reject_reads_back:
  assumes "list_all smallHunk hs" "list_all textHunk hs" "textLine oldName" "textLine newName"
    "oldName \<noteq> []" "newName \<noteq> []"
  shows "Parse (writeUnifiedReject oldName newName hs) =
    Inr [emptyFilePatch\<lparr>OldName := extractName oldName, NewName := extractName newName, Hunks := hs\<rparr>]"
  using Parse_printUnified [OF assms] by (simp add: writeUnifiedReject_print)

theorem unified_reject_reads_back_witness:
  "Parse (writeUnifiedReject ''a'' ''b'' [demoHunk]) =
    Inr [emptyFilePatch\<lparr>OldName := ''a'', NewName := ''b'', Hunks := [demoHunk]\<rparr>]"
proof -
  have "list_all smallHunk [demoHunk]" "list_all textHunk [demoHunk]" "textLine ''a''" "textLine ''b''"
    "''a'' \<noteq> []" "''b'' \<noteq> []" "extractName ''a'' = ''a''" "extractName ''b'' = ''b''"
    by code_simp+
  then show ?thesis using unified_reject_reads_back [of "[demoHunk]" "''a''" "''b''"] by simp
qed

end
