(* ===== verification/Go_Input.thy ===== *)
theory Go_Input
  imports Go_Path "HOL-Library.Monad_Syntax"
begin

text \<open>
  What the filter commands share: input streams that arrive in pieces and may fail, the result of a run, the usage
  diagnostic of \<open>src/tool/flags.go\<close>, and bounds-checked access by a natural index.
\<close>

text \<open>The reads of an open file: the pieces that arrive, the error that ends them (\<open>None\<close> is the end of the file), and
  the error of closing it.\<close>

record stream =
  stChunks :: "string list"
  stFail :: "string option"
  stClose :: "string option"

definition stdinStream :: "string \<Rightarrow> stream" where
  "stdinStream s = \<lparr>stChunks = [s], stFail = None, stClose = None\<rparr>"

text \<open>What a run leaves: the bytes handed to the standard output and to the standard error, and the exit status.\<close>

record outcome =
  stdout :: string
  stderr :: string
  status :: int

definition failed :: "string \<Rightarrow> int \<Rightarrow> outcome" where
  "failed msg code = \<lparr>stdout = [], stderr = msg, status = code\<rparr>"

definition UsageError :: "string \<Rightarrow> string \<Rightarrow> outcome" where
  "UsageError toolName msg =
     failed (unlines [toolName @ '': '' @ msg, ''Try '' @ [CHR 0x27] @ toolName @ '' --help'' @ [CHR 0x27] @ '' for more information.'']) 2"

definition quoted :: "string \<Rightarrow> string" where
  "quoted s = [CHR 0x27] @ s @ [CHR 0x27]"

text \<open>
  \<open>bufio.Writer\<close> of 4096 bytes in front of a file: what has been passed on, and what is still buffered. A string that
  does not fit fills the buffer up and passes it on; one that does not fit an empty buffer is passed on directly.
\<close>

record bufWriter =
  bwSent :: string
  bwBuf :: string

definition bufSize :: nat where
  "bufSize = 4096"

definition newWriter :: bufWriter where
  "newWriter = \<lparr>bwSent = [], bwBuf = []\<rparr>"

definition bwFlush :: "bufWriter \<Rightarrow> bufWriter" where
  "bwFlush w = \<lparr>bwSent = bwSent w @ bwBuf w, bwBuf = []\<rparr>"

definition bwWriteEmpty :: "bufWriter \<Rightarrow> string \<Rightarrow> bufWriter" where
  "bwWriteEmpty w s = (if length s \<le> bufSize then w\<lparr>bwBuf := s\<rparr> else w\<lparr>bwSent := bwSent w @ s\<rparr>)"

definition bwWriteString :: "bufWriter \<Rightarrow> string \<Rightarrow> bufWriter" where
  "bwWriteString w s =
     (let avail = bufSize - length (bwBuf w) in
      if length s \<le> avail then w\<lparr>bwBuf := bwBuf w @ s\<rparr>
      else if bwBuf w = [] then bwWriteEmpty w s
      else bwWriteEmpty (bwFlush (w\<lparr>bwBuf := bwBuf w @ take avail s\<rparr>)) (drop avail s))"

definition bwWriteByte :: "bufWriter \<Rightarrow> char \<Rightarrow> bufWriter" where
  "bwWriteByte w c =
     (let w' = (if bufSize \<le> length (bwBuf w) then bwFlush w else w) in w'\<lparr>bwBuf := bwBuf w' @ [c]\<rparr>)"

definition bwAll :: "bufWriter \<Rightarrow> string" where
  "bwAll w = bwSent w @ bwBuf w"

lemma bwAll_writeEmpty: "bwBuf w = [] \<Longrightarrow> bwAll (bwWriteEmpty w s) = bwAll w @ s"
  by (simp add: bwAll_def bwWriteEmpty_def)

lemma bwAll_simps [simp]:
  "bwAll newWriter = []" "bwAll (bwFlush w) = bwAll w" "bwAll (bwWriteString w s) = bwAll w @ s"
  "bwAll (bwWriteByte w c) = bwAll w @ [c]" "bwSent (bwFlush w) = bwAll w"
  by (auto simp: newWriter_def bwFlush_def bwWriteString_def bwWriteByte_def Let_def bwAll_writeEmpty)
     (auto simp: bwAll_def bwFlush_def)

definition at :: "'a list \<Rightarrow> nat \<Rightarrow> 'a option" where
  "at xs i = (if i < length xs then Some (xs ! i) else None)"

lemma at_Some [simp]: "i < length xs \<Longrightarrow> at xs i = Some (xs ! i)"
  by (simp add: at_def)

lemma at_eq_Some_iff: "at xs i = Some x \<longleftrightarrow> i < length xs \<and> x = xs ! i"
  by (auto simp: at_def)

text \<open>\<open>strings.Cut (s, "=")\<close>: the part before the first \<open>=\<close>, and whether there is one.\<close>

definition cutEquals :: "string \<Rightarrow> string \<times> bool" where
  "cutEquals s = (takeWhile (\<lambda>c. c \<noteq> CHR ''='') s, CHR ''='' \<in> set s)"

end
