(* ===== verification/Go_Heap.thy ===== *)
theory Go_Heap
  imports Main "HOL-Library.Multiset"
begin

text \<open>
  The package \<open>container/heap\<close> of the Go library, as the sources use it: a binary heap kept in a slice, ordered by
  a key. \<open>heapDown\<close> and \<open>heapUp\<close> are its two loops; \<open>heapInit\<close>, \<open>heapPush\<close> and \<open>heapPop\<close> its operations. The
  locale \<open>priority_queue\<close> is the contract the clients rely on, and is interpreted on these operations.
\<close>

section \<open>The operations\<close>

definition swapAt :: "'a list \<Rightarrow> nat \<Rightarrow> nat \<Rightarrow> 'a list" where
  "swapAt xs i j = xs[i := xs ! j, j := xs ! i]"

text \<open>\<open>down (h, i, n)\<close>: the loop sinks the element at \<open>i\<close> among the first \<open>n\<close>.\<close>

function heapDown :: "('a \<Rightarrow> 'k::linorder) \<Rightarrow> 'a list \<Rightarrow> nat \<Rightarrow> nat \<Rightarrow> 'a list" where
  "heapDown key xs i n =
     (let j1 = 2 * i + 1 in
      if j1 \<ge> n then xs
      else let j = (if j1 + 1 < n \<and> key (xs ! (j1 + 1)) < key (xs ! j1) then j1 + 1 else j1)
           in if \<not> key (xs ! j) < key (xs ! i) then xs
              else heapDown key (swapAt xs i j) j n)"
  by pat_completeness auto
termination
  by (relation "measure (\<lambda>(key, xs, i, n). n - i)") (auto split: if_splits)

declare heapDown.simps [simp del]

text \<open>\<open>up (h, j)\<close>: the loop lifts the element at \<open>j\<close>; the parent of the root is the root, where it stops.\<close>

function heapUp :: "('a \<Rightarrow> 'k::linorder) \<Rightarrow> 'a list \<Rightarrow> nat \<Rightarrow> 'a list" where
  "heapUp key xs j =
     (let i = (j - 1) div 2 in
      if i = j \<or> \<not> key (xs ! j) < key (xs ! i) then xs
      else heapUp key (swapAt xs i j) i)"
  by pat_completeness auto
termination
  by (relation "measure (\<lambda>(key, xs, j). j)") auto

declare heapUp.simps [simp del]

definition heapInit :: "('a \<Rightarrow> 'k::linorder) \<Rightarrow> 'a list \<Rightarrow> 'a list" where
  "heapInit key xs = foldl (\<lambda>h i. heapDown key h i (length xs)) xs (rev [0 ..< length xs div 2])"

definition heapPush :: "('a \<Rightarrow> 'k::linorder) \<Rightarrow> 'a \<Rightarrow> 'a list \<Rightarrow> 'a list" where
  "heapPush key x h = heapUp key (h @ [x]) (length h)"

text \<open>The root is swapped to the end, the rest is sifted down, and the end is cut off. Popping an empty heap panics.\<close>

definition heapPop :: "('a \<Rightarrow> 'k::linorder) \<Rightarrow> 'a list \<Rightarrow> ('a \<times> 'a list) option" where
  "heapPop key h =
     (if h = [] then None
      else let n = length h - 1;
               h' = heapDown key (swapAt h 0 n) 0 n
           in Some (last h', butlast h'))"

section \<open>The contract of a priority queue\<close>

text \<open>A queue whose elements are exactly a set, each once.\<close>

definition holdsSet :: "('q \<Rightarrow> bool) \<Rightarrow> ('q \<Rightarrow> 'a multiset) \<Rightarrow> 'q \<Rightarrow> 'a set \<Rightarrow> bool" where
  "holdsSet invar elems q S \<longleftrightarrow> invar q \<and> finite S \<and> elems q = mset_set S"

locale priority_queue =
  fixes key :: "'a \<Rightarrow> 'k::linorder"
    and invar :: "'q \<Rightarrow> bool"
    and elems :: "'q \<Rightarrow> 'a multiset"
    and make :: "'a list \<Rightarrow> 'q"
    and push :: "'a \<Rightarrow> 'q \<Rightarrow> 'q"
    and pop :: "'q \<Rightarrow> ('a \<times> 'q) option"
  assumes invar_make: "invar (make xs)"
    and elems_make: "elems (make xs) = mset xs"
    and invar_push: "invar q \<Longrightarrow> invar (push x q)"
    and elems_push: "invar q \<Longrightarrow> elems (push x q) = add_mset x (elems q)"
    and pop_empty: "invar q \<Longrightarrow> elems q = {#} \<Longrightarrow> pop q = None"
    and pop_some: "invar q \<Longrightarrow> elems q \<noteq> {#} \<Longrightarrow> \<exists>x q'. pop q = Some (x, q')"
    and pop_invar: "invar q \<Longrightarrow> pop q = Some (x, q') \<Longrightarrow> invar q'"
    and pop_elems: "invar q \<Longrightarrow> pop q = Some (x, q') \<Longrightarrow> elems q = add_mset x (elems q')"
    and pop_least: "invar q \<Longrightarrow> pop q = Some (x, q') \<Longrightarrow> y \<in># elems q \<Longrightarrow> key x \<le> key y"
begin

lemma holds_make: "distinct xs \<Longrightarrow> holdsSet invar elems (make xs) (set xs)"
  by (simp add: holdsSet_def invar_make elems_make mset_set_set)

lemma holds_push: "holdsSet invar elems q S \<Longrightarrow> x \<notin> S \<Longrightarrow> holdsSet invar elems (push x q) (insert x S)"
  by (simp add: holdsSet_def invar_push elems_push)

lemma holds_pop_None: "holdsSet invar elems q S \<Longrightarrow> pop q = None \<longleftrightarrow> S = {}"
  unfolding holdsSet_def by (metis mset_set.empty mset_set_empty_iff option.distinct(1) pop_empty pop_some)

lemma holds_pop:
  assumes "holdsSet invar elems q S" "pop q = Some (x, q')"
  shows "x \<in> S" "holdsSet invar elems q' (S - {x})" "\<forall>y \<in> S. key x \<le> key y"
proof -
  have e: "mset_set S = add_mset x (elems q')" and i: "invar q" and f: "finite S"
    using assms pop_elems unfolding holdsSet_def by fastforce+
  show x: "x \<in> S" using e f by (metis finite_set_mset_mset_set union_single_eq_member)
  show "holdsSet invar elems q' (S - {x})"
    using e f x pop_invar [OF i assms(2)] by (simp add: holdsSet_def mset_set_Diff)
  show "\<forall>y \<in> S. key x \<le> key y"
    using pop_least [OF i assms(2)] assms(1) by (simp add: holdsSet_def)
qed

end

section \<open>The heap order\<close>

definition par :: "nat \<Rightarrow> nat" where
  "par k = (k - 1) div 2"

lemma par_eq_iff: "0 < k \<Longrightarrow> par k = i \<longleftrightarrow> k = 2 * i + 1 \<or> k = 2 * i + 2"
  unfolding par_def by presburger

lemma par_less: "0 < k \<Longrightarrow> par k < k"
  unfolding par_def by presburger

text \<open>The order holds below every parent from \<open>s\<close> on, except at the element \<open>i\<close> that is on its way down, whose
  parent is already in order with its children.\<close>

definition sinking :: "('a \<Rightarrow> 'k::linorder) \<Rightarrow> 'a list \<Rightarrow> nat \<Rightarrow> nat \<Rightarrow> nat \<Rightarrow> bool" where
  "sinking key xs s n i \<longleftrightarrow>
     (\<forall>k. 0 < k \<and> k < n \<and> s \<le> par k \<and> par k \<noteq> i \<longrightarrow> key (xs ! par k) \<le> key (xs ! k)) \<and>
     (\<forall>k. 0 < k \<and> k < n \<and> par k = i \<and> 0 < i \<and> s \<le> par i \<longrightarrow> key (xs ! par i) \<le> key (xs ! k))"

definition heapFrom :: "('a \<Rightarrow> 'k::linorder) \<Rightarrow> 'a list \<Rightarrow> nat \<Rightarrow> nat \<Rightarrow> bool" where
  "heapFrom key xs s n \<longleftrightarrow> (\<forall>k. 0 < k \<and> k < n \<and> s \<le> par k \<longrightarrow> key (xs ! par k) \<le> key (xs ! k))"

text \<open>The same for an element \<open>j\<close> on its way up.\<close>

definition rising :: "('a \<Rightarrow> 'k::linorder) \<Rightarrow> 'a list \<Rightarrow> nat \<Rightarrow> bool" where
  "rising key xs j \<longleftrightarrow>
     (\<forall>k. 0 < k \<and> k < length xs \<and> k \<noteq> j \<longrightarrow> key (xs ! par k) \<le> key (xs ! k)) \<and>
     (\<forall>k. 0 < k \<and> k < length xs \<and> par k = j \<and> 0 < j \<longrightarrow> key (xs ! par j) \<le> key (xs ! k))"

definition heapOrdered :: "('a \<Rightarrow> 'k::linorder) \<Rightarrow> 'a list \<Rightarrow> bool" where
  "heapOrdered key xs = heapFrom key xs 0 (length xs)"

lemma length_swapAt [simp]: "length (swapAt xs i j) = length xs"
  by (simp add: swapAt_def)

lemma mset_swapAt: "i < length xs \<Longrightarrow> j < length xs \<Longrightarrow> mset (swapAt xs i j) = mset xs"
  by (simp add: swapAt_def mset_swap)

lemma nth_swapAt:
  "i < length xs \<Longrightarrow> j < length xs \<Longrightarrow> k < length xs \<Longrightarrow>
   swapAt xs i j ! k = (if k = i then xs ! j else if k = j then xs ! i else xs ! k)"
  by (simp add: swapAt_def nth_list_update)

text \<open>One round of \<open>heapDown\<close>: it stops with the order restored, or the smaller child moves up.\<close>

lemma sinking_leaf:
  assumes "sinking key xs s n i" "n \<le> 2 * i + 1" shows "heapFrom key xs s n"
  unfolding heapFrom_def
proof (intro allI impI)
  fix k assume k: "0 < k \<and> k < n \<and> s \<le> par k"
  then have "par k \<noteq> i" using assms(2) par_eq_iff [of k i] by auto
  then show "key (xs ! par k) \<le> key (xs ! k)" using k assms(1) unfolding sinking_def by blast
qed

lemma sinking_stop:
  assumes "sinking key xs s n i" "\<And>k. 0 < k \<Longrightarrow> k < n \<Longrightarrow> par k = i \<Longrightarrow> key (xs ! i) \<le> key (xs ! k)"
  shows "heapFrom key xs s n"
  using assms unfolding sinking_def heapFrom_def by blast

lemma sinking_step:
  assumes s: "sinking key xs s n i" and n: "n \<le> length xs" and i: "s \<le> i" "i < n"
    and j: "0 < j" "j < n" "par j = i" and lt: "key (xs ! j) < key (xs ! i)"
    and least: "\<And>k. 0 < k \<Longrightarrow> k < n \<Longrightarrow> par k = i \<Longrightarrow> key (xs ! j) \<le> key (xs ! k)"
  shows "sinking key (swapAt xs i j) s n j"
proof -
  have ne: "i \<noteq> j" using par_less [OF j(1)] j(3) by simp
  have nth: "swapAt xs i j ! k = (if k = i then xs ! j else if k = j then xs ! i else xs ! k)" if "k < n" for k
    using that n i j by (intro nth_swapAt) auto
  have order: "key (xs ! par k) \<le> key (xs ! k)" if "0 < k" "k < n" "s \<le> par k" "par k \<noteq> i" for k
    using s that unfolding sinking_def by blast
  have above: "key (xs ! par i) \<le> key (xs ! j)" if "0 < i" "s \<le> par i"
    using s that j unfolding sinking_def by blast
  show ?thesis unfolding sinking_def
  proof (intro conjI allI impI)
    fix k assume k: "0 < k \<and> k < n \<and> s \<le> par k \<and> par k \<noteq> j"
    then have p: "par k < n" using par_less [of k] by simp
    show "key (swapAt xs i j ! par k) \<le> key (swapAt xs i j ! k)"
    proof (cases "par k = i")
      case True
      then show ?thesis using least [of k] k lt p nth [of k] nth [of "par k"] ne by auto
    next
      case False
      then show ?thesis using order [of k] k p nth [of k] nth [of "par k"] above j(3) by auto
    qed
  next
    fix k assume k: "0 < k \<and> k < n \<and> par k = j \<and> 0 < j \<and> s \<le> par j"
    have "k \<noteq> i" "k \<noteq> j" using k j par_less [of k] par_less [of j] by auto
    moreover have "key (xs ! j) \<le> key (xs ! k)" using order [of k] k i j ne par_less [of j] by auto
    ultimately show "key (swapAt xs i j ! par j) \<le> key (swapAt xs i j ! k)" using nth [of i] nth [of k] k i j by simp
  qed
qed

definition child :: "('a \<Rightarrow> 'k::linorder) \<Rightarrow> 'a list \<Rightarrow> nat \<Rightarrow> nat \<Rightarrow> nat" where
  "child key xs i n = (if 2 * i + 2 < n \<and> key (xs ! (2 * i + 2)) < key (xs ! (2 * i + 1)) then 2 * i + 2 else 2 * i + 1)"

lemma heapDown_unfold:
  "heapDown key xs i n =
     (if n \<le> 2 * i + 1 \<or> \<not> key (xs ! child key xs i n) < key (xs ! i) then xs
      else heapDown key (swapAt xs i (child key xs i n)) (child key xs i n) n)"
  by (subst heapDown.simps) (simp add: Let_def child_def)

lemma child_less:
  assumes "\<not> n \<le> 2 * i + 1"
  shows "0 < child key xs i n" "child key xs i n < n" "par (child key xs i n) = i" "i < child key xs i n"
  using assms by (auto simp: child_def par_def)

lemma child_least:
  assumes "0 < k" "k < n" "par k = i" shows "key (xs ! child key xs i n) \<le> key (xs ! k)"
  using assms par_eq_iff [of k i] by (auto simp: child_def)

lemma heapDown_ok:
  assumes "n \<le> length xs" "s \<le> i" "sinking key xs s n i"
  shows "heapFrom key (heapDown key xs i n) s n"
  using assms
proof (induction "n - i" arbitrary: xs i rule: less_induct)
  case less
  let ?j = "child key xs i n"
  show ?case
  proof (cases "n \<le> 2 * i + 1 \<or> \<not> key (xs ! ?j) < key (xs ! i)")
    case True
    then have "heapFrom key xs s n"
      using sinking_leaf [OF less.prems(3)] sinking_stop [OF less.prems(3)] child_least [of _ n i key xs]
      by (meson order_trans not_less)
    then show ?thesis using True by (subst heapDown_unfold) simp
  next
    case False
    then have n: "\<not> n \<le> 2 * i + 1" by simp
    note j = child_less [OF n, of key xs]
    have "sinking key (swapAt xs i ?j) s n ?j"
      using sinking_step [OF less.prems(3,1,2) _ j(1-3)] False n child_least [of _ n i key xs] by simp
    moreover have "n - ?j < n - i" "s \<le> ?j" using j n less.prems(2) by linarith+
    ultimately show ?thesis using less.hyps [of ?j "swapAt xs i ?j"] less.prems(1) False
      by (subst heapDown_unfold) simp
  qed
qed

lemma heapDown_keeps:
  assumes "n \<le> length xs"
  shows "mset (heapDown key xs i n) = mset xs \<and> (\<forall>k. n \<le> k \<and> k < length xs \<longrightarrow> heapDown key xs i n ! k = xs ! k)"
  using assms
proof (induction "n - i" arbitrary: xs i rule: less_induct)
  case less
  let ?j = "child key xs i n"
  show ?case
  proof (cases "n \<le> 2 * i + 1 \<or> \<not> key (xs ! ?j) < key (xs ! i)")
    case True
    then show ?thesis by (subst (1 2) heapDown_unfold) simp
  next
    case False
    then have n: "\<not> n \<le> 2 * i + 1" by simp
    note j = child_less [OF n, of key xs]
    have lt: "n - ?j < n - i" "i < length xs" "?j < length xs" using j n less.prems by linarith+
    from less.hyps [of ?j "swapAt xs i ?j", OF lt(1)] less.prems
    have "mset (heapDown key (swapAt xs i ?j) ?j n) = mset (swapAt xs i ?j) \<and>
      (\<forall>k. n \<le> k \<and> k < length xs \<longrightarrow> heapDown key (swapAt xs i ?j) ?j n ! k = swapAt xs i ?j ! k)" by simp
    moreover have "swapAt xs i ?j ! k = xs ! k" if "n \<le> k" "k < length xs" for k
      using that lt j n by (simp add: nth_swapAt)
    ultimately show ?thesis using False lt by (subst (1 2) heapDown_unfold) (simp add: mset_swapAt)
  qed
qed

lemma rising_stop:
  assumes "rising key xs j" "0 < j \<Longrightarrow> key (xs ! par j) \<le> key (xs ! j)"
  shows "heapOrdered key xs"
  using assms unfolding rising_def heapOrdered_def heapFrom_def by metis

lemma rising_step:
  assumes r: "rising key xs j" and j: "0 < j" "j < length xs" and lt: "key (xs ! j) < key (xs ! par j)"
  shows "rising key (swapAt xs (par j) j) (par j)"
proof -
  let ?i = "par j"
  have i: "?i < j" using par_less [OF j(1)] .
  have nth: "swapAt xs ?i j ! k = (if k = ?i then xs ! j else if k = j then xs ! ?i else xs ! k)" if "k < length xs" for k
    using that i j by (intro nth_swapAt) auto
  have order: "key (xs ! par k) \<le> key (xs ! k)" if "0 < k" "k < length xs" "k \<noteq> j" for k
    using r that unfolding rising_def by blast
  have below: "key (xs ! ?i) \<le> key (xs ! k)" if "0 < k" "k < length xs" "par k = j" for k
    using r that j unfolding rising_def by blast
  show ?thesis unfolding rising_def length_swapAt
  proof (intro conjI allI impI)
    fix k assume k: "0 < k \<and> k < length xs \<and> k \<noteq> ?i"
    then have p: "par k < k" "par k < length xs" using par_less [of k] by auto
    show "key (swapAt xs ?i j ! par k) \<le> key (swapAt xs ?i j ! k)"
      using order [of k] below [of k] lt k p nth [of k] nth [of "par k"] i by (auto split: if_splits)
  next
    fix k assume k: "0 < k \<and> k < length xs \<and> par k = ?i \<and> 0 < ?i"
    have p: "par ?i < ?i" using k par_less by blast
    have "key (xs ! par ?i) \<le> key (xs ! ?i)" using order [of ?i] k i j by simp
    moreover have "key (xs ! ?i) \<le> key (xs ! k)" if "k \<noteq> j" using order [of k] k that by simp
    moreover have "k \<noteq> ?i" using k par_less [of k] by auto
    ultimately show "key (swapAt xs ?i j ! par ?i) \<le> key (swapAt xs ?i j ! k)"
      using nth [of k] nth [of "par ?i"] k p i j by (auto intro: order_trans)
  qed
qed

lemma heapUp_ok:
  assumes "j < length xs" "rising key xs j"
  shows "heapOrdered key (heapUp key xs j) \<and> mset (heapUp key xs j) = mset xs"
  using assms
proof (induction key xs j rule: heapUp.induct)
  case (1 key xs j)
  have eq: "(j - 1) div 2 = par j" by (simp add: par_def)
  show ?case
  proof (cases "par j = j \<or> \<not> key (xs ! j) < key (xs ! par j)")
    case True
    then have "0 < j \<Longrightarrow> key (xs ! par j) \<le> key (xs ! j)" using par_less [of j] by auto
    then have "heapOrdered key xs" using rising_stop [OF "1.prems"(2)] by blast
    then show ?thesis using True eq by (subst (1 2) heapUp.simps) (simp add: Let_def)
  next
    case False
    then have j: "0 < j" by (auto simp: par_def)
    have i: "par j < length xs" using par_less [OF j] "1.prems"(1) by simp
    have "heapOrdered key (heapUp key (swapAt xs (par j) j) (par j)) \<and>
      mset (heapUp key (swapAt xs (par j) j) (par j)) = mset (swapAt xs (par j) j)"
      using "1.IH" [OF refl] False eq i rising_step [OF "1.prems"(2) j "1.prems"(1)] by simp
    then show ?thesis using False eq i "1.prems"(1) by (subst (1 2) heapUp.simps) (simp add: Let_def mset_swapAt)
  qed
qed

section \<open>The operations keep the order\<close>

lemma heapOrdered_root:
  assumes "heapFrom key xs 0 n" "k < n" shows "key (xs ! 0) \<le> key (xs ! k)"
  using assms(2)
proof (induction k rule: less_induct)
  case (less k)
  show ?case
  proof (cases "k = 0")
    case False
    then have "key (xs ! 0) \<le> key (xs ! par k)" using less par_less [of k] by auto
    also have "\<dots> \<le> key (xs ! k)" using assms(1) less.prems False unfolding heapFrom_def by simp
    finally show ?thesis .
  qed simp
qed

lemma heapInit_loop:
  "heapFrom key xs m (length xs) \<Longrightarrow> m \<le> length xs div 2 \<Longrightarrow>
   (let h = foldl (\<lambda>h i. heapDown key h i (length xs)) xs (rev [0 ..< m]) in heapFrom key h 0 (length xs) \<and> mset h = mset xs)"
proof (induction m arbitrary: xs)
  case (Suc m)
  have i: "m < length xs" using Suc.prems(2) by linarith
  let ?h = "heapDown key xs m (length xs)"
  have "sinking key xs m (length xs) m"
    using Suc.prems(1) unfolding sinking_def heapFrom_def by (auto dest: par_less)
  then have h: "heapFrom key ?h m (length xs)" using heapDown_ok [of "length xs" xs m m key] i by simp
  have ms: "mset ?h = mset xs" using heapDown_keeps [of "length xs" xs key m] i by simp
  then have len: "length ?h = length xs" by (metis size_mset)
  have "heapFrom key ?h m (length ?h)" "m \<le> length ?h div 2" using h len Suc.prems(2) by simp_all
  from Suc.IH [OF this] show ?case using len ms by (simp add: Let_def)
qed simp

lemma heapInit_ok: "heapOrdered key (heapInit key xs) \<and> mset (heapInit key xs) = mset xs"
proof -
  have "\<not> k < length xs" if "0 < k" "length xs div 2 \<le> par k" for k
    using that unfolding par_def by linarith
  then have "heapFrom key xs (length xs div 2) (length xs)"
    unfolding heapFrom_def by blast
  from heapInit_loop [OF this order_refl] show ?thesis
    unfolding heapInit_def heapOrdered_def Let_def by (metis size_mset)
qed

lemma heapPush_ok:
  assumes "heapOrdered key h"
  shows "heapOrdered key (heapPush key x h) \<and> mset (heapPush key x h) = add_mset x (mset h)"
proof -
  have "par k \<noteq> length h" if "0 < k" "k < Suc (length h)" for k using par_less [of k] that by simp
  then have "rising key (h @ [x]) (length h)"
    using assms unfolding rising_def heapOrdered_def heapFrom_def
    by (auto simp: nth_append dest: par_less)
  then show ?thesis using heapUp_ok [of "length h" "h @ [x]" key] by (simp add: heapPush_def)
qed

lemma heapPop_ok:
  assumes "heapOrdered key h" "h \<noteq> []"
  shows "\<exists>x h'. heapPop key h = Some (x, h') \<and> heapOrdered key h' \<and> mset h = add_mset x (mset h') \<and>
    (\<forall>y \<in> set h. key x \<le> key y)"
proof -
  let ?n = "length h - 1" let ?s = "swapAt h 0 ?n" let ?d = "heapDown key ?s 0 ?n"
  have n: "?n < length h" using assms(2) by simp
  have nth: "?s ! k = (if k = 0 then h ! ?n else if k = ?n then h ! 0 else h ! k)" if "k < length h" for k
    using that n by (intro nth_swapAt) auto
  have "sinking key ?s 0 ?n 0"
    using assms(1) nth unfolding sinking_def heapOrdered_def heapFrom_def by (auto dest: par_less)
  then have d: "heapFrom key ?d 0 ?n" using heapDown_ok [of ?n ?s 0 0 key] by simp
  have ms: "mset ?d = mset h"
    using heapDown_keeps [of ?n ?s key 0] mset_swapAt [of 0 h ?n] n assms(2) by (cases "?n = 0") auto
  then have len: "length ?d = length h" by (metis size_mset)
  then have ne: "?d \<noteq> []" using assms(2) by auto
  have last: "last ?d = h ! 0"
    using heapDown_keeps [of ?n ?s key 0] n nth [of ?n] len ne by (cases "?n = 0") (auto simp: last_conv_nth)
  have "heapOrdered key (butlast ?d)"
    using d len unfolding heapOrdered_def heapFrom_def by (auto simp: nth_butlast dest: par_less)
  moreover have "mset h = add_mset (last ?d) (mset (butlast ?d))"
    using ms ne by (cases ?d rule: rev_cases) auto
  moreover have "key (last ?d) \<le> key y" if "y \<in> set h" for y
    using that heapOrdered_root [of key h "length h"] assms(1) last unfolding heapOrdered_def
    by (metis in_set_conv_nth)
  ultimately show ?thesis using assms(2) by (simp add: heapPop_def Let_def)
qed

interpretation hq: priority_queue key "heapOrdered key" mset "heapInit key" "heapPush key" "heapPop key"
  for key :: "'a \<Rightarrow> 'k::linorder"
proof
  fix q x y and q' :: "'a list"
  assume h: "heapOrdered key q"
  show "mset q = {#} \<Longrightarrow> heapPop key q = None" by (simp add: heapPop_def)
  show "mset q \<noteq> {#} \<Longrightarrow> \<exists>x q'. heapPop key q = Some (x, q')" by (simp add: heapPop_def Let_def)
  assume p: "heapPop key q = Some (x, q')"
  then have "q \<noteq> []" by (auto simp: heapPop_def)
  from heapPop_ok [OF h this] p
  show "heapOrdered key q'" "mset q = add_mset x (mset q')" "y \<in># mset q \<Longrightarrow> key x \<le> key y" by auto
qed (auto simp: heapInit_ok heapPush_ok)

text \<open>The elements of a heap.\<close>

abbreviation heapHolds :: "('a \<Rightarrow> 'k::linorder) \<Rightarrow> 'a list \<Rightarrow> 'a set \<Rightarrow> bool" where
  "heapHolds key \<equiv> holdsSet (heapOrdered key) mset"

end
