(* ===== verification/Tsort.thy ===== *)
theory Tsort
  imports Go_Input Go_Heap
begin

text \<open>
  \<open>tsort\<close> (\<open>src/cmds/tsort/tsort.go\<close>): the scanner with its split function, the graph, the depth-first search for a
  loop, Kahn's algorithm over a heap of ready nodes, and the run from the parsed options on. An index out of range is
  \<^term>\<open>None\<close>, and so is a loop that does not end.
\<close>

section \<open>Reading items\<close>

definition isSeparator :: "char \<Rightarrow> bool" where
  "isSeparator b = (b = SP \<or> b = TAB \<or> b = NL)"

text \<open>\<open>splitToken\<close>: how far to advance, and the token found, if any.\<close>

definition splitToken :: "string \<Rightarrow> bool \<Rightarrow> nat \<times> string option" where
  "splitToken data atEOF =
     (let start = length (takeWhile isSeparator data);
          i = start + length (takeWhile (\<lambda>b. \<not> isSeparator b) (drop start data))
      in if i < length data then (i + 1, Some (take (i - start) (drop start data)))
         else if atEOF then (if start = length data then (length data, None) else (length data, Some (drop start data)))
         else (start, None))"

text \<open>
  \<open>bufio.Scanner\<close> with a buffer of at most 16 MiB: a token is cut from what is buffered; otherwise more is read, and
  after the last read what is left is split as the end of the input. Without room in the buffer the scan fails.
\<close>

datatype scanError = TooLong | ReadFail string

definition maxBuffer :: nat where
  "maxBuffer = 16 * 1024 * 1024"

lemma splitToken_advances: "splitToken data eof = (adv, Some tok) \<Longrightarrow> 0 < adv \<and> data \<noteq> []"
  by (auto simp: splitToken_def Let_def split: if_splits)

function drainTokens :: "string \<Rightarrow> string list" where
  "drainTokens buf =
     (case splitToken buf True of
        (adv, Some tok) \<Rightarrow> tok # drainTokens (drop adv buf)
      | (adv, None) \<Rightarrow> [])"
  by pat_completeness auto
termination
  by (relation "measure length") (auto dest!: splitToken_advances [OF sym])

declare drainTokens.simps [simp del]

function scanTokens :: "string \<Rightarrow> string list \<Rightarrow> string option \<Rightarrow> string list \<times> scanError option" where
  "scanTokens buf chunks fail =
     (case splitToken buf False of
        (adv, Some tok) \<Rightarrow> (case scanTokens (drop adv buf) chunks fail of (toks, e) \<Rightarrow> (tok # toks, e))
      | (adv, None) \<Rightarrow>
          if length (drop adv buf) \<ge> maxBuffer then ([], Some TooLong)
          else (case chunks of
                  c # cs \<Rightarrow> scanTokens (drop adv buf @ c) cs fail
                | [] \<Rightarrow> (drainTokens (drop adv buf), map_option ReadFail fail)))"
  by pat_completeness auto
termination
  by (relation "measure (\<lambda>(buf, chunks, fail). length buf + length chunks + sum_list (map length chunks))")
     (auto dest!: splitToken_advances [OF sym])

declare scanTokens.simps [simp del]

section \<open>The graph\<close>

record graph =
  gIds :: "string \<rightharpoonup> nat"
  gNames :: "string list"
  gSucc :: "nat list list"
  gIndeg :: "int list"
  gDone :: "bool list"

definition newGraph :: graph where
  "newGraph = \<lparr>gIds = Map.empty, gNames = [], gSucc = [], gIndeg = [], gDone = []\<rparr>"

definition addNode :: "graph \<Rightarrow> string \<Rightarrow> nat \<times> graph" where
  "addNode g name =
     (case gIds g name of
        Some i \<Rightarrow> (i, g)
      | None \<Rightarrow>
          let i = length (gNames g)
          in (i, g\<lparr>gIds := (gIds g)(name \<mapsto> i), gNames := gNames g @ [name], gSucc := gSucc g @ [[]],
                  gIndeg := gIndeg g @ [0], gDone := gDone g @ [False]\<rparr>))"

definition addEdge :: "graph \<Rightarrow> string \<Rightarrow> string \<Rightarrow> graph option" where
  "addEdge g a b =
     (let (u, g1) = addNode g a; (v, g2) = addNode g1 b in
      do { su \<leftarrow> at (gSucc g2) u;
           d \<leftarrow> at (gIndeg g2) v;
           Some (g2\<lparr>gSucc := (gSucc g2)[u := su @ [v]], gIndeg := (gIndeg g2)[v := d + 1]\<rparr>) })"

definition removeEdge :: "graph \<Rightarrow> nat \<Rightarrow> nat \<Rightarrow> graph option" where
  "removeEdge g u v =
     do { su \<leftarrow> at (gSucc g) u;
          if v \<in> set su
          then do { d \<leftarrow> at (gIndeg g) v;
                    Some (g\<lparr>gSucc := (gSucc g)[u := remove1 v su], gIndeg := (gIndeg g)[v := d - 1]\<rparr>) }
          else Some g }"

section \<open>Looking for a loop\<close>

datatype colour = White | Grey | Black

datatype scanResult = Exhausted | Descend nat | Closed nat

text \<open>The inner loop over the successors of a frame that are left; the second component is the index it stops at.\<close>

fun scanFrame :: "graph \<Rightarrow> colour list \<Rightarrow> nat list \<Rightarrow> nat \<Rightarrow> (scanResult \<times> nat) option" where
  "scanFrame g state [] idx = Some (Exhausted, idx)"
| "scanFrame g state (nxt # rest) idx =
     do { d \<leftarrow> at (gDone g) nxt;
          c \<leftarrow> at state nxt;
          if d \<or> c = Black then scanFrame g state rest (idx + 1)
          else if c = Grey then Some (Closed nxt, idx + 1)
          else Some (Descend nxt, idx + 1) }"

text \<open>The stack of frames, the top first.\<close>

definition cycleOf :: "(nat \<times> nat) list \<Rightarrow> nat \<Rightarrow> nat list" where
  "cycleOf stack nxt = dropWhile (\<lambda>i. i \<noteq> nxt) (map fst (rev stack))"

lemma scanFrame_idx: "scanFrame g state xs idx = Some (r, idx') \<Longrightarrow> r \<noteq> Exhausted \<Longrightarrow> idx < idx' \<and> idx' \<le> idx + length xs"
  by (induction xs arbitrary: idx) (fastforce simp: bind_eq_Some_conv split: if_splits)+

lemma scanFrame_white: "scanFrame g state xs idx = Some (Descend v, idx') \<Longrightarrow> v < length state \<and> state ! v = White"
  by (induction xs arbitrary: idx) (auto simp: bind_eq_Some_conv at_eq_Some_iff split: if_splits intro: colour.exhaust)

lemma count_white_less:
  "v < length state \<Longrightarrow> state ! v = White \<Longrightarrow> count_list (state[v := Grey]) White < count_list state White"
proof (induction state arbitrary: v)
  case (Cons c cs)
  then show ?case by (cases v) auto
qed simp

lemma count_white_le: "c \<noteq> White \<Longrightarrow> count_list (state[v := c]) White \<le> count_list state White"
proof (induction state arbitrary: v)
  case (Cons x xs)
  then show ?case by (cases v) (auto simp: le_SucI)
qed simp

definition stackWork :: "graph \<Rightarrow> (nat \<times> nat) list \<Rightarrow> nat" where
  "stackWork g stack = sum_list (map (\<lambda>(i, idx). Suc (length (gSucc g ! i) - idx)) stack)"

function dfsLoop :: "graph \<Rightarrow> colour list \<Rightarrow> (nat \<times> nat) list \<Rightarrow> (nat list + colour list) option" where
  "dfsLoop g state [] = Some (Inr state)"
| "dfsLoop g state ((i, idx) # stack) =
     (case at (gSucc g) i of
        None \<Rightarrow> None
      | Some su \<Rightarrow>
          (case scanFrame g state (drop idx su) idx of
             None \<Rightarrow> None
           | Some (Closed nxt, idx') \<Rightarrow> Some (Inl (cycleOf ((i, idx') # stack) nxt))
           | Some (Descend nxt, idx') \<Rightarrow> dfsLoop g (state[nxt := Grey]) ((nxt, 0) # (i, idx') # stack)
           | Some (Exhausted, idx') \<Rightarrow> dfsLoop g (state[i := Black]) stack))"
  by pat_completeness auto
termination
proof (relation "measures [\<lambda>(g, state, stack). count_list state White, \<lambda>(g, state, stack). stackWork g stack]", goal_cases)
  case (2 g state i idx stack su p r idx')
  then show ?case using count_white_le [of Black state i] by (auto simp: stackWork_def)
next
  case (3 g state i idx stack su p r idx' nxt)
  then have "nxt < length state \<and> state ! nxt = White" by (intro scanFrame_white) auto
  then show ?case using count_white_less by auto
qed simp

fun findFrom :: "graph \<Rightarrow> colour list \<Rightarrow> nat list \<Rightarrow> nat list option" where
  "findFrom g state [] = Some []"
| "findFrom g state (start # rest) =
     do { d \<leftarrow> at (gDone g) start;
          c \<leftarrow> at state start;
          if d \<or> c \<noteq> White then findFrom g state rest
          else do { r \<leftarrow> dfsLoop g (state[start := Grey]) [(start, 0)];
                    case r of Inl cyc \<Rightarrow> Some cyc | Inr state' \<Rightarrow> findFrom g state' rest } }"

definition findCycle :: "graph \<Rightarrow> nat list option" where
  "findCycle g = findFrom g (replicate (length (gNames g)) White) [0 ..< length (gNames g)]"

section \<open>Kahn's algorithm\<close>

definition nodeKey :: "graph \<Rightarrow> nat \<Rightarrow> string" where
  "nodeKey g i = gNames g ! i"

text \<open>The loop over the successors of a node that has been written.\<close>

fun relax :: "graph \<Rightarrow> nat list \<Rightarrow> nat list \<Rightarrow> (graph \<times> nat list) option" where
  "relax g h [] = Some (g, h)"
| "relax g h (s # ss) =
     do { d \<leftarrow> at (gDone g) s;
          if d then relax g h ss
          else do { k \<leftarrow> at (gIndeg g) s;
                    relax (g\<lparr>gIndeg := (gIndeg g)[s := k - 1]\<rparr>)
                      (if k - 1 = 0 then heapPush (nodeKey g) s h else h) ss } }"

record topoState =
  tGraph :: graph
  tHeap :: "nat list"
  tOut :: "string list"
  tErr :: "string list"
  tCycles :: nat
  tRemaining :: int

text \<open>The step on a stall: report the loop, delete its closing edge, and queue the node that becomes ready.\<close>

definition breakCycle :: "string \<Rightarrow> nat list \<Rightarrow> topoState \<Rightarrow> topoState option" where
  "breakCycle name cyc t =
     do { members \<leftarrow> those (map (at (gNames (tGraph t))) cyc);
          let v = hd cyc;
          g' \<leftarrow> removeEdge (tGraph t) (last cyc) v;
          d \<leftarrow> at (gIndeg g') v;
          Some (t\<lparr>tGraph := g',
                  tHeap := (if d = 0 then heapPush (nodeKey g') v (tHeap t) else tHeap t),
                  tErr := tErr t @ (''tsort: '' @ name @ '': input contains a loop:'') # map ((@) ''tsort: '') members,
                  tCycles := tCycles t + 1\<rparr>) }"

text \<open>The step on a ready node: write the least one and relax its successors.\<close>

definition popReady :: "topoState \<Rightarrow> topoState option" where
  "popReady t =
     do { (i, h) \<leftarrow> heapPop (nodeKey (tGraph t)) (tHeap t);
          nm \<leftarrow> at (gNames (tGraph t)) i;
          d \<leftarrow> at (gDone (tGraph t)) i;
          su \<leftarrow> at (gSucc (tGraph t)) i;
          (g', h') \<leftarrow> relax ((tGraph t)\<lparr>gDone := (gDone (tGraph t))[i := True]\<rparr>) h su;
          Some (t\<lparr>tGraph := g', tHeap := h', tOut := tOut t @ [nm], tRemaining := tRemaining t - 1\<rparr>) }"

text \<open>The branch the source calls impossible: everything left is written in the order of the input.\<close>

definition bailOut :: "topoState \<Rightarrow> topoState" where
  "bailOut t =
     t\<lparr>tOut := tOut t @ map fst (filter (\<lambda>(nm, d). \<not> d) (zip (gNames (tGraph t)) (gDone (tGraph t)))), tCycles := 1\<rparr>"

partial_function (option) topoLoop :: "string \<Rightarrow> topoState \<Rightarrow> topoState option" where
  "topoLoop name t =
     (if tRemaining t > 0 then
        (if tHeap t = [] then
           (case findCycle (tGraph t) of
              None \<Rightarrow> None
            | Some cyc \<Rightarrow>
                if cyc = [] then Some (bailOut t)
                else (case breakCycle name cyc t of None \<Rightarrow> None | Some t' \<Rightarrow> topoLoop name t'))
         else (case popReady t of None \<Rightarrow> None | Some t' \<Rightarrow> topoLoop name t'))
      else Some t)"

declare topoLoop.simps [code]

definition topoInit :: "graph \<Rightarrow> topoState" where
  "topoInit g =
     \<lparr>tGraph = g,
      tHeap = heapInit (nodeKey g) (filter (\<lambda>i. gIndeg g ! i = 0) [0 ..< length (gNames g)]),
      tOut = [], tErr = [], tCycles = 0, tRemaining = int (length (gNames g))\<rparr>"

definition topoSort :: "string \<Rightarrow> graph \<Rightarrow> topoState option" where
  "topoSort name g = topoLoop name (topoInit g)"

section \<open>The run\<close>

definition maxCycleExit :: int where
  "maxCycleExit = 124"

text \<open>The loop over pairs of items.\<close>

datatype loadResult = Loaded graph | OddItems | LoadError scanError

fun loadPairs :: "graph \<Rightarrow> string list \<Rightarrow> scanError option \<Rightarrow> loadResult option" where
  "loadPairs g [] e = Some (case e of None \<Rightarrow> Loaded g | Some err \<Rightarrow> LoadError err)"
| "loadPairs g [a] e = Some (case e of None \<Rightarrow> OddItems | Some err \<Rightarrow> LoadError err)"
| "loadPairs g (a # b # rest) e =
     (if a = b then loadPairs (snd (addNode g a)) rest e
      else (case addEdge g a b of None \<Rightarrow> None | Some g' \<Rightarrow> loadPairs g' rest e))"

definition scanErrorText :: "scanError \<Rightarrow> string" where
  "scanErrorText e = (case e of TooLong \<Rightarrow> ''bufio.Scanner: token too long'' | ReadFail m \<Rightarrow> m)"

definition tsortMsg :: "string \<Rightarrow> string \<Rightarrow> string" where
  "tsortMsg name msg = ''tsort: '' @ name @ '': '' @ msg"

definition cycleStatus :: "bool \<Rightarrow> nat \<Rightarrow> int" where
  "cycleStatus warn cycles =
     (if cycles = 0 then 0
      else if warn then (if int cycles > maxCycleExit then maxCycleExit else int cycles)
      else 1)"

text \<open>\<open>runWithOpen\<close> from the parsed flag and operands on; \<open>flush\<close> is the error of writing the output out.\<close>

definition tsortSource :: "bool \<Rightarrow> string \<Rightarrow> stream \<Rightarrow> string option \<Rightarrow> outcome option" where
  "tsortSource warn name src flush =
     (let (toks, e) = scanTokens [] (stChunks src) (stFail src);
          closeMsg = (case stClose src of None \<Rightarrow> [] | Some c \<Rightarrow> [tsortMsg name c])
      in case loadPairs newGraph toks e of
           None \<Rightarrow> None
         | Some (LoadError err) \<Rightarrow> Some (failed (unlines [tsortMsg name (scanErrorText err)]) 1)
         | Some OddItems \<Rightarrow> Some (failed (unlines (tsortMsg name ''input contains an odd number of tokens'' # closeMsg)) 1)
         | Some (Loaded g) \<Rightarrow>
             if closeMsg \<noteq> [] then Some (failed (unlines closeMsg) 1)
             else (case topoSort name g of
                     None \<Rightarrow> None
                   | Some t \<Rightarrow>
                       (case flush of
                          Some w \<Rightarrow> Some \<lparr>stdout = unlines (tOut t), stderr = unlines (tErr t @ [''tsort: write failed: '' @ w]), status = 1\<rparr>
                        | None \<Rightarrow> Some \<lparr>stdout = unlines (tOut t), stderr = unlines (tErr t), status = cycleStatus warn (tCycles t)\<rparr>)))"

definition tsort :: "bool \<Rightarrow> string list \<Rightarrow> runDir \<Rightarrow> stream \<Rightarrow> (string \<Rightarrow> string + stream) \<Rightarrow> string option \<Rightarrow> outcome option" where
  "tsort warn operands rc stdin openInput flush =
     (if length operands > 1 then Some (UsageError ''tsort'' (''extra operand '' @ quoted (operands ! 1)))
      else let name = (case operands of [] \<Rightarrow> ''-'' | op # _ \<Rightarrow> op) in
        if name = ''-'' then tsortSource warn name (stdin\<lparr>stClose := None\<rparr>) flush
        else (case openInput (rcPath rc name) of
                Inl e \<Rightarrow> Some (failed (unlines [tsortMsg name e]) 1)
              | Inr src \<Rightarrow> tsortSource warn name src flush))"

end
