(* ===== verification/Tsort_Cycle.thy ===== *)
theory Tsort_Cycle
  imports Tsort
begin

text \<open>
  The depth-first search of \<open>tsort\<close>: on a well-formed graph \<open>findCycle\<close> returns, finds a loop among the nodes not yet
  written whenever there is one, and what it returns is a loop.
\<close>

abbreviation size_of :: "graph \<Rightarrow> nat" where
  "size_of g \<equiv> length (gNames g)"

definition wfGraph :: "graph \<Rightarrow> bool" where
  "wfGraph g \<longleftrightarrow> length (gSucc g) = size_of g \<and> length (gIndeg g) = size_of g \<and> length (gDone g) = size_of g \<and>
     (\<forall>su \<in> set (gSucc g). \<forall>v \<in> set su. v < size_of g)"

text \<open>The edges between nodes that have not been written.\<close>

definition liveRel :: "graph \<Rightarrow> (nat \<times> nat) set" where
  "liveRel g = {(u, v). u < size_of g \<and> v \<in> set (gSucc g ! u) \<and> \<not> gDone g ! u \<and> \<not> gDone g ! v}"

definition isLoop :: "('a \<times> 'a) set \<Rightarrow> 'a list \<Rightarrow> bool" where
  "isLoop R c \<longleftrightarrow> c \<noteq> [] \<and> successively (\<lambda>u v. (u, v) \<in> R) c \<and> (last c, hd c) \<in> R"

lemma wfGraph_succ: "wfGraph g \<Longrightarrow> i < size_of g \<Longrightarrow> v \<in> set (gSucc g ! i) \<Longrightarrow> v < size_of g"
  unfolding wfGraph_def by (metis nth_mem)

lemma wfGraph_lengths:
  "wfGraph g \<Longrightarrow> length (gSucc g) = size_of g" "wfGraph g \<Longrightarrow> length (gDone g) = size_of g"
  "wfGraph g \<Longrightarrow> length (gIndeg g) = size_of g"
  by (auto simp: wfGraph_def)

section \<open>The invariant of the search\<close>

definition settled :: "graph \<Rightarrow> colour list \<Rightarrow> nat \<Rightarrow> bool" where
  "settled g state v \<longleftrightarrow> gDone g ! v \<or> state ! v = Black"

text \<open>Each frame has an edge to the frame above it, and its successors before the index are settled or are that frame.\<close>

fun frames :: "graph \<Rightarrow> colour list \<Rightarrow> nat option \<Rightarrow> (nat \<times> nat) list \<Rightarrow> bool" where
  "frames g state upper [] = True"
| "frames g state upper ((i, idx) # stack) =
     (idx \<le> length (gSucc g ! i) \<and>
      (\<forall>j < idx. settled g state (gSucc g ! i ! j) \<or> upper = Some (gSucc g ! i ! j)) \<and>
      (\<forall>a. upper = Some a \<longrightarrow> a \<in> set (gSucc g ! i)) \<and>
      frames g state (Some i) stack)"

definition coloured :: "graph \<Rightarrow> colour list \<Rightarrow> (nat \<times> nat) list \<Rightarrow> bool" where
  "coloured g state stack \<longleftrightarrow>
     length state = size_of g \<and> distinct (map fst stack) \<and> (\<forall>i \<in> set (map fst stack). i < size_of g) \<and>
     (\<forall>i < size_of g. (state ! i = Grey \<longleftrightarrow> i \<in> set (map fst stack)) \<and> (state ! i \<noteq> White \<longrightarrow> \<not> gDone g ! i))"

definition closedBlack :: "graph \<Rightarrow> colour list \<Rightarrow> bool" where
  "closedBlack g state \<longleftrightarrow>
     (\<forall>u < size_of g. state ! u = Black \<longrightarrow> (\<forall>v \<in> set (gSucc g ! u). settled g state v)) \<and>
     acyclic {(u, v) \<in> liveRel g. state ! u = Black \<and> state ! v = Black}"

definition searching :: "graph \<Rightarrow> colour list \<Rightarrow> (nat \<times> nat) list \<Rightarrow> bool" where
  "searching g state stack \<longleftrightarrow> coloured g state stack \<and> frames g state None stack \<and> closedBlack g state"

lemma frames_mono:
  "frames g state upper stack \<Longrightarrow> (\<And>v. settled g state v \<Longrightarrow> settled g state' v) \<Longrightarrow> frames g state' upper stack"
  by (induction g state upper stack rule: frames.induct) auto

lemma frames_pop:
  assumes "frames g state (Some i) stack" "i < length state"
  shows "frames g (state[i := Black]) None stack"
proof (cases stack)
  case (Cons f rest)
  obtain k idx where f: "f = (k, idx)" by (cases f)
  have m: "settled g state v \<Longrightarrow> settled g (state[i := Black]) v" for v
    by (cases "v = i") (auto simp: settled_def assms(2))
  have "settled g (state[i := Black]) i" using assms(2) by (simp add: settled_def)
  then show ?thesis using assms Cons f m frames_mono [of g state "Some k" rest "state[i := Black]"] by auto
qed simp

lemma frames_successively:
  assumes "frames g state upper stack" "\<forall>i \<in> set (map fst stack). i < size_of g \<and> \<not> gDone g ! i"
  shows "successively (\<lambda>v u. (u, v) \<in> liveRel g) (map fst stack)"
  using assms
proof (induction g state upper stack rule: frames.induct)
  case (2 g state upper i idx stack)
  then show ?case by (cases stack) (auto simp: liveRel_def successively_Cons)
qed simp

lemma coloured_stack: "coloured g state stack \<Longrightarrow> \<forall>i \<in> set (map fst stack). i < size_of g \<and> \<not> gDone g ! i"
  unfolding coloured_def by (metis colour.distinct(1))

lemma acyclic_add_source:
  assumes "acyclic R" "R' \<subseteq> R \<union> {i} \<times> UNIV" "i \<notin> Range R'" shows "acyclic R'"
proof (rule acyclicI, intro allI notI)
  fix x assume x: "(x, x) \<in> R'\<^sup>+"
  have step: "(x, y) \<in> R\<^sup>+" if "(x, y) \<in> R'\<^sup>+" "x \<noteq> i" for x y
    using that
  proof (induction rule: trancl_induct)
    case (base y)
    then show ?case using assms(2) by blast
  next
    case (step y z)
    then have "y \<noteq> i" using assms(3) by (meson Range.intros tranclD2)
    then show ?case using step assms(2) by (meson Un_iff mem_Sigma_iff singletonD subsetD trancl.trancl_into_trancl)
  qed
  have "x \<noteq> i" using x assms(3) by (meson Range.intros tranclD2)
  then show False using step [OF x] assms(1) unfolding acyclic_def by blast
qed

section \<open>One step of the search\<close>

lemma scanFrame_spec:
  assumes "\<forall>v \<in> set xs. v < length (gDone g) \<and> v < length state"
  shows "\<exists>r. scanFrame g state xs idx = Some r \<and>
    (case r of
       (Exhausted, idx') \<Rightarrow> \<forall>v \<in> set xs. settled g state v
     | (Descend v, idx') \<Rightarrow> \<exists>ys zs. xs = ys @ v # zs \<and> idx' = idx + length ys + 1 \<and> (\<forall>w \<in> set ys. settled g state w) \<and>
         \<not> gDone g ! v \<and> state ! v = White
     | (Closed v, idx') \<Rightarrow> v \<in> set xs \<and> \<not> gDone g ! v \<and> state ! v = Grey)"
  using assms
proof (induction xs arbitrary: idx)
  case (Cons x xs)
  have x: "x < length (gDone g)" "x < length state" using Cons.prems by auto
  consider "settled g state x" | "\<not> settled g state x" "state ! x = Grey" | "\<not> settled g state x" "state ! x = White"
    by (cases "state ! x") (auto simp: settled_def)
  then show ?case
  proof cases
    case 1
    obtain r where r: "scanFrame g state xs (idx + 1) = Some r" and spec: "case r of
       (Exhausted, idx') \<Rightarrow> \<forall>v \<in> set xs. settled g state v
     | (Descend v, idx') \<Rightarrow> \<exists>ys zs. xs = ys @ v # zs \<and> idx' = idx + 1 + length ys + 1 \<and> (\<forall>w \<in> set ys. settled g state w) \<and>
         \<not> gDone g ! v \<and> state ! v = White
     | (Closed v, idx') \<Rightarrow> v \<in> set xs \<and> \<not> gDone g ! v \<and> state ! v = Grey"
      using Cons.IH [of "idx + 1"] Cons.prems by auto
    have eq: "scanFrame g state (x # xs) idx = Some r" using r x 1 by (auto simp: settled_def)
    obtain res idx' where res: "r = (res, idx')" by (cases r)
    show ?thesis
    proof (cases res)
      case (Descend v)
      then obtain ys zs where "xs = ys @ v # zs" "idx' = idx + 1 + length ys + 1" "\<forall>w \<in> set ys. settled g state w"
        "\<not> gDone g ! v \<and> state ! v = White" using spec res by auto
      then have "x # xs = (x # ys) @ v # zs \<and> idx' = idx + length (x # ys) + 1 \<and> (\<forall>w \<in> set (x # ys). settled g state w)"
        using 1 by simp
      then show ?thesis using eq \<open>\<not> gDone g ! v \<and> state ! v = White\<close> unfolding res Descend
        by (intro exI conjI) (assumption, unfold prod.case scanResult.case, blast)
    qed (use eq res spec 1 in auto)
  next
    case 2
    then show ?thesis using x by (simp add: settled_def)
  next
    case 3
    have "scanFrame g state (x # xs) idx = Some (Descend x, idx + 1)" using 3 x by (simp add: settled_def)
    moreover have "x # xs = [] @ x # xs \<and> idx + 1 = idx + length ([] :: nat list) + 1 \<and>
      (\<forall>w \<in> set []. settled g state w) \<and> \<not> gDone g ! x \<and> state ! x = White" using 3 by (simp add: settled_def)
    ultimately show ?thesis by (intro exI conjI) (assumption, unfold prod.case scanResult.case, blast)
  qed
qed simp

text \<open>The node on upper is finished.\<close>

lemma searching_finish:
  assumes g: "wfGraph g" and s: "searching g state ((i, idx) # stack)" and all: "\<forall>v \<in> set (gSucc g ! i). settled g state v"
  shows "searching g (state[i := Black]) stack"
proof -
  let ?state = "state[i := Black]"
  have c: "coloured g state ((i, idx) # stack)" and f: "frames g state (Some i) stack" and b: "closedBlack g state"
    using s by (auto simp: searching_def)
  have i: "i < length state" "i < size_of g" "state ! i = Grey" "\<not> gDone g ! i" "length state = size_of g"
    using c by (auto simp: coloured_def)
  have "coloured g ?state stack"
    using c i unfolding coloured_def by (auto simp: nth_list_update)
  moreover have "frames g ?state None stack" using frames_pop [OF f i(1)] .
  moreover have "closedBlack g ?state"
    unfolding closedBlack_def
  proof (intro conjI allI impI ballI)
    fix u v assume u: "u < size_of g" "?state ! u = Black" "v \<in> set (gSucc g ! u)"
    then have "settled g state v" using b all i by (cases "u = i") (auto simp: closedBlack_def)
    then show "settled g ?state v" using i by (cases "v = i") (auto simp: settled_def)
  next
    let ?R = "{(u, v) \<in> liveRel g. state ! u = Black \<and> state ! v = Black}"
    let ?R' = "{(u, v) \<in> liveRel g. ?state ! u = Black \<and> ?state ! v = Black}"
    have no: "(u, i) \<notin> ?R'" for u
    proof
      assume "(u, i) \<in> ?R'"
      then have u: "u < size_of g" "i \<in> set (gSucc g ! u)" "?state ! u = Black" by (auto simp: liveRel_def)
      then have "settled g state i" using b all i by (cases "u = i") (auto simp: closedBlack_def)
      then show False using i by (simp add: settled_def)
    qed
    have "acyclic ?R" using b by (simp add: closedBlack_def)
    moreover have "?R' \<subseteq> ?R \<union> {i} \<times> UNIV"
    proof
      fix p assume p: "p \<in> ?R'"
      obtain u v where uv: "p = (u, v)" by (cases p)
      then have "v \<noteq> i" using no p by blast
      then show "p \<in> ?R \<union> {i} \<times> UNIV" using p uv by (cases "u = i") auto
    qed
    moreover have "i \<notin> Range ?R'" using no by (metis (lifting) RangeE)
    ultimately show "acyclic ?R'" by (rule acyclic_add_source)
  qed
  ultimately show ?thesis by (simp add: searching_def)
qed

text \<open>Turning a white node grey changes nothing for the black ones.\<close>

lemma settled_grey: "v < length state \<Longrightarrow> state ! v = White \<Longrightarrow> settled g (state[v := Grey]) w = settled g state w"
  by (cases "w = v") (auto simp: settled_def)

lemma closedBlack_grey:
  assumes "closedBlack g state" "v < length state" "state ! v = White" shows "closedBlack g (state[v := Grey])"
proof -
  have "state[v := Grey] ! w = Black \<longleftrightarrow> state ! w = Black" for w using assms(2,3) by (cases "w = v") auto
  then show ?thesis using assms by (simp add: closedBlack_def settled_grey)
qed

text \<open>A white successor is entered.\<close>

lemma searching_descend:
  assumes g: "wfGraph g" and s: "searching g state ((i, idx) # stack)"
    and su: "drop idx (gSucc g ! i) = ys @ v # zs" "\<forall>w \<in> set ys. settled g state w" "\<not> gDone g ! v" "state ! v = White"
  shows "searching g (state[v := Grey]) ((v, 0) # (i, idx + length ys + 1) # stack)"
proof -
  let ?state = "state[v := Grey]" and ?su = "gSucc g ! i"
  have c: "coloured g state ((i, idx) # stack)" and b: "closedBlack g state" and f: "frames g state None ((i, idx) # stack)"
    using s by (auto simp: searching_def)
  have i: "i < size_of g" "state ! i = Grey" "length state = size_of g" using c by (auto simp: coloured_def)
  have idx: "idx \<le> length ?su" using f by simp
  have "v \<in> set (drop idx ?su)" using su(1) by simp
  then have v: "v \<in> set ?su" "v < size_of g" using wfGraph_succ [OF g i(1)] by (auto dest: in_set_dropD)
  have eq: "?su = take idx ?su @ ys @ v # zs" using su(1) by (metis append_take_drop_id)
  have len: "length ?su = idx + length ys + 1 + length zs"
    using idx by (subst eq) simp
  have st: "settled g ?state w = settled g state w" for w
    using settled_grey su(4) i v by simp
  have below: "settled g state (?su ! j) \<or> ?su ! j = v" if j: "j < idx + length ys + 1" for j
  proof -
    consider "j < idx" | "idx \<le> j" "j < idx + length ys" | "j = idx + length ys" using j by linarith
    then show ?thesis
    proof cases
      case 2
      then have lt: "j - idx < length ys" by linarith
      then have "?su ! j = ys ! (j - idx)" using idx 2 by (subst eq) (simp add: nth_append)
      then show ?thesis using su(2) lt by simp
    next
      case 3
      then show ?thesis using idx by (subst (2) eq) (simp add: nth_append)
    qed (use f in auto)
  qed
  have "coloured g ?state ((v, 0) # (i, idx + length ys + 1) # stack)"
    using c i v su(3,4) unfolding coloured_def by (auto simp: nth_list_update)
  moreover have "frames g ?state None ((v, 0) # (i, idx + length ys + 1) # stack)"
    using f below v len frames_mono [of g state "Some i" stack ?state] st by auto
  moreover have "closedBlack g ?state" using closedBlack_grey [OF b] i v su(4) by simp
  ultimately show ?thesis by (simp add: searching_def)
qed

text \<open>An edge to a grey node closes a loop.\<close>

lemma searching_closed:
  assumes s: "searching g state ((i, idx) # stack)" and v: "v \<in> set (gSucc g ! i)" "\<not> gDone g ! v" "state ! v = Grey" "v < size_of g"
  shows "isLoop (liveRel g) (cycleOf ((i, idx') # stack) v)"
proof -
  let ?ids = "rev (map fst ((i, idx) # stack))" and ?c = "cycleOf ((i, idx') # stack) v"
  have c: "coloured g state ((i, idx) # stack)" and f: "frames g state None ((i, idx) # stack)" using s by (auto simp: searching_def)
  have mem: "v \<in> set ?ids" using c v by (auto simp: coloured_def)
  have cyc: "?c = dropWhile (\<lambda>x. x \<noteq> v) ?ids" by (simp add: cycleOf_def rev_map)
  have ne: "?c \<noteq> []" using mem by (simp only: cyc dropWhile_eq_Nil_conv) auto
  have "successively (\<lambda>u v. (u, v) \<in> liveRel g) ?ids"
    using frames_successively [OF f coloured_stack [OF c]] by (simp only: successively_rev)
  moreover have "?ids = takeWhile (\<lambda>x. x \<noteq> v) ?ids @ ?c" using cyc by simp
  ultimately have "successively (\<lambda>u v. (u, v) \<in> liveRel g) ?c" by (metis successively_append_iff)
  moreover have "hd ?c = v" using hd_dropWhile [of "\<lambda>x. x \<noteq> v" ?ids] ne cyc by simp
  moreover have "last ?c = i" using \<open>?ids = _\<close> ne by (metis last_appendR last_rev list.sel(1) list.simps(9) fst_conv)
  moreover have "(i, v) \<in> liveRel g" using c v by (auto simp: liveRel_def coloured_def)
  ultimately show ?thesis using ne by (simp add: isLoop_def)
qed

section \<open>The whole search\<close>

definition searched :: "graph \<Rightarrow> colour list \<Rightarrow> nat list + colour list \<Rightarrow> bool" where
  "searched g state r =
     (case r of Inl c \<Rightarrow> isLoop (liveRel g) c
      | Inr state' \<Rightarrow> searching g state' [] \<and> (\<forall>i < size_of g. state ! i \<noteq> White \<longrightarrow> state' ! i \<noteq> White))"

lemma searched_mono:
  "searched g state' r \<Longrightarrow> (\<And>i. i < size_of g \<Longrightarrow> state ! i \<noteq> White \<Longrightarrow> state' ! i \<noteq> White) \<Longrightarrow> searched g state r"
  by (auto simp: searched_def split: sum.splits)

lemma nonwhite_update: "state ! k \<noteq> White \<Longrightarrow> c \<noteq> White \<Longrightarrow> state[v := c] ! k \<noteq> White"
  by (cases "v < length state") (auto simp: nth_list_update list_update_beyond)

lemma dfsLoop_spec:
  assumes "wfGraph g" "searching g state stack"
  shows "\<exists>r. dfsLoop g state stack = Some r \<and> searched g state r"
  using assms
proof (induction g state stack rule: dfsLoop.induct)
  case (2 g state i idx stack)
  let ?su = "gSucc g ! i"
  have i: "i < size_of g" "length state = size_of g" using "2.prems"(2) by (auto simp: searching_def coloured_def)
  have at: "at (gSucc g) i = Some ?su" using i wfGraph_lengths(1) [OF "2.prems"(1)] by simp
  have rng: "\<forall>v \<in> set (drop idx ?su). v < length (gDone g) \<and> v < length state"
    using wfGraph_succ [OF "2.prems"(1) i(1)] wfGraph_lengths(2) [OF "2.prems"(1)] i(2) by (metis in_set_dropD)
  obtain res idx' where r: "scanFrame g state (drop idx ?su) idx = Some (res, idx')" and spec: "case (res, idx') of
       (Exhausted, idx') \<Rightarrow> \<forall>v \<in> set (drop idx ?su). settled g state v
     | (Descend v, idx') \<Rightarrow> \<exists>ys zs. drop idx ?su = ys @ v # zs \<and> idx' = idx + length ys + 1 \<and> (\<forall>w \<in> set ys. settled g state w) \<and>
         \<not> gDone g ! v \<and> state ! v = White
     | (Closed v, idx') \<Rightarrow> v \<in> set (drop idx ?su) \<and> \<not> gDone g ! v \<and> state ! v = Grey"
    using scanFrame_spec [OF rng, of idx] by auto
  show ?case
  proof (cases res)
    case Exhausted
    have "settled g state v" if "v \<in> set ?su" for v
    proof -
      have "v \<in> set (take idx ?su) \<or> v \<in> set (drop idx ?su)" using that by (metis Un_iff append_take_drop_id set_append)
      moreover have "\<forall>j < idx. settled g state (?su ! j)" using "2.prems"(2) by (simp add: searching_def)
      then have "v \<in> set (take idx ?su) \<Longrightarrow> settled g state v" by (auto simp: in_set_conv_nth)
      ultimately show ?thesis using spec Exhausted by auto
    qed
    then have "searching g (state[i := Black]) stack" using searching_finish [OF "2.prems"] by blast
    from "2.IH"(1) [OF at r [unfolded Exhausted] refl refl "2.prems"(1) this]
    obtain r' where "dfsLoop g (state[i := Black]) stack = Some r'" "searched g (state[i := Black]) r'" by blast
    moreover have "dfsLoop g state ((i, idx) # stack) = dfsLoop g (state[i := Black]) stack"
      unfolding dfsLoop.simps(2) [of g state i idx stack] at option.case r Exhausted by simp
    moreover have "searched g state r'"
      by (rule searched_mono [OF calculation(2)]) (simp add: nonwhite_update)
    ultimately show ?thesis by metis
  next
    case (Descend v)
    obtain ys zs where yz: "drop idx ?su = ys @ v # zs" "idx' = idx + length ys + 1" "\<forall>w \<in> set ys. settled g state w"
         "\<not> gDone g ! v" "state ! v = White" using spec Descend by auto
    have "searching g (state[v := Grey]) ((v, 0) # (i, idx') # stack)"
      using searching_descend [OF "2.prems" yz(1,3-5)] yz(2) by simp
    from "2.IH"(2) [OF at r [unfolded Descend] refl refl "2.prems"(1) this]
    obtain r' where "dfsLoop g (state[v := Grey]) ((v, 0) # (i, idx') # stack) = Some r'" "searched g (state[v := Grey]) r'" by blast
    moreover have "dfsLoop g state ((i, idx) # stack) = dfsLoop g (state[v := Grey]) ((v, 0) # (i, idx') # stack)"
      unfolding dfsLoop.simps(2) [of g state i idx stack] at option.case r Descend by (simp del: dfsLoop.simps)
    moreover have "searched g state r'"
      by (rule searched_mono [OF calculation(2)]) (simp add: nonwhite_update)
    ultimately show ?thesis by metis
  next
    case (Closed v)
    then have v: "v \<in> set ?su" "\<not> gDone g ! v" "state ! v = Grey" using spec by (auto dest: in_set_dropD)
    then show ?thesis
      using searching_closed [OF "2.prems"(2) v wfGraph_succ [OF "2.prems"(1) i(1) v(1)]] at r Closed by (simp add: searched_def)
  qed
qed (simp add: searched_def)

definition loopSearch :: "graph \<Rightarrow> nat list \<Rightarrow> bool" where
  "loopSearch g c = (if c = [] then acyclic (liveRel g) else isLoop (liveRel g) c)"

lemma findFrom_spec:
  assumes "wfGraph g" "searching g state []" "\<forall>i < size_of g. i \<in> set starts \<or> gDone g ! i \<or> state ! i \<noteq> White"
    "\<forall>i \<in> set starts. i < size_of g"
  shows "\<exists>c. findFrom g state starts = Some c \<and> loopSearch g c"
  using assms
proof (induction g state starts rule: findFrom.induct)
  case (1 g state)
  have "state ! i = Black" if "i < size_of g" "\<not> gDone g ! i" for i
    using that 1 by (cases "state ! i") (auto simp: searching_def coloured_def)
  then have "liveRel g \<subseteq> {(u, v) \<in> liveRel g. state ! u = Black \<and> state ! v = Black}"
    using wfGraph_succ [OF 1(1)] by (auto simp: liveRel_def)
  moreover have "acyclic {(u, v) \<in> liveRel g. state ! u = Black \<and> state ! v = Black}"
    using 1(2) by (simp add: searching_def closedBlack_def)
  ultimately show ?case by (auto simp: loopSearch_def intro: acyclic_subset)
next
  case (2 g state start rest)
  have st: "start < size_of g" "length state = size_of g" using 2 by (auto simp: searching_def coloured_def)
  have at: "at (gDone g) start = Some (gDone g ! start)" "at state start = Some (state ! start)"
    using st wfGraph_lengths(2) [OF "2.prems"(1)] by auto
  show ?case
  proof (cases "gDone g ! start \<or> state ! start \<noteq> White")
    case True
    then have "\<forall>i < size_of g. i \<in> set rest \<or> gDone g ! i \<or> state ! i \<noteq> White" using "2.prems"(3) by auto
    then have "\<exists>c. findFrom g state rest = Some c \<and> loopSearch g c" using "2.IH"(1) [OF at True] "2.prems" by simp
    moreover have "findFrom g state (start # rest) = findFrom g state rest" using at True by auto
    ultimately show ?thesis by simp
  next
    case False
    have "searching g (state[start := Grey]) [(start, 0)]"
      using "2.prems"(2) st False closedBlack_grey [of g state start]
      by (auto simp: searching_def coloured_def nth_list_update)
    from dfsLoop_spec [OF "2.prems"(1) this]
    obtain r where r: "dfsLoop g (state[start := Grey]) [(start, 0)] = Some r" and spec: "searched g (state[start := Grey]) r"
      by blast
    show ?thesis
    proof (cases r)
      case (Inl c)
      then show ?thesis using spec False r at by (auto simp: searched_def isLoop_def loopSearch_def)
    next
      case (Inr state')
      have "\<forall>i < size_of g. i \<in> set rest \<or> gDone g ! i \<or> state' ! i \<noteq> White"
        using spec Inr "2.prems"(3) st by (auto simp: searched_def nth_list_update)
      then have "\<exists>c. findFrom g state' rest = Some c \<and> loopSearch g c"
        using "2.IH"(2) [OF at False r Inr] spec Inr "2.prems" by (simp add: searched_def)
      moreover have "findFrom g state (start # rest) = findFrom g state' rest" using at False r Inr by simp
      ultimately show ?thesis by simp
    qed
  qed
qed

lemma findCycle_spec:
  assumes "wfGraph g"
  shows "\<exists>c. findCycle g = Some c \<and> loopSearch g c"
proof -
  let ?w = "replicate (size_of g) White"
  have none: "{(u, v) \<in> liveRel g. ?w ! u = Black \<and> ?w ! v = Black} = {}" by (auto simp: liveRel_def)
  have "searching g ?w []"
    unfolding searching_def coloured_def closedBlack_def none by (simp add: acyclic_def)
  then show ?thesis unfolding findCycle_def by (intro findFrom_spec [OF assms]) auto
qed

end
