(* ===== verification/Tsort_Kahn.thy ===== *)
theory Tsort_Kahn
  imports Tsort_Cycle
begin

text \<open>
  The abstract specification of \<open>tsort\<close>: a machine that writes, at each step, the least node all of whose predecessors
  have been written, and that deletes the closing edge of a loop when there is none. Its invariants are proved by rule
  induction; the theory \<open>Tsort_Correct\<close> shows that the program is a run of it.
\<close>

section \<open>The machine\<close>

record kState =
  kEdges :: "(nat \<times> nat) multiset"
  kOrder :: "nat list"
  kLoops :: "nat list list"

definition ready :: "(nat \<times> nat) multiset \<Rightarrow> nat list \<Rightarrow> nat \<Rightarrow> bool" where
  "ready E ord v \<longleftrightarrow> v \<notin> set ord \<and> (\<forall>u. (u, v) \<in># E \<longrightarrow> u \<in> set ord)"

definition closing :: "'a list \<Rightarrow> 'a \<times> 'a" where
  "closing c = (last c, hd c)"

inductive kahn :: "nat set \<Rightarrow> (nat \<Rightarrow> string) \<Rightarrow> kState \<Rightarrow> kState \<Rightarrow> bool" for V key where
  kWrite: "v \<in> V \<Longrightarrow> ready (kEdges k) (kOrder k) v \<Longrightarrow>
    (\<And>w. w \<in> V \<Longrightarrow> ready (kEdges k) (kOrder k) w \<Longrightarrow> key v \<le> key w) \<Longrightarrow>
    kahn V key k (k\<lparr>kOrder := kOrder k @ [v]\<rparr>)"
| kBreak: "(\<And>w. w \<in> V \<Longrightarrow> \<not> ready (kEdges k) (kOrder k) w) \<Longrightarrow>
    isLoop {(u, v). (u, v) \<in># kEdges k \<and> u \<in> V - set (kOrder k) \<and> v \<in> V - set (kOrder k)} c \<Longrightarrow>
    kahn V key k (k\<lparr>kEdges := kEdges k - {#closing c#}, kLoops := kLoops k @ [c]\<rparr>)"

inductive_cases kahnE: "kahn V key k k'"

definition kStart :: "(nat \<times> nat) multiset \<Rightarrow> kState" where
  "kStart E = \<lparr>kEdges = E, kOrder = [], kLoops = []\<rparr>"

section \<open>Its invariants\<close>

text \<open>\<open>u\<close> stands before \<open>v\<close>.\<close>

definition before :: "'a list \<Rightarrow> 'a \<Rightarrow> 'a \<Rightarrow> bool" where
  "before xs u v \<longleftrightarrow> (\<exists>i j. i < j \<and> j < length xs \<and> xs ! i = u \<and> xs ! j = v)"

lemma before_snoc: "before (xs @ [x]) u v \<longleftrightarrow> before xs u v \<or> u \<in> set xs \<and> v = x"
proof
  assume "before (xs @ [x]) u v"
  then show "before xs u v \<or> u \<in> set xs \<and> v = x"
    unfolding before_def by (auto simp: nth_append less_Suc_eq split: if_splits)
next
  assume "before xs u v \<or> u \<in> set xs \<and> v = x"
  then show "before (xs @ [x]) u v"
  proof
    assume "before xs u v"
    then obtain i j where "i < j" "j < length xs" "xs ! i = u" "xs ! j = v" by (auto simp: before_def)
    then show ?thesis unfolding before_def by (intro exI [of _ i] exI [of _ j]) (simp add: nth_append)
  next
    assume u: "u \<in> set xs \<and> v = x"
    then obtain i where "i < length xs" "xs ! i = u" by (auto simp: in_set_conv_nth)
    then show ?thesis using u unfolding before_def
      by (intro exI [of _ i] exI [of _ "length xs"]) (simp add: nth_append)
  qed
qed

lemma before_in_set: "before xs u v \<Longrightarrow> u \<in> set xs \<and> v \<in> set xs"
  unfolding before_def by (auto intro: nth_mem dest: order.strict_trans)

definition kInv :: "nat set \<Rightarrow> (nat \<Rightarrow> string) \<Rightarrow> (nat \<times> nat) multiset \<Rightarrow> kState \<Rightarrow> bool" where
  "kInv V key E0 k \<longleftrightarrow>
     distinct (kOrder k) \<and> set (kOrder k) \<subseteq> V \<and>
     E0 = kEdges k + mset (map closing (kLoops k)) \<and>
     (\<forall>(u, v) \<in># kEdges k. v \<in> set (kOrder k) \<longrightarrow> before (kOrder k) u v) \<and>
     (\<forall>c \<in> set (kLoops k). isLoop (set_mset E0) c) \<and>
     (kLoops k = [] \<longrightarrow> (\<forall>i < length (kOrder k). \<forall>w \<in> V. ready E0 (take i (kOrder k)) w \<longrightarrow> key (kOrder k ! i) \<le> key w))"

lemma isLoop_mono: "isLoop R c \<Longrightarrow> R \<subseteq> S \<Longrightarrow> isLoop S c"
  unfolding isLoop_def using successively_mono [of "\<lambda>u v. (u, v) \<in> R" c "\<lambda>u v. (u, v) \<in> S"] by blast

lemma isLoop_not_acyclic:
  assumes "isLoop R c" shows "\<not> acyclic R"
proof -
  have "(hd c, last c) \<in> R\<^sup>*" if "c \<noteq> []" "successively (\<lambda>u v. (u, v) \<in> R) c" for c :: "'a list"
    using that
  proof (induction c)
    case (Cons x c)
    then show ?case by (cases c) (auto simp: successively_Cons intro: converse_rtrancl_into_rtrancl)
  qed simp
  then have "(hd c, hd c) \<in> R\<^sup>+" using assms unfolding isLoop_def by (blast intro: rtrancl_into_trancl1)
  then show ?thesis unfolding acyclic_def by blast
qed

lemma kInv_start: "kInv V key E (kStart E)"
  by (simp add: kInv_def kStart_def)

lemma kInv_write:
  assumes inv: "kInv V key E0 k" and v: "v \<in> V" "ready (kEdges k) (kOrder k) v"
    and least: "\<And>w. w \<in> V \<Longrightarrow> ready (kEdges k) (kOrder k) w \<Longrightarrow> key v \<le> key w"
  shows "kInv V key E0 (k\<lparr>kOrder := kOrder k @ [v]\<rparr>)"
proof -
  let ?o = "kOrder k"
  have order: "before (?o @ [v]) a b" if "(a, b) \<in># kEdges k" "b \<in> set (?o @ [v])" for a b
  proof (cases "b = v")
    case True
    then show ?thesis using that(1) v(2) by (auto simp: before_snoc ready_def)
  next
    case False
    then show ?thesis using that inv by (auto simp: before_snoc kInv_def)
  qed
  have "key ((?o @ [v]) ! i) \<le> key w"
    if "kLoops k = []" "i < length (?o @ [v])" "w \<in> V" "ready E0 (take i (?o @ [v])) w" for i w
  proof (cases "i < length ?o")
    case True
    then show ?thesis using that inv by (auto simp: kInv_def nth_append)
  next
    case False
    then have "i = length ?o" "E0 = kEdges k" using that inv by (auto simp: kInv_def)
    then show ?thesis using that least by simp
  qed
  then show ?thesis using inv v order by (auto simp: kInv_def ready_def)
qed

lemma kInv_break:
  assumes inv: "kInv V key E0 k"
    and loop: "isLoop {(u, v). (u, v) \<in># kEdges k \<and> u \<in> V - set (kOrder k) \<and> v \<in> V - set (kOrder k)} c"
  shows "kInv V key E0 (k\<lparr>kEdges := kEdges k - {#closing c#}, kLoops := kLoops k @ [c]\<rparr>)" (is "kInv V key E0 ?k")
proof -
  have mem: "closing c \<in># kEdges k" using loop by (simp add: isLoop_def closing_def)
  have e0: "E0 = kEdges k + mset (map closing (kLoops k))" using inv by (simp add: kInv_def)
  have "isLoop (set_mset E0) c"
    by (rule isLoop_mono [OF loop]) (auto simp: e0)
  moreover have "E0 = kEdges k - {#closing c#} + mset (map closing (kLoops k @ [c]))"
    using mem by (simp add: e0)
  moreover have "\<forall>(u, v) \<in># kEdges k - {#closing c#}. v \<in> set (kOrder k) \<longrightarrow> before (kOrder k) u v"
    using inv by (auto simp: kInv_def dest!: in_diffD)
  moreover have "distinct (kOrder k)" "set (kOrder k) \<subseteq> V" "\<forall>c \<in> set (kLoops k). isLoop (set_mset E0) c"
    using inv unfolding kInv_def by blast+
  moreover have "kOrder ?k = kOrder k" "kEdges ?k = kEdges k - {#closing c#}" "kLoops ?k = kLoops k @ [c]" by simp_all
  ultimately show ?thesis unfolding kInv_def by (intro conjI) (auto simp del: mset_map mset_append)
qed

lemma kahn_kInv: "kahn V key k k' \<Longrightarrow> kInv V key E0 k \<Longrightarrow> kInv V key E0 k'"
  by (erule kahnE) (simp_all add: kInv_write kInv_break)

lemma kahn_run_kInv:
  assumes "(kahn V key)\<^sup>*\<^sup>* (kStart E) k" shows "kInv V key E k"
  using assms by (induction rule: rtranclp_induct) (auto simp: kInv_start dest: kahn_kInv)

lemma kInv_acyclic:
  assumes "kInv V key E k" "acyclic (set_mset E)" shows "kLoops k = []" "kEdges k = E"
proof -
  have "c \<notin> set (kLoops k)" for c using assms isLoop_not_acyclic unfolding kInv_def by blast
  then show "kLoops k = []" by (cases "kLoops k") auto
  then show "kEdges k = E" using assms(1) by (simp add: kInv_def)
qed

text \<open>A finished run without loops leaves an acyclic input.\<close>

lemma before_acyclic:
  assumes "distinct ord" "\<And>u v. (u, v) \<in> R \<Longrightarrow> before ord u v" shows "acyclic R"
proof (rule acyclicI, intro allI notI)
  fix x assume x: "(x, x) \<in> R\<^sup>+"
  have trans: "before ord u w" if "before ord u v" "before ord v w" for u v w
    using that assms(1) unfolding before_def by (metis nth_eq_iff_index_eq order.strict_trans)
  have "before ord u v" if "(u, v) \<in> R\<^sup>+" for u v
    using that by (induction rule: trancl_induct) (auto dest: assms(2) intro: trans)
  from this [OF x] show False using assms(1) unfolding before_def by (metis nth_eq_iff_index_eq nat_neq_iff order.strict_trans)
qed

end
