(* ===== verification/Tsort_Refine.thy ===== *)
theory Tsort_Refine
  imports Tsort_Kahn
begin

text \<open>
  \<open>topoSort\<close> refines the machine of \<open>Tsort_Kahn\<close>: each round of its loop is one step of the machine, it never indexes out
  of range, and the loop ends with every node written. The in-degrees count the edges from nodes not yet written, and
  the heap holds exactly the ready nodes.
\<close>

section \<open>Edges and in-degrees\<close>

definition edgeMset :: "graph \<Rightarrow> (nat \<times> nat) multiset" where
  "edgeMset g = (\<Sum>u \<in> {..< size_of g}. image_mset (Pair u) (mset (gSucc g ! u)))"

lemma count_edgeMset: "count (edgeMset g) (u, v) = (if u < size_of g then count_list (gSucc g ! u) v else 0)"
proof -
  have c: "count (image_mset (Pair w) M) (u, v) = (if w = u then count M v else 0)" for w and M :: "nat multiset"
  proof (cases "w = u")
    case True
    then show ?thesis by (induction M) auto
  next
    case False
    then show ?thesis by (auto simp: count_eq_zero_iff)
  qed
  show ?thesis unfolding edgeMset_def count_sum c by (simp add: count_mset)
qed

lemma in_edgeMset: "(u, v) \<in># edgeMset g \<longleftrightarrow> u < size_of g \<and> v \<in> set (gSucc g ! u)"
  using count_edgeMset [of g u v] by (metis count_eq_zero_iff count_list_0_iff)

definition inFrom :: "(nat \<times> nat) multiset \<Rightarrow> nat list \<Rightarrow> nat \<Rightarrow> nat" where
  "inFrom E ord v = size {#e \<in># E. snd e = v \<and> fst e \<notin> set ord#}"

lemma inFrom_0_iff: "inFrom E ord v = 0 \<longleftrightarrow> (\<forall>u. (u, v) \<in># E \<longrightarrow> u \<in> set ord)"
  unfolding inFrom_def size_eq_0_iff_empty set_mset_eq_empty_iff [symmetric] set_mset_filter by auto

lemma inFrom_snoc:
  assumes "i \<notin> set ord" shows "inFrom E ord v = inFrom E (ord @ [i]) v + count E (i, v)"
proof -
  have "{#e \<in># E. snd e = v \<and> fst e \<notin> set ord#} =
    {#e \<in># E. snd e = v \<and> fst e \<notin> set (ord @ [i])#} + {#e \<in># E. e = (i, v)#}"
    using assms by (intro multiset_eqI) auto
  then show ?thesis by (simp add: inFrom_def filter_eq_replicate_mset)
qed

lemma inFrom_remove:
  assumes "(u, v) \<in># E" "u \<notin> set ord"
  shows "inFrom E ord w = inFrom (E - {#(u, v)#}) ord w + (if w = v then 1 else 0)"
proof -
  obtain E1 where "E = add_mset (u, v) E1" using assms(1) by (meson multi_member_split)
  then show ?thesis using assms(2) by (auto simp: inFrom_def)
qed

section \<open>The simulation\<close>

definition reportLoop :: "string \<Rightarrow> string list \<Rightarrow> string list" where
  "reportLoop name members = (''tsort: '' @ name @ '': input contains a loop:'') # map ((@) ''tsort: '') members"

definition simulates :: "string \<Rightarrow> string list \<Rightarrow> topoState \<Rightarrow> kState \<Rightarrow> bool" where
  "simulates name names t k \<longleftrightarrow>
     wfGraph (tGraph t) \<and> gNames (tGraph t) = names \<and> kEdges k = edgeMset (tGraph t) \<and>
     distinct (kOrder k) \<and> set (kOrder k) \<subseteq> {..< length names} \<and>
     (\<forall>i < length names. gDone (tGraph t) ! i \<longleftrightarrow> i \<in> set (kOrder k)) \<and>
     (\<forall>(u, v) \<in># kEdges k. v \<in> set (kOrder k) \<longrightarrow> u \<in> set (kOrder k)) \<and>
     (\<forall>v < length names. gIndeg (tGraph t) ! v = int (inFrom (kEdges k) (kOrder k) v)) \<and>
     heapHolds (nodeKey (tGraph t)) (tHeap t) {v. v < length names \<and> ready (kEdges k) (kOrder k) v} \<and>
     tOut t = map ((!) names) (kOrder k) \<and>
     tErr t = concat (map (\<lambda>c. reportLoop name (map ((!) names) c)) (kLoops k)) \<and>
     tCycles t = length (kLoops k) \<and> tRemaining t = int (length names) - int (length (kOrder k))"

lemma simulatesD:
  assumes "simulates name names t k"
  shows "wfGraph (tGraph t)" "gNames (tGraph t) = names" "kEdges k = edgeMset (tGraph t)"
    and "heapHolds (nodeKey (tGraph t)) (tHeap t) {v. v < length names \<and> ready (kEdges k) (kOrder k) v}"
    and "\<And>i. i < length names \<Longrightarrow> gDone (tGraph t) ! i \<longleftrightarrow> i \<in> set (kOrder k)"
    and "\<And>u v. (u, v) \<in># kEdges k \<Longrightarrow> v \<in> set (kOrder k) \<Longrightarrow> u \<in> set (kOrder k)"
    and "\<And>v. v < length names \<Longrightarrow> gIndeg (tGraph t) ! v = int (inFrom (kEdges k) (kOrder k) v)"
    and "distinct (kOrder k)" "set (kOrder k) \<subseteq> {..< length names}"
    and "tRemaining t = int (length names) - int (length (kOrder k))"
  using assms unfolding simulates_def by blast+

text \<open>The loop over the successors lowers every in-degree by the number of edges and queues those that reach zero.\<close>

lemma relax_spec:
  assumes "heapHolds (nodeKey g) h H" "length (gDone g) = size_of g" "length (gIndeg g) = size_of g"
    and "\<forall>v \<in> set su. v < size_of g \<and> \<not> gDone g ! v \<and> v \<notin> H \<and> int (count_list su v) \<le> gIndeg g ! v"
  shows "\<exists>h' d. relax g h su = Some (g\<lparr>gIndeg := d\<rparr>, h') \<and> length d = size_of g \<and>
    (\<forall>v < size_of g. d ! v = gIndeg g ! v - int (count_list su v)) \<and>
    heapHolds (nodeKey g) h' (H \<union> {v \<in> set su. gIndeg g ! v = int (count_list su v)})"
  using assms
proof (induction su arbitrary: g h H)
  case Nil
  then show ?case by (intro exI [of _ h] exI [of _ "gIndeg g"]) simp
next
  case (Cons s su)
  let ?k = "gIndeg g ! s"
  let ?g = "g\<lparr>gIndeg := (gIndeg g)[s := ?k - 1]\<rparr>"
  let ?h = "if ?k - 1 = 0 then heapPush (nodeKey g) s h else h"
  let ?H = "if ?k - 1 = 0 then insert s H else H"
  have s: "s < size_of g" "\<not> gDone g ! s" "s \<notin> H" "int (count_list (s # su) s) \<le> ?k" using Cons.prems(4) by auto
  have key: "nodeKey ?g = nodeKey g" by (simp add: nodeKey_def fun_eq_iff)
  have h: "heapHolds (nodeKey ?g) ?h ?H" using hq.holds_push [OF Cons.prems(1) s(3)] Cons.prems(1) by (simp add: key)
  have out: "s \<notin> set su" if "?k - 1 = 0" using s(4) that by (auto simp: count_list_0_iff)
  have "\<forall>v \<in> set su. v < size_of ?g \<and> \<not> gDone ?g ! v \<and> v \<notin> ?H \<and> int (count_list su v) \<le> gIndeg ?g ! v"
    using Cons.prems(3,4) s out by (auto simp: nth_list_update)
  from Cons.IH [OF h _ _ this] Cons.prems(2,3)
  obtain h' d where r: "relax ?g ?h su = Some (?g\<lparr>gIndeg := d\<rparr>, h')" "length d = size_of g"
    "\<forall>v < size_of g. d ! v = gIndeg ?g ! v - int (count_list su v)"
    "heapHolds (nodeKey ?g) h' (?H \<union> {v \<in> set su. gIndeg ?g ! v = int (count_list su v)})" by auto
  have "relax g h (s # su) = Some (g\<lparr>gIndeg := d\<rparr>, h')"
    using s r(1) Cons.prems(2,3) by simp
  moreover have "\<forall>v < size_of g. d ! v = gIndeg g ! v - int (count_list (s # su) v)"
    using r(3) Cons.prems(3) s(1) by (auto simp: nth_list_update)
  moreover have "?H \<union> {v \<in> set su. gIndeg ?g ! v = int (count_list su v)} =
    H \<union> {v \<in> set (s # su). gIndeg g ! v = int (count_list (s # su) v)}"
    using Cons.prems(3,4) s(1) out by (auto simp: nth_list_update count_list_0_iff split: if_splits)
  ultimately show ?case using r(2,4) key by auto
qed

lemma popReady_step:
  assumes sim: "simulates name names t k" and h: "tHeap t \<noteq> []"
  shows "\<exists>t' v. popReady t = Some t' \<and> kahn {..< length names} ((!) names) k (k\<lparr>kOrder := kOrder k @ [v]\<rparr>) \<and>
    simulates name names t' (k\<lparr>kOrder := kOrder k @ [v]\<rparr>)"
proof -
  let ?g = "tGraph t" and ?E = "kEdges k" and ?o = "kOrder k"
  let ?R = "{v. v < length names \<and> ready ?E ?o v}"
  have wf: "wfGraph ?g" and nm: "gNames ?g = names" and E: "?E = edgeMset ?g" and hold: "heapHolds (nodeKey ?g) (tHeap t) ?R"
    using simulatesD [OF sim] by blast+
  have key: "nodeKey ?g = (!) names" by (simp add: nodeKey_def nm fun_eq_iff)
  obtain i h' where pop: "heapPop (nodeKey ?g) (tHeap t) = Some (i, h')"
    using h by (auto simp: heapPop_def Let_def)
  note i = hq.holds_pop [OF hold pop]
  have iR: "i < length names" "ready ?E ?o i" and io: "i \<notin> set ?o" using i(1) by (auto simp: ready_def)
  let ?su = "gSucc ?g ! i" and ?g1 = "?g\<lparr>gDone := (gDone ?g)[i := True]\<rparr>"
  have mem: "(i, v) \<in># ?E \<longleftrightarrow> v \<in> set ?su" for v using E iR(1) nm by (simp add: in_edgeMset)
  have cnt: "count ?E (i, v) = count_list ?su v" for v using E iR(1) nm by (simp add: count_edgeMset)
  have ind: "gIndeg ?g ! v = int (inFrom ?E ?o v)" if "v < length names" for v using simulatesD(7) [OF sim that] .
  have dn: "gDone ?g ! v \<longleftrightarrow> v \<in> set ?o" if "v < length names" for v using simulatesD(5) [OF sim that] .
  have cl: "(u, v) \<in># ?E \<Longrightarrow> v \<in> set ?o \<Longrightarrow> u \<in> set ?o" for u v using simulatesD(6) [OF sim] .
  have su: "v < length names \<and> v \<notin> set ?o \<and> v \<noteq> i \<and> v \<notin> ?R" if v: "v \<in> set ?su" for v
  proof -
    have "v < length names" using wfGraph_succ [OF wf _ v] iR(1) nm by simp
    moreover have "v \<notin> set ?o" using cl [of i v] mem v io by blast
    moreover have "\<not> ready ?E ?o v" using mem v io by (auto simp: ready_def)
    ultimately show ?thesis using iR(2) by auto
  qed
  have pre: "\<forall>v \<in> set ?su. v < size_of ?g1 \<and> \<not> gDone ?g1 ! v \<and> v \<notin> ?R - {i} \<and> int (count_list ?su v) \<le> gIndeg ?g1 ! v"
  proof
    fix v assume v: "v \<in> set ?su"
    note sv = su [OF v]
    then have "(gDone ?g)[i := True] ! v \<longleftrightarrow> v \<in> set ?o" using dn by simp
    then show "v < size_of ?g1 \<and> \<not> gDone ?g1 ! v \<and> v \<notin> ?R - {i} \<and> int (count_list ?su v) \<le> gIndeg ?g1 ! v"
      using sv ind [of v] inFrom_snoc [OF io, of ?E v] cnt [of v] nm by simp
  qed
  have key1: "nodeKey ?g1 = nodeKey ?g" by (simp add: nodeKey_def fun_eq_iff)
  obtain h2 d where rx: "relax ?g1 h' ?su = Some (?g1\<lparr>gIndeg := d\<rparr>, h2)" "length d = size_of ?g"
    "\<forall>v < size_of ?g. d ! v = gIndeg ?g ! v - int (count_list ?su v)"
    "heapHolds (nodeKey ?g) h2 (?R - {i} \<union> {v \<in> set ?su. gIndeg ?g ! v = int (count_list ?su v)})"
    using relax_spec [OF i(2) [folded key1] _ _ pre] wf by (auto simp: wfGraph_def key1)
  let ?o' = "?o @ [i]"
  have ready': "ready ?E ?o' v \<longleftrightarrow> v \<noteq> i \<and> (ready ?E ?o v \<or> v \<in> set ?su \<and> gIndeg ?g ! v = int (count_list ?su v))"
    if v: "v < length names" for v
  proof -
    have "ready ?E ?o' v \<longleftrightarrow> v \<notin> set ?o' \<and> inFrom ?E ?o' v = 0" by (simp add: ready_def inFrom_0_iff)
    moreover have "ready ?E ?o v \<longleftrightarrow> v \<notin> set ?o \<and> inFrom ?E ?o v = 0" by (simp add: ready_def inFrom_0_iff)
    moreover have "count_list ?su v = 0 \<longleftrightarrow> v \<notin> set ?su" by (rule count_list_0_iff)
    moreover note inFrom_snoc [OF io, of ?E v] ind [OF v] su [of v] cnt [of v]
    ultimately show ?thesis by auto
  qed
  have set': "?R - {i} \<union> {v \<in> set ?su. gIndeg ?g ! v = int (count_list ?su v)} = {v. v < length names \<and> ready ?E ?o' v}"
    using ready' su by blast
  let ?t = "t\<lparr>tGraph := ?g1\<lparr>gIndeg := d\<rparr>, tHeap := h2, tOut := tOut t @ [names ! i], tRemaining := tRemaining t - 1\<rparr>"
  have "popReady t = Some ?t"
    using pop rx(1) iR(1) nm wf by (simp add: popReady_def wfGraph_def)
  moreover have "kahn {..< length names} ((!) names) k (k\<lparr>kOrder := ?o'\<rparr>)"
    using iR i(3) key by (intro kWrite) auto
  moreover have "simulates name names ?t (k\<lparr>kOrder := ?o'\<rparr>)"
  proof -
    have "edgeMset (?g1\<lparr>gIndeg := d\<rparr>) = edgeMset ?g" by (simp add: edgeMset_def)
    moreover have "wfGraph (?g1\<lparr>gIndeg := d\<rparr>)" using wf rx(2) by (simp add: wfGraph_def)
    moreover have "nodeKey (?g1\<lparr>gIndeg := d\<rparr>) = nodeKey ?g" by (simp add: nodeKey_def fun_eq_iff)
    moreover have "\<forall>v < length names. (gDone ?g)[i := True] ! v \<longleftrightarrow> v \<in> set ?o'"
      using dn iR(1) nm wf by (auto simp: wfGraph_def nth_list_update)
    moreover have "\<forall>v < length names. d ! v = int (inFrom ?E ?o' v)"
      using rx(3) ind nm inFrom_snoc [OF io, of ?E] cnt by simp
    moreover have "\<forall>(u, v) \<in># ?E. v \<in> set ?o' \<longrightarrow> u \<in> set ?o'" using cl iR(2) by (auto simp: ready_def)
    moreover have "heapHolds (nodeKey ?g) h2 {v. v < length names \<and> ready ?E ?o' v}" using rx(4) set' by simp
    ultimately show ?thesis using sim io iR(1) unfolding simulates_def by simp
  qed
  ultimately show ?thesis by blast
qed

section \<open>A stall\<close>

lemma stalled_loop:
  assumes sim: "simulates name names t k" and h: "tHeap t = []" and rem: "tRemaining t > 0"
  shows "\<exists>c. findCycle (tGraph t) = Some c \<and> c \<noteq> [] \<and> isLoop (liveRel (tGraph t)) c"
proof -
  let ?g = "tGraph t" and ?E = "kEdges k" and ?o = "kOrder k"
  let ?W = "{..< length names} - set ?o"
  have wf: "wfGraph ?g" and nm: "gNames ?g = names" and E: "?E = edgeMset ?g"
    and hold: "heapHolds (nodeKey ?g) (tHeap t) {v. v < length names \<and> ready ?E ?o v}" using simulatesD [OF sim] by blast+
  have dn: "gDone ?g ! v \<longleftrightarrow> v \<in> set ?o" if "v < length names" for v using simulatesD(5) [OF sim that] .
  have noready: "\<not> ready ?E ?o v" if "v < length names" for v
    using hold h that hq.holds_pop_None [OF hold] by (auto simp: heapPop_def)
  have pred: "\<exists>u \<in> ?W. (u, v) \<in> liveRel ?g" if v: "v \<in> ?W" for v
  proof -
    obtain u where "(u, v) \<in># ?E" "u \<notin> set ?o" using noready [of v] v by (auto simp: ready_def)
    then show ?thesis using v dn nm E by (auto simp: in_edgeMset liveRel_def)
  qed
  have "length ?o < length names" using rem sim by (simp add: simulates_def)
  then have "card (set ?o) < card {..< length names}" using sim by (simp add: simulates_def distinct_card)
  then have "?W \<noteq> {}" by (metis card_mono finite_set finite_lessThan Diff_eq_empty_iff not_le)
  have "\<not> acyclic (liveRel ?g)"
  proof
    assume a: "acyclic (liveRel ?g)"
    have "liveRel ?g \<subseteq> {..< size_of ?g} \<times> {..< size_of ?g}" using wfGraph_succ [OF wf] by (auto simp: liveRel_def)
    then have "finite (liveRel ?g)" by (rule finite_subset) simp
    then have "wf (liveRel ?g)" using a by (rule finite_acyclic_wf)
    then obtain z where "z \<in> ?W" "\<And>y. (y, z) \<in> liveRel ?g \<Longrightarrow> y \<notin> ?W" using \<open>?W \<noteq> {}\<close> by (metis ex_in_conv wfE_min)
    then show False using pred by blast
  qed
  then show ?thesis using findCycle_spec [OF wf] by (auto simp: loopSearch_def split: if_splits)
qed

lemma edgeMset_remove:
  assumes "wfGraph g" "(u, v) \<in># edgeMset g"
  shows "edgeMset (g\<lparr>gSucc := (gSucc g)[u := remove1 v (gSucc g ! u)], gIndeg := d\<rparr>) = edgeMset g - {#(u, v)#}" (is "edgeMset ?g = _")
proof (rule multiset_eqI)
  fix e :: "nat \<times> nat"
  obtain a b where e: "e = (a, b)" by (cases e)
  have u: "u < size_of g" "u < length (gSucc g)" using assms by (auto simp: in_edgeMset wfGraph_def)
  have "count_list (remove1 v xs) b = count_list xs b - (if b = v then 1 else 0)" for xs
    by (induction xs) (auto simp: count_list_0_iff)
  then show "count (edgeMset ?g) e = count (edgeMset g - {#(u, v)#}) e"
    using u e by (auto simp: count_edgeMset nth_list_update)
qed

lemma breakCycle_step:
  assumes sim: "simulates name names t k" and h: "tHeap t = []" and loop: "isLoop (liveRel (tGraph t)) c"
  shows "\<exists>t'. breakCycle name c t = Some t' \<and>
    kahn {..< length names} ((!) names) k (k\<lparr>kEdges := kEdges k - {#closing c#}, kLoops := kLoops k @ [c]\<rparr>) \<and>
    simulates name names t' (k\<lparr>kEdges := kEdges k - {#closing c#}, kLoops := kLoops k @ [c]\<rparr>)"
proof -
  let ?g = "tGraph t" and ?E = "kEdges k" and ?o = "kOrder k" and ?u = "last c" and ?v = "hd c"
  let ?E' = "?E - {#closing c#}"
  have wf: "wfGraph ?g" and nm: "gNames ?g = names" and E: "?E = edgeMset ?g"
    and hold: "heapHolds (nodeKey ?g) (tHeap t) {v. v < length names \<and> ready ?E ?o v}" using simulatesD [OF sim] by blast+
  have dn: "gDone ?g ! v \<longleftrightarrow> v \<in> set ?o" if "v < length names" for v using simulatesD(5) [OF sim that] .
  have ind: "gIndeg ?g ! v = int (inFrom ?E ?o v)" if "v < length names" for v using simulatesD(7) [OF sim that] .
  have noready: "\<not> ready ?E ?o v" if "v < length names" for v
    using hold h that hq.holds_pop_None [OF hold] by (auto simp: heapPop_def)
  have live: "liveRel ?g = {(u, v). (u, v) \<in># ?E \<and> u \<in> {..< length names} - set ?o \<and> v \<in> {..< length names} - set ?o}"
    using E nm dn wfGraph_succ [OF wf] by (auto simp: liveRel_def in_edgeMset)
  have edge: "(?u, ?v) \<in># ?E" and uv: "?u < length names" "?u \<notin> set ?o" "?v < length names" "?v \<notin> set ?o"
    using loop unfolding isLoop_def live by auto
  have members: "\<forall>x \<in> set c. x < length names"
  proof -
    have "x < length names" if "successively (\<lambda>u v. (u, v) \<in> liveRel ?g) xs" "xs \<noteq> []" "last xs < length names" "x \<in> set xs" for x xs
      using that by (induction xs) (auto simp: successively_Cons live split: if_splits)
    then show ?thesis using loop uv unfolding isLoop_def by blast
  qed
  let ?g' = "?g\<lparr>gSucc := (gSucc ?g)[?u := remove1 ?v (gSucc ?g ! ?u)], gIndeg := (gIndeg ?g)[?v := gIndeg ?g ! ?v - 1]\<rparr>"
  have mem: "?v \<in> set (gSucc ?g ! ?u)" using edge E by (simp add: in_edgeMset)
  have rm: "removeEdge ?g ?u ?v = Some ?g'" using wf uv nm mem by (simp add: removeEdge_def wfGraph_def)
  have E': "edgeMset ?g' = ?E'" using edgeMset_remove [OF wf, of ?u ?v] edge E by (simp add: closing_def)
  have wf': "wfGraph ?g'"
  proof -
    have "x < size_of ?g" if su: "su \<in> set ((gSucc ?g)[?u := remove1 ?v (gSucc ?g ! ?u)])" and x: "x \<in> set su" for su x
    proof -
      have "su = remove1 ?v (gSucc ?g ! ?u) \<or> su \<in> set (gSucc ?g)"
        using su set_update_subset_insert by fastforce
      then show ?thesis
      proof
        assume "su = remove1 ?v (gSucc ?g ! ?u)"
        then have "x \<in> set (gSucc ?g ! ?u)" using x by (metis notin_set_remove1)
        then show ?thesis using wfGraph_succ [OF wf] uv nm by blast
      qed (use wf x in \<open>auto simp: wfGraph_def\<close>)
    qed
    then show ?thesis using wf by (auto simp: wfGraph_def)
  qed
  have ind': "gIndeg ?g' ! w = int (inFrom ?E' ?o w)" if "w < length names" for w
    using ind [OF that] ind [OF uv(3)] inFrom_remove [OF edge uv(2), of w] wf uv nm that
    by (auto simp: wfGraph_def closing_def nth_list_update)
  have key: "nodeKey ?g' = nodeKey ?g" by (simp add: nodeKey_def fun_eq_iff)
  let ?h = "if gIndeg ?g' ! ?v = 0 then heapPush (nodeKey ?g') ?v (tHeap t) else tHeap t"
  have ready': "{v. v < length names \<and> ready ?E' ?o v} = (if gIndeg ?g' ! ?v = 0 then {?v} else {})"
  proof -
    have r: "ready X ?o w \<longleftrightarrow> w \<notin> set ?o \<and> inFrom X ?o w = 0" for X w by (simp add: ready_def inFrom_0_iff)
    have "ready ?E' ?o w \<longleftrightarrow> w = ?v \<and> gIndeg ?g' ! ?v = 0" if "w < length names" for w
      using noready [OF that] r ind' [OF uv(3)] inFrom_remove [OF edge uv(2), of w] uv
      by (auto simp: closing_def split: if_splits)
    then show ?thesis using uv(3) by auto
  qed
  have empty: "{v. v < length names \<and> ready ?E ?o v} = {}" using noready by blast
  have hold': "heapHolds (nodeKey ?g') ?h {v. v < length names \<and> ready ?E' ?o v}"
    unfolding ready' key using hq.holds_push [of "nodeKey ?g" "tHeap t" "{}" ?v] hold [unfolded empty] by auto
  have those: "those (map (at names) xs) = Some (map ((!) names) xs)" if "\<forall>x \<in> set xs. x < length names" for xs
    using that by (induction xs) auto
  let ?t = "t\<lparr>tGraph := ?g', tHeap := ?h, tErr := tErr t @ reportLoop name (map ((!) names) c), tCycles := tCycles t + 1\<rparr>"
  have "breakCycle name c t = Some ?t"
  proof -
    have "at (gIndeg ?g') ?v = Some (gIndeg ?g' ! ?v)"
      by (rule at_Some) (use wfGraph_lengths(3) [OF wf'] uv(3) nm in simp)
    then show ?thesis unfolding breakCycle_def Let_def nm those [OF members] bind.bind_lunit rm reportLoop_def by simp
  qed
  moreover have "kahn {..< length names} ((!) names) k (k\<lparr>kEdges := ?E', kLoops := kLoops k @ [c]\<rparr>)"
    using noready loop unfolding live by (intro kBreak) auto
  moreover have "simulates name names ?t (k\<lparr>kEdges := ?E', kLoops := kLoops k @ [c]\<rparr>)"
  proof -
    have "\<forall>(u, v) \<in># ?E'. v \<in> set ?o \<longrightarrow> u \<in> set ?o" using simulatesD(6) [OF sim] by (auto dest: in_diffD)
    then show ?thesis using sim wf' E' ind' hold' nm unfolding simulates_def by simp
  qed
  ultimately show ?thesis by blast
qed

section \<open>The loop\<close>

lemma topoLoop_runs:
  assumes "simulates name names t k"
  shows "\<exists>t' k'. topoLoop name t = Some t' \<and> (kahn {..< length names} ((!) names))\<^sup>*\<^sup>* k k' \<and>
    simulates name names t' k' \<and> set (kOrder k') = {..< length names}"
  using assms
proof (induction "(length names - length (kOrder k)) + size (kEdges k)" arbitrary: t k rule: less_induct)
  case less
  let ?K = "kahn {..< length names} ((!) names)"
  have next_state: ?case if "?K k k1" "simulates name names t1 k1" "topoLoop name t = topoLoop name t1"
    "(length names - length (kOrder k1)) + size (kEdges k1) < (length names - length (kOrder k)) + size (kEdges k)" for t1 k1
    using less.hyps [OF that(4,2)] that(1,3) by (metis converse_rtranclp_into_rtranclp)
  have len: "length (kOrder k) \<le> length names" "set (kOrder k) \<subseteq> {..< length names}" "distinct (kOrder k)"
    using less.prems distinct_card [of "kOrder k"] card_mono [of "{..< length names}" "set (kOrder k)"] by (auto simp: simulates_def)
  show ?case
  proof (cases "tRemaining t > 0")
    case False
    then have "length (kOrder k) = length names" using less.prems len by (simp add: simulates_def)
    then have "card (set (kOrder k)) = card {..< length names}" using len distinct_card [of "kOrder k"] by simp
    then have "set (kOrder k) = {..< length names}" using len by (intro card_subset_eq) auto
    then show ?thesis using False less.prems by (subst topoLoop.simps) auto
  next
    case True
    then have lt: "length (kOrder k) < length names" using less.prems by (simp add: simulates_def)
    show ?thesis
    proof (cases "tHeap t = []")
      case empty: True
      obtain c where c: "findCycle (tGraph t) = Some c" "c \<noteq> []" "isLoop (liveRel (tGraph t)) c"
        using stalled_loop [OF less.prems empty True] by blast
      obtain t1 where t1: "breakCycle name c t = Some t1"
        "?K k (k\<lparr>kEdges := kEdges k - {#closing c#}, kLoops := kLoops k @ [c]\<rparr>)"
        "simulates name names t1 (k\<lparr>kEdges := kEdges k - {#closing c#}, kLoops := kLoops k @ [c]\<rparr>)"
        using breakCycle_step [OF less.prems empty c(3)] by blast
      have "closing c \<in># kEdges k"
        using c(3) less.prems by (auto simp: isLoop_def liveRel_def closing_def simulates_def in_edgeMset)
      then have "size (kEdges k - {#closing c#}) < size (kEdges k)" by (rule size_Diff1_less)
      then show ?thesis using next_state [OF t1(2,3)] t1(1) c(1,2) True empty by (simp add: topoLoop.simps [of name t])
    next
      case False
      obtain t1 v where t1: "popReady t = Some t1" "?K k (k\<lparr>kOrder := kOrder k @ [v]\<rparr>)"
        "simulates name names t1 (k\<lparr>kOrder := kOrder k @ [v]\<rparr>)"
        using popReady_step [OF less.prems False] by blast
      then show ?thesis using next_state [OF t1(2,3)] True False lt by (simp add: topoLoop.simps [of name t])
    qed
  qed
qed

text \<open>A graph as the input loop leaves it: nothing is written, and the in-degrees count the edges.\<close>

definition freshGraph :: "graph \<Rightarrow> bool" where
  "freshGraph g \<longleftrightarrow> wfGraph g \<and> (\<forall>v < size_of g. \<not> gDone g ! v \<and> gIndeg g ! v = int (inFrom (edgeMset g) [] v))"

lemma topoSort_runs:
  assumes "freshGraph g"
  shows "\<exists>t k. topoSort name g = Some t \<and> (kahn {..< size_of g} ((!) (gNames g)))\<^sup>*\<^sup>* (kStart (edgeMset g)) k \<and>
    simulates name (gNames g) t k \<and> set (kOrder k) = {..< size_of g}"
proof -
  let ?xs = "filter (\<lambda>i. gIndeg g ! i = 0) [0 ..< size_of g]"
  have "set ?xs = {v. v < size_of g \<and> ready (edgeMset g) [] v}"
    using assms by (auto simp: freshGraph_def ready_def inFrom_0_iff)
  then have "heapHolds (nodeKey g) (heapInit (nodeKey g) ?xs) {v. v < size_of g \<and> ready (edgeMset g) [] v}"
    using hq.holds_make [of ?xs "nodeKey g"] by simp
  then have "simulates name (gNames g) (topoInit g) (kStart (edgeMset g))"
    using assms by (simp add: simulates_def topoInit_def kStart_def freshGraph_def)
  from topoLoop_runs [OF this] show ?thesis by (auto simp: topoSort_def)
qed

end
