(* ===== verification/Tsort_Scan.thy ===== *)
theory Tsort_Scan
  imports Tsort
begin

text \<open>
  The items of an input do not depend on the pieces it arrives in: the scanner of \<open>tsort\<close> returns the maximal
  separator-free runs of the whole input, as long as none reaches the size of the buffer.
\<close>

fun items :: "string \<Rightarrow> string list" where
  "items [] = []"
| "items (c # s) =
     (if isSeparator c then items s
      else if s = [] \<or> isSeparator (hd s) then [c] # items s
      else (case items s of [] \<Rightarrow> [[c]] | w # ws \<Rightarrow> (c # w) # ws))"

definition word :: "string \<Rightarrow> bool" where
  "word w \<longleftrightarrow> w \<noteq> [] \<and> (\<forall>c \<in> set w. \<not> isSeparator c)"

lemma items_separators: "\<forall>c \<in> set s. isSeparator c \<Longrightarrow> items (s @ r) = items r"
  by (induction s) auto

lemma items_word: "word w \<Longrightarrow> s = [] \<or> isSeparator (hd s) \<Longrightarrow> items (w @ s) = w # items s"
proof (induction w)
  case (Cons c w)
  then show ?case by (cases w) (auto simp: word_def)
qed (simp add: word_def)

lemma items_prefix:
  assumes "word p" shows "\<exists>w \<in> set (items (p @ s)). length p \<le> length w"
proof -
  let ?t = "takeWhile (\<lambda>c. \<not> isSeparator c) s" let ?d = "dropWhile (\<lambda>c. \<not> isSeparator c) s"
  have "word (p @ ?t)" using assms by (auto simp: word_def dest: set_takeWhileD)
  moreover have "?d = [] \<or> isSeparator (hd ?d)" using hd_dropWhile [of "\<lambda>c. \<not> isSeparator c" s] by auto
  ultimately have "items ((p @ ?t) @ ?d) = (p @ ?t) # items ?d" by (rule items_word)
  then show ?thesis by simp
qed

text \<open>The three parts of the buffer \<open>splitToken\<close> distinguishes: separators, a word, and what follows it.\<close>

definition parts :: "string \<Rightarrow> string \<Rightarrow> string \<Rightarrow> bool" where
  "parts s t d \<longleftrightarrow> (\<forall>c \<in> set s. isSeparator c) \<and> (t = [] \<and> d = [] \<or> word t) \<and> (d = [] \<or> isSeparator (hd d))"

lemma parts_exist: "\<exists>s t d. buf = s @ t @ d \<and> parts s t d"
proof (induction buf)
  case (Cons c buf)
  then obtain s t d where b: "buf = s @ t @ d" "parts s t d" by blast
  consider "isSeparator c" | "\<not> isSeparator c" "s = []" "t \<noteq> []" | "\<not> isSeparator c" "s = []" "t = []" | "\<not> isSeparator c" "s \<noteq> []"
    by blast
  then show ?case
  proof cases
    case 1
    then have "c # buf = (c # s) @ t @ d" "parts (c # s) t d" using b by (auto simp: parts_def)
    then show ?thesis by blast
  next
    case 2
    then have "c # buf = [] @ (c # t) @ d" "parts [] (c # t) d" using b by (auto simp: parts_def word_def)
    then show ?thesis by blast
  next
    case 3
    then have "c # buf = [] @ [c] @ []" "parts [] [c] []" using b by (auto simp: parts_def word_def)
    then show ?thesis by blast
  next
    case 4
    then have "c # buf = [] @ [c] @ buf" "parts [] [c] buf" using b by (auto simp: parts_def word_def hd_append)
    then show ?thesis by blast
  qed
qed (auto simp: parts_def)

lemma splitToken_parts:
  assumes "parts s t d"
  shows "splitToken (s @ t @ d) eof =
    (if d \<noteq> [] then (length s + length t + 1, Some t)
     else if eof then (length (s @ t), if t = [] then None else Some t) else (length s, None))"
proof -
  have "takeWhile isSeparator (t @ d) = []" using assms by (cases t) (auto simp: parts_def word_def)
  then have s: "takeWhile isSeparator (s @ t @ d) = s" using assms by (simp add: parts_def)
  have "takeWhile (\<lambda>b. \<not> isSeparator b) d = []" using assms by (cases d) (auto simp: parts_def)
  then have t: "takeWhile (\<lambda>b. \<not> isSeparator b) (t @ d) = t" using assms by (auto simp: parts_def word_def)
  show ?thesis unfolding splitToken_def Let_def s by (simp add: t)
qed

lemma splitToken_Some:
  assumes "splitToken buf eof = (adv, Some tok)"
  obtains seps where "\<forall>c \<in> set seps. isSeparator c" "word tok"
    "(\<exists>c. isSeparator c \<and> buf = seps @ tok @ c # drop adv buf) \<or> (eof \<and> buf = seps @ tok \<and> drop adv buf = [])"
proof -
  obtain s t d where b: "buf = s @ t @ d" "parts s t d" using parts_exist by blast
  have sp: "splitToken (s @ t @ d) eof = (adv, Some tok)" using assms b by simp
  then have tok: "tok = t" "word t" using splitToken_parts [OF b(2), of eof] b(2) by (auto simp: parts_def split: if_splits)
  show thesis
  proof (cases d)
    case Nil
    then show thesis using that [of s] b tok sp splitToken_parts [OF b(2), of eof] by (auto simp: parts_def split: if_splits)
  next
    case (Cons c r)
    have "drop adv buf = r" using sp splitToken_parts [OF b(2), of eof] Cons b(1) by simp
    moreover have "isSeparator c" using b(2) Cons by (simp add: parts_def)
    ultimately show thesis using that [of s] b tok Cons by (auto simp: parts_def)
  qed
qed

lemma splitToken_None:
  assumes "splitToken buf eof = (adv, None)"
  obtains seps where "\<forall>c \<in> set seps. isSeparator c" "buf = seps @ drop adv buf" "drop adv buf = [] \<or> \<not> eof \<and> word (drop adv buf)"
proof -
  obtain s t d where b: "buf = s @ t @ d" "parts s t d" using parts_exist by blast
  have sp: "splitToken (s @ t @ d) eof = (adv, None)" using assms b by simp
  then have "d = []" "drop adv buf = t" "eof \<longrightarrow> t = []"
    using splitToken_parts [OF b(2), of eof] b(1) by (auto split: if_splits)
  then show thesis using that [of s] b by (auto simp: parts_def)
qed

lemma splitToken_items:
  assumes "splitToken buf eof = (adv, Some w)" "eof \<Longrightarrow> x = []"
  shows "items (buf @ x) = w # items (drop adv buf @ x)"
proof -
  obtain seps where s: "\<forall>c \<in> set seps. isSeparator c" "word w"
    "(\<exists>c. isSeparator c \<and> buf = seps @ w @ c # drop adv buf) \<or> (eof \<and> buf = seps @ w \<and> drop adv buf = [])"
    by (rule splitToken_Some [OF assms(1)])
  from s(3) show ?thesis
  proof
    assume "\<exists>c. isSeparator c \<and> buf = seps @ w @ c # drop adv buf"
    then obtain c where c: "isSeparator c" "buf = seps @ w @ c # drop adv buf" by blast
    have "items (buf @ x) = items (seps @ w @ c # drop adv buf @ x)" by (subst c(2)) simp
    also have "\<dots> = w # items (drop adv buf @ x)"
      using items_separators [OF s(1)] items_word [OF s(2), of "c # drop adv buf @ x"] c(1) by simp
    finally show ?thesis .
  next
    assume e: "eof \<and> buf = seps @ w \<and> drop adv buf = []"
    then have "items (buf @ x) = [w]" using items_separators [OF s(1)] items_word [OF s(2), of "[]"] assms(2) by simp
    moreover have "drop adv buf @ x = []" using e assms(2) by blast
    ultimately show ?thesis by (metis items.simps(1))
  qed
qed

lemma drainTokens_items: "drainTokens buf = items buf"
proof (induction buf rule: drainTokens.induct)
  case (1 buf)
  obtain adv tok where sp: "splitToken buf True = (adv, tok)" by force
  show ?case
  proof (cases tok)
    case None
    obtain seps where "\<forall>c \<in> set seps. isSeparator c" "buf = seps @ drop adv buf" "drop adv buf = []"
      by (rule splitToken_None [OF sp [unfolded None]]) auto
    then have "items (buf @ []) = []" using items_separators [of seps "[]"] by (metis append_Nil2 items.simps(1))
    then show ?thesis using sp None by (subst drainTokens.simps) simp
  next
    case (Some w)
    have "items buf = w # items (drop adv buf)"
      using sp Some splitToken_items [of buf True adv w "[]"] by simp
    then show ?thesis using 1 sp Some by (subst drainTokens.simps) simp
  qed
qed

lemma scanTokens_items:
  assumes "\<forall>w \<in> set (items (buf @ concat chunks)). length w < maxBuffer"
  shows "scanTokens buf chunks fail = (items (buf @ concat chunks), map_option ReadFail fail)"
  using assms
proof (induction buf chunks fail rule: scanTokens.induct)
  case (1 buf chunks fail)
  obtain adv tok where sp: "splitToken buf False = (adv, tok)" by force
  show ?case
  proof (cases tok)
    case None
    obtain seps where s: "\<forall>c \<in> set seps. isSeparator c" "buf = seps @ drop adv buf" "drop adv buf = [] \<or> word (drop adv buf)"
      by (rule splitToken_None [OF sp [unfolded None]]) auto
    have eq: "items (buf @ x) = items (drop adv buf @ x)" for x
      using s items_separators [of seps "drop adv buf @ x"] by (metis append.assoc)
    have room: "\<not> maxBuffer \<le> length (drop adv buf)"
      using s(3) items_prefix [of "drop adv buf" "concat chunks"] "1.prems" eq by (fastforce simp: maxBuffer_def)
    show ?thesis
    proof (cases chunks)
      case Nil
      then show ?thesis using sp None room drainTokens_items eq [of "[]"] by (subst scanTokens.simps) simp
    next
      case (Cons c cs)
      have "scanTokens (drop adv buf @ c) cs fail = (items ((drop adv buf @ c) @ concat cs), map_option ReadFail fail)"
        using "1.IH"(1) [OF sp [symmetric] None room Cons] "1.prems" eq [of "c @ concat cs"] Cons by simp
      then show ?thesis using sp None room Cons eq [of "c @ concat cs"] by (subst scanTokens.simps) simp
    qed
  next
    case (Some w)
    have eq: "items (buf @ x) = w # items (drop adv buf @ x)" for x
      using splitToken_items [of buf False adv w x] sp Some by simp
    have "scanTokens (drop adv buf) chunks fail = (items (drop adv buf @ concat chunks), map_option ReadFail fail)"
      using "1.IH"(2) [OF sp [symmetric] Some] "1.prems" eq [of "concat chunks"] by simp
    then show ?thesis using sp Some eq [of "concat chunks"] by (subst scanTokens.simps) simp
  qed
qed

end
