(* ===== verification/Tsort_Correct.thy ===== *)
theory Tsort_Correct
  imports Tsort_Refine Tsort_Scan
begin

text \<open>
  The graph the input loop of \<open>tsort\<close> builds, and the properties of a whole run: on an acyclic input the output is the
  topological order that always takes the least item that is ready; on any input every item is written once, each loop
  reported is a loop of the input, and only the pairs that close a reported loop may be out of order.
\<close>

section \<open>The graph of the input\<close>

fun pairs :: "string list \<Rightarrow> (string \<times> string) list" where
  "pairs (a # b # rest) = (a, b) # pairs rest"
| "pairs _ = []"

definition proper :: "(string \<times> string) list \<Rightarrow> (string \<times> string) set" where
  "proper ps = {(a, b) \<in> set ps. a \<noteq> b}"

text \<open>The edges by name.\<close>

definition namedEdges :: "graph \<Rightarrow> (string \<times> string) multiset" where
  "namedEdges g = image_mset (map_prod ((!) (gNames g)) ((!) (gNames g))) (edgeMset g)"

definition represents :: "graph \<Rightarrow> (string \<times> string) list \<Rightarrow> bool" where
  "represents g ps \<longleftrightarrow> freshGraph g \<and> distinct (gNames g) \<and> set (gNames g) = fst ` set ps \<union> snd ` set ps \<and>
     (\<forall>nm i. gIds g nm = Some i \<longleftrightarrow> i < size_of g \<and> gNames g ! i = nm) \<and>
     namedEdges g = mset (filter (\<lambda>(a, b). a \<noteq> b) ps)"

text \<open>The same without the pairs: what \<open>addNode\<close> keeps.\<close>

definition indexed :: "graph \<Rightarrow> bool" where
  "indexed g \<longleftrightarrow> freshGraph g \<and> distinct (gNames g) \<and> (\<forall>nm i. gIds g nm = Some i \<longleftrightarrow> i < size_of g \<and> gNames g ! i = nm)"

lemma mset_pair_eqI: "(\<And>u v. count M (u, v) = count N (u, v)) \<Longrightarrow> M = N"
  by (rule multiset_eqI) (metis surj_pair)

lemma inFrom_out: "wfGraph g \<Longrightarrow> size_of g \<le> v \<Longrightarrow> inFrom (edgeMset g) ord v = 0"
  unfolding inFrom_0_iff by (auto simp: in_edgeMset dest: wfGraph_succ)

lemma addNode_new:
  assumes g: "indexed g" and new: "gIds g nm = None"
  defines "g' \<equiv> g\<lparr>gIds := (gIds g)(nm \<mapsto> size_of g), gNames := gNames g @ [nm], gSucc := gSucc g @ [[]],
    gIndeg := gIndeg g @ [0], gDone := gDone g @ [False]\<rparr>"
  shows "indexed g'" "namedEdges g' = namedEdges g" "set (gNames g') = insert nm (set (gNames g))"
proof -
  have wf: "wfGraph g" using g by (simp add: indexed_def freshGraph_def)
  have len: "length (gSucc g) = size_of g" "length (gIndeg g) = size_of g" "length (gDone g) = size_of g"
    using wf by (auto simp: wfGraph_def)
  have fresh: "nm \<notin> set (gNames g)"
  proof
    assume "nm \<in> set (gNames g)"
    then obtain i where "i < size_of g" "gNames g ! i = nm" by (auto simp: in_set_conv_nth)
    then have "gIds g nm = Some i" using g by (simp add: indexed_def)
    then show False using new by simp
  qed
  have E: "edgeMset g' = edgeMset g"
  proof (rule mset_pair_eqI)
    fix u v
    consider "u < size_of g" | "u = size_of g" | "size_of g < u" by linarith
    then show "count (edgeMset g') (u, v) = count (edgeMset g) (u, v)"
      unfolding count_edgeMset g'_def by cases (simp_all add: len nth_append)
  qed
  have "wfGraph g'" using wf unfolding wfGraph_def g'_def by (auto intro: less_SucI)
  moreover have "\<forall>v < size_of g'. \<not> gDone g' ! v \<and> gIndeg g' ! v = int (inFrom (edgeMset g') [] v)"
    using g inFrom_out [OF wf, of "size_of g"] unfolding E
    by (auto simp: g'_def indexed_def freshGraph_def nth_append len less_Suc_eq)
  ultimately show "indexed g'"
    using g fresh unfolding indexed_def freshGraph_def
    by (auto simp: g'_def nth_append less_Suc_eq split: if_splits)
  have "map_prod ((!) (gNames g')) ((!) (gNames g')) e = map_prod ((!) (gNames g)) ((!) (gNames g)) e" if "e \<in># edgeMset g" for e
    using that wfGraph_succ [OF wf] by (cases e) (auto simp: in_edgeMset g'_def nth_append)
  then show "namedEdges g' = namedEdges g" unfolding namedEdges_def E by (rule image_mset_cong)
  show "set (gNames g') = insert nm (set (gNames g))" by (simp add: g'_def)
qed

lemma addNode_spec:
  assumes g: "indexed g"
  shows "\<exists>i g'. addNode g nm = (i, g') \<and> indexed g' \<and> namedEdges g' = namedEdges g \<and>
    set (gNames g') = insert nm (set (gNames g)) \<and> i < size_of g' \<and> gNames g' ! i = nm \<and>
    (\<forall>k < size_of g. gNames g' ! k = gNames g ! k) \<and> size_of g \<le> size_of g'"
proof (cases "gIds g nm")
  case None
  then show ?thesis using addNode_new [OF g None] by (simp add: addNode_def Let_def nth_append)
next
  case (Some i)
  then have "i < size_of g" "gNames g ! i = nm" using g by (auto simp: indexed_def)
  then show ?thesis using Some g by (auto simp: addNode_def)
qed

lemma addEdge_spec:
  assumes g: "indexed g"
  shows "\<exists>g'. addEdge g a b = Some g' \<and> indexed g' \<and> namedEdges g' = add_mset (a, b) (namedEdges g) \<and>
    set (gNames g') = insert a (insert b (set (gNames g)))"
proof -
  obtain u g1 where 1: "addNode g a = (u, g1)" "indexed g1" "namedEdges g1 = namedEdges g"
    "set (gNames g1) = insert a (set (gNames g))" "u < size_of g1" "gNames g1 ! u = a" using addNode_spec [OF g] by blast
  obtain v g2 where 2: "addNode g1 b = (v, g2)" "indexed g2" "namedEdges g2 = namedEdges g1"
    "set (gNames g2) = insert b (set (gNames g1))" "v < size_of g2" "gNames g2 ! v = b"
    "u < size_of g2" "gNames g2 ! u = a" using addNode_spec [OF 1(2), of b] 1(5,6) by (metis order.strict_trans2)
  let ?g = "g2\<lparr>gSucc := (gSucc g2)[u := gSucc g2 ! u @ [v]], gIndeg := (gIndeg g2)[v := gIndeg g2 ! v + 1]\<rparr>"
  have wf: "wfGraph g2" using 2(2) by (simp add: indexed_def freshGraph_def)
  have len: "length (gSucc g2) = size_of g2" "length (gIndeg g2) = size_of g2" using wf by (auto simp: wfGraph_def)
  have add: "addEdge g a b = Some ?g" using 1(1) 2(1,5,7) len by (simp add: addEdge_def)
  have E: "edgeMset ?g = add_mset (u, v) (edgeMset g2)"
    by (rule mset_pair_eqI) (use 2(5,7) len in \<open>auto simp: count_edgeMset nth_list_update\<close>)
  have "wfGraph ?g" using wf 2(5,7) unfolding wfGraph_def
    by (auto dest!: set_update_subset_insert [THEN subsetD]) (metis nth_mem)
  moreover have "\<forall>w < size_of ?g. \<not> gDone ?g ! w \<and> gIndeg ?g ! w = int (inFrom (edgeMset ?g) [] w)"
    using 2(2,5) len unfolding E by (auto simp: indexed_def freshGraph_def nth_list_update inFrom_def)
  ultimately have "indexed ?g" using 2(2) by (simp add: indexed_def freshGraph_def)
  moreover have "namedEdges ?g = add_mset (a, b) (namedEdges g2)" unfolding namedEdges_def E using 2(6,8) by simp
  ultimately show ?thesis using add 1(3,4) 2(3,4) by auto
qed

lemma loadPairs_spec:
  assumes "represents g ps" "even (length toks)"
  shows "\<exists>g'. loadPairs g toks None = Some (Loaded g') \<and> represents g' (ps @ pairs toks)"
  using assms
proof (induction g toks "None :: scanError option" arbitrary: ps rule: loadPairs.induct)
  case (3 g a b rest)
  have g: "indexed g" using "3.prems"(1) by (simp add: indexed_def represents_def)
  show ?case
  proof (cases "a = b")
    case True
    obtain i g' where n: "addNode g a = (i, g')" "indexed g'" "namedEdges g' = namedEdges g" "set (gNames g') = insert a (set (gNames g))"
      using addNode_spec [OF g, of a] by blast
    then have "represents g' (ps @ [(a, b)])" using "3.prems"(1) True by (auto simp: represents_def indexed_def)
    from "3.hyps"(1) [OF True, unfolded n(1), simplified, OF this] show ?thesis using True n(1) "3.prems"(2) by simp
  next
    case False
    obtain g' where n: "addEdge g a b = Some g'" "indexed g'" "namedEdges g' = add_mset (a, b) (namedEdges g)"
      "set (gNames g') = insert a (insert b (set (gNames g)))" using addEdge_spec [OF g] by blast
    then have "represents g' (ps @ [(a, b)])" using "3.prems"(1) False by (auto simp: represents_def indexed_def)
    from "3.hyps"(2) [OF False n(1) this] show ?thesis using False n(1) "3.prems"(2) by simp
  qed
qed auto

lemma represents_newGraph: "represents newGraph []"
  by (simp add: represents_def newGraph_def freshGraph_def wfGraph_def namedEdges_def edgeMset_def)

lemma set_pairs: "even (length toks) \<Longrightarrow> fst ` set (pairs toks) \<union> snd ` set (pairs toks) = set toks"
  by (induction toks rule: pairs.induct) auto

section \<open>Names and nodes\<close>

lemma before_map: "before ord u v \<Longrightarrow> before (map f ord) (f u) (f v)"
  unfolding before_def by (metis length_map nth_map order.strict_trans)

lemma acyclic_image: "acyclic R \<Longrightarrow> \<forall>(u, v) \<in> S. (f u, f v) \<in> R \<Longrightarrow> acyclic S"
proof (rule acyclicI, intro allI notI)
  fix x assume R: "acyclic R" "\<forall>(u, v) \<in> S. (f u, f v) \<in> R" and x: "(x, x) \<in> S\<^sup>+"
  have "(f a, f b) \<in> R\<^sup>+" if "(a, b) \<in> S\<^sup>+" for a b
    using that by (induction rule: trancl_induct) (use R(2) in \<open>auto intro: trancl_into_trancl\<close>)
  from this [OF x] show False using R(1) by (simp add: acyclic_def)
qed

lemma isLoop_map: "isLoop R c \<Longrightarrow> \<forall>(u, v) \<in> R. (f u, f v) \<in> S \<Longrightarrow> isLoop S (map f c)"
  unfolding isLoop_def by (auto simp: successively_map last_map hd_map intro: successively_mono)

section \<open>A whole run\<close>

definition topological :: "('a \<times> 'a) set \<Rightarrow> 'a set \<Rightarrow> 'a list \<Rightarrow> bool" where
  "topological R S xs \<longleftrightarrow> distinct xs \<and> set xs = S \<and> (\<forall>(a, b) \<in> R. before xs a b)"

text \<open>At each place stands the least item whose predecessors all stand before it.\<close>

definition leastFirst :: "('a \<times> 'a) set \<Rightarrow> ('a::linorder) list \<Rightarrow> bool" where
  "leastFirst R xs \<longleftrightarrow>
     (\<forall>i < length xs. \<forall>w \<in> set xs - set (take i xs). (\<forall>a. (a, w) \<in> R \<longrightarrow> a \<in> set (take i xs)) \<longrightarrow> xs ! i \<le> w)"

definition pairInput :: "stream \<Rightarrow> bool" where
  "pairInput src \<longleftrightarrow> stFail src = None \<and> even (length (items (concat (stChunks src)))) \<and>
     (\<forall>w \<in> set (items (concat (stChunks src))). length w < maxBuffer)"

abbreviation inputItems :: "stream \<Rightarrow> string list" where
  "inputItems src \<equiv> items (concat (stChunks src))"

abbreviation inputPairs :: "stream \<Rightarrow> (string \<times> string) set" where
  "inputPairs src \<equiv> proper (pairs (inputItems src))"

lemma represents_edges:
  assumes "represents g ps"
  shows "(u, v) \<in># edgeMset g \<Longrightarrow> (gNames g ! u, gNames g ! v) \<in> proper ps"
    and "(a, b) \<in> proper ps \<Longrightarrow> \<exists>u v. (u, v) \<in># edgeMset g \<and> a = gNames g ! u \<and> b = gNames g ! v"
proof -
  have "set_mset (namedEdges g) = proper ps" using assms by (auto simp: represents_def proper_def)
  then have eq: "map_prod ((!) (gNames g)) ((!) (gNames g)) ` set_mset (edgeMset g) = proper ps" by (simp add: namedEdges_def)
  show "(gNames g ! u, gNames g ! v) \<in> proper ps" if "(u, v) \<in># edgeMset g"
    using that eq by (metis image_eqI map_prod_simp)
  show "\<exists>u v. (u, v) \<in># edgeMset g \<and> a = gNames g ! u \<and> b = gNames g ! v" if "(a, b) \<in> proper ps"
    using that unfolding eq [symmetric] by force
qed

lemma topoSort_named:
  assumes g: "represents g ps"
  shows "\<exists>t loops. topoSort name g = Some t \<and> distinct (tOut t) \<and> set (tOut t) = set (gNames g) \<and>
    tErr t = concat (map (reportLoop name) loops) \<and> tCycles t = length loops \<and>
    (\<forall>c \<in> set loops. isLoop (proper ps) c) \<and>
    (\<forall>(a, b) \<in> proper ps. before (tOut t) a b \<or> (a, b) \<in> closing ` set loops) \<and>
    (loops = [] \<longrightarrow> leastFirst (proper ps) (tOut t))"
proof -
  let ?n = "(!) (gNames g)" and ?E = "edgeMset g" and ?V = "{..< size_of g}"
  have fresh: "freshGraph g" and dist: "distinct (gNames g)" using g by (auto simp: represents_def)
  obtain t k where t: "topoSort name g = Some t" "(kahn ?V ?n)\<^sup>*\<^sup>* (kStart ?E) k" "simulates name (gNames g) t k" "set (kOrder k) = ?V"
    using topoSort_runs [OF fresh] by blast
  have inv: "kInv ?V ?n ?E k" using kahn_run_kInv [OF t(2)] .
  let ?o = "kOrder k" and ?loops = "map (map ?n) (kLoops k)"
  have inj: "inj_on ?n ?V" using dist by (simp add: inj_on_nth)
  have out: "tOut t = map ?n ?o" and err: "tErr t = concat (map (reportLoop name) ?loops)" and cyc: "tCycles t = length ?loops"
    using t(3) by (simp_all add: simulates_def comp_def)
  have d: "distinct (tOut t)" using inv inj t(4) unfolding out kInv_def by (simp add: distinct_map)
  have "?n ` ?V = set (gNames g)" by (auto simp: set_conv_nth)
  then have s: "set (tOut t) = set (gNames g)" by (simp add: out t(4))
  have loops: "\<forall>c \<in> set (kLoops k). isLoop (set_mset ?E) c \<and> c \<noteq> []" using inv unfolding kInv_def isLoop_def by blast
  then have l: "\<forall>c \<in> set ?loops. isLoop (proper ps) c"
    using represents_edges(1) [OF g] by (auto intro!: isLoop_map [of "set_mset ?E"])
  have E: "?E = kEdges k + mset (map closing (kLoops k))" using inv by (simp add: kInv_def)
  have ord: "before (tOut t) a b \<or> (a, b) \<in> closing ` set ?loops" if ab: "(a, b) \<in> proper ps" for a b
  proof -
    obtain u v where uv: "(u, v) \<in># ?E" "a = ?n u" "b = ?n v" using represents_edges(2) [OF g ab] by blast
    show ?thesis
    proof (cases "(u, v) \<in># kEdges k")
      case True
      have "v \<in> set ?o" using uv(1) wfGraph_succ fresh t(4) by (auto simp: freshGraph_def in_edgeMset)
      then have "before ?o u v" using inv True unfolding kInv_def by blast
      then show ?thesis using before_map uv out by metis
    next
      case False
      then obtain c where c: "c \<in> set (kLoops k)" "closing c = (u, v)" using uv(1) E by auto
      then have "closing (map ?n c) = (a, b)" using loops uv by (auto simp: closing_def last_map hd_map)
      then show ?thesis using c(1) by force
    qed
  qed
  have "leastFirst (proper ps) (tOut t)" if none: "?loops = []"
    unfolding leastFirst_def
  proof (intro allI impI ballI)
    fix i w assume i: "i < length (tOut t)" and w: "w \<in> set (tOut t) - set (take i (tOut t))"
      and pre: "\<forall>a. (a, w) \<in> proper ps \<longrightarrow> a \<in> set (take i (tOut t))"
    obtain v where v: "v \<in> ?V" "w = ?n v" using w s by (auto simp: in_set_conv_nth)
    have tk: "set (take i (tOut t)) = ?n ` set (take i ?o)" by (simp add: out take_map)
    have sub: "set (take i ?o) \<subseteq> ?V" using t(4) by (metis set_take_subset)
    have "ready ?E (take i ?o) v"
      unfolding ready_def
    proof (intro conjI allI impI)
      show "v \<notin> set (take i ?o)" using w v tk by blast
      fix u assume u: "(u, v) \<in># ?E"
      then have "?n u \<in> ?n ` set (take i ?o)" using pre represents_edges(1) [OF g u] v tk by simp
      moreover have "u \<in> ?V" using u by (simp add: in_edgeMset)
      ultimately show "u \<in> set (take i ?o)" using inj_on_image_mem_iff [OF inj _ sub] by blast
    qed
    then show "tOut t ! i \<le> w" using inv v i none out unfolding kInv_def by auto
  qed
  then show ?thesis using t(1) d s err cyc l ord by blast
qed

lemma tsort_run:
  assumes src: "pairInput src"
  shows "\<exists>out loops. tsort warn [] rc src openInput None =
      Some \<lparr>stdout = unlines out, stderr = unlines (concat (map (reportLoop ''-'') loops)), status = cycleStatus warn (length loops)\<rparr> \<and>
    distinct out \<and> set out = set (inputItems src) \<and> (\<forall>c \<in> set loops. isLoop (inputPairs src) c) \<and>
    (\<forall>(a, b) \<in> inputPairs src. before out a b \<or> (a, b) \<in> closing ` set loops) \<and>
    (loops = [] \<longrightarrow> leastFirst (inputPairs src) out)"
proof -
  let ?ts = "inputItems src"
  have scan: "scanTokens [] (stChunks src) (stFail src) = (?ts, None)"
    using scanTokens_items [of "[]" "stChunks src" "stFail src"] src by (simp add: pairInput_def)
  obtain g where g: "loadPairs newGraph ?ts None = Some (Loaded g)" "represents g (pairs ?ts)"
    using loadPairs_spec [OF represents_newGraph, of ?ts] src by (auto simp: pairInput_def)
  have names: "set (gNames g) = set ?ts" using g(2) set_pairs src by (simp add: represents_def pairInput_def)
  obtain t loops where t: "topoSort ''-'' g = Some t" "distinct (tOut t)" "set (tOut t) = set ?ts"
    "tErr t = concat (map (reportLoop ''-'') loops)" "tCycles t = length loops" "\<forall>c \<in> set loops. isLoop (inputPairs src) c"
    "\<forall>(a, b) \<in> inputPairs src. before (tOut t) a b \<or> (a, b) \<in> closing ` set loops"
    "loops = [] \<longrightarrow> leastFirst (inputPairs src) (tOut t)"
    using topoSort_named [OF g(2), of "''-''"] unfolding names by (elim exE conjE) (rule that)
  have "tsort warn [] rc src openInput None =
    Some \<lparr>stdout = unlines (tOut t), stderr = unlines (concat (map (reportLoop ''-'') loops)), status = cycleStatus warn (length loops)\<rparr>"
    using scan g(1) t(1,4,5) by (simp add: tsort_def tsortSource_def)
  then show ?thesis using t(2,3,6-8) by blast
qed

lemma no_loops_acyclic:
  assumes "\<forall>c \<in> set loops. isLoop R c" "\<forall>(a, b) \<in> R. before out a b \<or> (a, b) \<in> closing ` set loops" "distinct out"
  shows "loops = [] \<longleftrightarrow> acyclic R"
proof
  assume "loops = []"
  then show "acyclic R" using assms(2,3) by (intro before_acyclic [of out]) auto
next
  assume "acyclic R"
  then show "loops = []" using assms(1) isLoop_not_acyclic by (cases loops) auto
qed

text \<open>C6: On an input of pairs without a loop, \<open>tsort\<close> exits with status \<open>0\<close>, reports nothing, and writes
  every item once, in an order in which the first item of each pair stands before the second; at each place stands the
  least item, in byte order, whose predecessors have all been written. The pieces the input arrives in do not matter.\<close>

theorem tsort_topological:
  assumes "pairInput src" "acyclic (inputPairs src)"
  shows "\<exists>out. tsort warn [] rc src openInput None = Some \<lparr>stdout = unlines out, stderr = [], status = 0\<rparr> \<and>
    topological (inputPairs src) (set (inputItems src)) out \<and> leastFirst (inputPairs src) out"
proof -
  obtain out loops where r: "tsort warn [] rc src openInput None =
      Some \<lparr>stdout = unlines out, stderr = unlines (concat (map (reportLoop ''-'') loops)), status = cycleStatus warn (length loops)\<rparr>"
    "distinct out" "set out = set (inputItems src)" "\<forall>c \<in> set loops. isLoop (inputPairs src) c"
    "\<forall>(a, b) \<in> inputPairs src. before out a b \<or> (a, b) \<in> closing ` set loops"
    "loops = [] \<longrightarrow> leastFirst (inputPairs src) out"
    using tsort_run [OF assms(1)] by blast
  have "loops = []" using no_loops_acyclic [OF r(4,5,2)] assms(2) by blast
  then show ?thesis using r by (intro exI [of _ out]) (simp add: topological_def cycleStatus_def)
qed

text \<open>C9: On any input of pairs \<open>tsort\<close> ends, and writes every item exactly once, loops or not. It reports a
  loop exactly when the input has one; each report is a loop of the input, the status counts the reports (capped, with
  \<open>-w\<close>) or is \<open>1\<close>, and every pair that does not close a reported loop is in order.\<close>

theorem tsort_writes_all:
  assumes "pairInput src"
  shows "\<exists>out loops. tsort warn [] rc src openInput None =
      Some \<lparr>stdout = unlines out, stderr = unlines (concat (map (reportLoop ''-'') loops)), status = cycleStatus warn (length loops)\<rparr> \<and>
    distinct out \<and> set out = set (inputItems src) \<and> (loops = [] \<longleftrightarrow> acyclic (inputPairs src)) \<and>
    (\<forall>c \<in> set loops. isLoop (inputPairs src) c) \<and>
    (\<forall>(a, b) \<in> inputPairs src. before out a b \<or> (a, b) \<in> closing ` set loops)"
  using tsort_run [OF assms, of warn rc openInput] no_loops_acyclic [of _ "inputPairs src"]
  by (elim exE conjE, intro exI conjI) assumption+

definition demoStream :: stream where
  "demoStream = \<lparr>stChunks = [''c a b a c '', ''b'', [NL], ''d'', '' d'' @ [NL]], stFail = None, stClose = None\<rparr>"

lemma demoStream_items: "inputItems demoStream = [''c'', ''a'', ''b'', ''a'', ''c'', ''b'', ''d'', ''d'']"
  by code_simp

lemma demoStream_pairs: "pairInput demoStream" "set (inputItems demoStream) = {''a'', ''b'', ''c'', ''d''}"
  "inputPairs demoStream = {(''c'', ''a''), (''b'', ''a''), (''c'', ''b'')}"
  unfolding pairInput_def proper_def demoStream_items by (auto simp: demoStream_def maxBuffer_def)

lemma before_nth: "i < j \<Longrightarrow> j < length xs \<Longrightarrow> before xs (xs ! i) (xs ! j)"
  unfolding before_def by blast

lemma demoStream_acyclic: "acyclic (inputPairs demoStream)"
proof (rule before_acyclic)
  let ?xs = "[''c'', ''b'', ''a'']"
  show "distinct ?xs" by simp
  fix u v assume "(u, v) \<in> inputPairs demoStream"
  then show "before ?xs u v"
    using before_nth [of 0 1 ?xs] before_nth [of 0 2 ?xs] before_nth [of 1 2 ?xs] by (auto simp: demoStream_pairs)
qed

theorem tsort_topological_witness:
  "\<exists>out. tsort False [] \<lparr>rcDir = [], rcDirIsCwd = True\<rparr> demoStream (\<lambda>_. Inl []) None = Some \<lparr>stdout = unlines out, stderr = [], status = 0\<rparr> \<and>
    topological {(''c'', ''a''), (''b'', ''a''), (''c'', ''b'')} {''a'', ''b'', ''c'', ''d''} out \<and>
    leastFirst {(''c'', ''a''), (''b'', ''a''), (''c'', ''b'')} out"
  using tsort_topological [OF demoStream_pairs(1) demoStream_acyclic, of False "\<lparr>rcDir = [], rcDirIsCwd = True\<rparr>" "\<lambda>_. Inl []"]
  unfolding demoStream_pairs(2,3) .

definition loopStream :: stream where
  "loopStream = stdinStream ''a b b a b c''"

theorem tsort_writes_all_witness:
  "\<exists>out loops. tsort True [] \<lparr>rcDir = [], rcDirIsCwd = True\<rparr> loopStream (\<lambda>_. Inl []) None =
      Some \<lparr>stdout = unlines out, stderr = unlines (concat (map (reportLoop ''-'') loops)), status = cycleStatus True (length loops)\<rparr> \<and>
    set out = {''a'', ''b'', ''c''}"
proof -
  have i: "inputItems loopStream = [''a'', ''b'', ''b'', ''a'', ''b'', ''c'']" by code_simp
  have p: "pairInput loopStream" and s: "set (inputItems loopStream) = {''a'', ''b'', ''c''}"
    unfolding pairInput_def i by (auto simp: loopStream_def stdinStream_def maxBuffer_def)
  show ?thesis
    using tsort_writes_all [OF p, of True "\<lparr>rcDir = [], rcDirIsCwd = True\<rparr>" "\<lambda>_. Inl []"] unfolding s
    by (elim exE conjE) (intro exI conjI)
qed

end
