(* ===== verification/Comm.thy ===== *)
theory Comm
  imports Go_Input "HOL-Library.Multiset"
begin

text \<open>
  \<open>comm\<close> (\<open>src/cmds/comm/comm.go\<close>): the reading of \<open>-1\<close>, \<open>-2\<close> and \<open>-3\<close>, the record reader, the merge with its order
  check, and the run from the parsed options on. The comparison is a parameter, as it is in the source; \<open>compareBytes\<close>
  is the one of the C locale.
\<close>

section \<open>Options\<close>

record commFlags =
  cSuppress1 :: bool
  cSuppress2 :: bool
  cSuppress3 :: bool
  cCheckOrder :: bool
  cNocheckOrder :: bool
  cDelim :: string
  cTotal :: bool
  cZero :: bool

definition suppressed :: "commFlags \<Rightarrow> nat \<Rightarrow> bool" where
  "suppressed f col = (if col = 1 then cSuppress1 f else if col = 2 then cSuppress2 f else if col = 3 then cSuppress3 f else False)"

definition isColumnDigit :: "char \<Rightarrow> bool" where
  "isColumnDigit c = (c = CHR ''1'' \<or> c = CHR ''2'' \<or> c = CHR ''3'')"

text \<open>The pre-parse: the columns suppressed and the arguments left for the flag parser. A cluster loses its digits, and the
  rest of it is kept.\<close>

fun preparse :: "bool \<Rightarrow> string list \<Rightarrow> char list \<times> string list" where
  "preparse pending [] = ([], [])"
| "preparse pending (a # args) =
     (if pending then (case preparse False args of (ds, rest) \<Rightarrow> (ds, a # rest))
      else if a = ''--'' then ([], a # args)
      else if a = ''-'' \<or> \<not> hasPrefix a ''-'' then ([], a # args)
      else if hasPrefix a ''--'' then
        (case cutEquals (drop 2 a) of
           (name, hasValue) \<Rightarrow>
             (case preparse (\<not> hasValue \<and> hasPrefix ''output-delimiter'' name) args of (ds, rest) \<Rightarrow> (ds, a # rest)))
      else if list_ex isColumnDigit (tl a) then
        (let rebuilt = CHR ''-'' # filter (\<lambda>c. \<not> isColumnDigit c) (tl a)
         in case preparse False args of
              (ds, rest) \<Rightarrow> (filter isColumnDigit (tl a) @ ds, if length rebuilt > 1 then rebuilt # rest else rest))
      else (case preparse False args of (ds, rest) \<Rightarrow> (ds, a # rest)))"

section \<open>Records\<close>

text \<open>What is left of an input, and the error that ends it (\<open>None\<close> is the end of the file).\<close>

record recordReader =
  rrRest :: string
  rrFail :: "string option"

text \<open>\<open>ReadString\<close> returns the bytes up to and including the delimiter, or all that is left together with the error.\<close>

definition readString :: "char \<Rightarrow> recordReader \<Rightarrow> string \<times> bool \<times> recordReader" where
  "readString delim r =
     (let before = takeWhile (\<lambda>c. c \<noteq> delim) (rrRest r) in
      if length before < length (rrRest r)
      then (before @ [delim], False, r\<lparr>rrRest := drop (length before + 1) (rrRest r)\<rparr>)
      else (before, True, r\<lparr>rrRest := []\<rparr>))"

definition nextRecord :: "char \<Rightarrow> recordReader \<Rightarrow> string \<times> bool \<times> string option \<times> recordReader" where
  "nextRecord delim r =
     (case readString delim r of
        (record, atEnd, r') \<Rightarrow>
          if record \<noteq> [] then
            ((if last record = delim then butlast record else record), True, (if atEnd then rrFail r else None), r')
          else ([], False, rrFail r, r'))"

section \<open>The merge\<close>

record fileState =
  fsCurrent :: string
  fsHave :: bool
  fsInput :: recordReader
  fsWarned :: bool

record commState =
  cFile1 :: fileState
  cFile2 :: fileState
  cSeenUnpairable :: bool
  cCount1 :: nat
  cCount2 :: nat
  cCount3 :: nat
  cOut :: bufWriter
  cErr :: "string list"

definition terminator :: "commFlags \<Rightarrow> char" where
  "terminator f = (if cZero f then NUL else NL)"

definition emit :: "commFlags \<Rightarrow> nat \<Rightarrow> string \<Rightarrow> commState \<Rightarrow> commState" where
  "emit f col line st =
     (let st' = (if col = 1 then st\<lparr>cCount1 := cCount1 st + 1\<rparr>
                 else if col = 2 then st\<lparr>cCount2 := cCount2 st + 1\<rparr>
                 else st\<lparr>cCount3 := cCount3 st + 1\<rparr>)
      in if suppressed f col then st'
         else let tabs = length (filter (\<lambda>c. \<not> suppressed f c) [1 ..< col])
              in st'\<lparr>cOut := bwWriteByte (bwWriteString (bwWriteString (cOut st') (concat (replicate tabs (cDelim f)))) line) (terminator f)\<rparr>)"

definition fileOf :: "nat \<Rightarrow> commState \<Rightarrow> fileState" where
  "fileOf i st = (if i = 1 then cFile1 st else cFile2 st)"

definition setFile :: "nat \<Rightarrow> fileState \<Rightarrow> commState \<Rightarrow> commState" where
  "setFile i f st = (if i = 1 then st\<lparr>cFile1 := f\<rparr> else st\<lparr>cFile2 := f\<rparr>)"

definition complain :: "string \<Rightarrow> commState \<Rightarrow> commState" where
  "complain msg st = st\<lparr>cErr := cErr st @ [msg]\<rparr>"

definition unsortedMsg :: "nat \<Rightarrow> string" where
  "unsortedMsg i = ''comm: file '' @ Itoa (int i) @ '' is not in sorted order''"

type_synonym comparison = "string \<Rightarrow> string \<Rightarrow> string + int"

text \<open>\<open>advance\<close>: read the next record of a file and compare it with its predecessor.\<close>

definition advance :: "commFlags \<Rightarrow> comparison \<Rightarrow> (nat \<Rightarrow> string) \<Rightarrow> nat \<Rightarrow> commState \<Rightarrow> bool \<times> commState" where
  "advance f compare operand i st =
     (let fi = fileOf i st in
      case nextRecord (terminator f) (fsInput fi) of
        (nxt, ok, Some e, r) \<Rightarrow> (False, complain (''comm: '' @ operand i @ '': '' @ e) (setFile i (fi\<lparr>fsInput := r\<rparr>) st))
      | (nxt, ok, None, r) \<Rightarrow>
          let fi' = fi\<lparr>fsCurrent := nxt, fsHave := ok, fsInput := r\<rparr>;
              st' = setFile i fi' st
          in if fsHave fi \<and> ok then
               (case compare (fsCurrent fi) nxt of
                  Inl e \<Rightarrow> (False, complain (''comm: comparison failed: '' @ e) st')
                | Inr order \<Rightarrow>
                    if order > 0 \<and> \<not> cNocheckOrder f then
                      (if cCheckOrder f then (False, complain (unsortedMsg i) st')
                       else if cSeenUnpairable st \<and> \<not> fsWarned fi
                       then (True, complain (unsortedMsg i) (setFile i (fi'\<lparr>fsWarned := True\<rparr>) st'))
                       else (True, st'))
                    else (True, st'))
             else (True, st'))"

definition advanceBoth :: "commFlags \<Rightarrow> comparison \<Rightarrow> (nat \<Rightarrow> string) \<Rightarrow> commState \<Rightarrow> bool \<times> commState" where
  "advanceBoth f compare operand st =
     (case advance f compare operand 1 st of
        (False, st1) \<Rightarrow> (False, st1)
      | (True, st1) \<Rightarrow> advance f compare operand 2 st1)"

text \<open>One round of the loop: the sign of the comparison decides the column.\<close>

definition compareHeads :: "comparison \<Rightarrow> commState \<Rightarrow> string + int" where
  "compareHeads compare st =
     (if \<not> fsHave (cFile1 st) then Inr 1
      else if \<not> fsHave (cFile2 st) then Inr (- 1)
      else compare (fsCurrent (cFile1 st)) (fsCurrent (cFile2 st)))"

definition mergeStep :: "commFlags \<Rightarrow> comparison \<Rightarrow> (nat \<Rightarrow> string) \<Rightarrow> commState \<Rightarrow> bool \<times> commState" where
  "mergeStep f compare operand st =
     (case compareHeads compare st of
        Inl e \<Rightarrow> (False, complain (''comm: comparison failed: '' @ e) st)
      | Inr d \<Rightarrow>
          if d < 0 then advance f compare operand 1 (emit f 1 (fsCurrent (cFile1 st)) (st\<lparr>cSeenUnpairable := True\<rparr>))
          else if d > 0 then advance f compare operand 2 (emit f 2 (fsCurrent (cFile2 st)) (st\<lparr>cSeenUnpairable := True\<rparr>))
          else advanceBoth f compare operand (emit f 3 (fsCurrent (cFile1 st)) st))"

partial_function (option) mergeLoop :: "commFlags \<Rightarrow> comparison \<Rightarrow> (nat \<Rightarrow> string) \<Rightarrow> commState \<Rightarrow> (bool \<times> commState) option" where
  "mergeLoop f compare operand st =
     (if fsHave (cFile1 st) \<or> fsHave (cFile2 st) then
        (let (ok, st') = mergeStep f compare operand st
         in if ok then mergeLoop f compare operand st' else Some (False, st'))
      else Some (True, st))"

declare mergeLoop.simps [code]

section \<open>The run\<close>

definition totalLine :: "commFlags \<Rightarrow> nat \<Rightarrow> nat \<Rightarrow> nat \<Rightarrow> string" where
  "totalLine f n1 n2 n3 =
     (let c1 = (if cSuppress1 f then 0 else int n1);
          c2 = (if cSuppress2 f then 0 else int n2);
          c3 = (if cSuppress3 f then 0 else int n3)
      in Itoa c1 @ cDelim f @ Itoa c2 @ cDelim f @ Itoa c3 @ cDelim f @ Itoa (c1 + c2 + c3) @ '' total'' @ [terminator f])"

definition startFile :: "recordReader \<Rightarrow> fileState" where
  "startFile r = \<lparr>fsCurrent = [], fsHave = False, fsInput = r, fsWarned = False\<rparr>"

definition startMerge :: "recordReader \<Rightarrow> recordReader \<Rightarrow> commState" where
  "startMerge r1 r2 =
     \<lparr>cFile1 = startFile r1, cFile2 = startFile r2, cSeenUnpairable = False, cCount1 = 0, cCount2 = 0, cCount3 = 0,
      cOut = newWriter, cErr = []\<rparr>"

text \<open>On an early return what is still in the buffer is not written; \<open>flush\<close> is the error of writing it out at the end.\<close>

definition commMerge :: "commFlags \<Rightarrow> comparison \<Rightarrow> (nat \<Rightarrow> string) \<Rightarrow> recordReader \<Rightarrow> recordReader \<Rightarrow> string option \<Rightarrow> outcome option" where
  "commMerge f compare operand r1 r2 flush =
     (case advanceBoth f compare operand (startMerge r1 r2) of
        (False, st) \<Rightarrow> Some \<lparr>stdout = bwSent (cOut st), stderr = unlines (cErr st), status = 1\<rparr>
      | (True, st) \<Rightarrow>
          (case mergeLoop f compare operand st of
             None \<Rightarrow> None
           | Some (False, st') \<Rightarrow> Some \<lparr>stdout = bwSent (cOut st'), stderr = unlines (cErr st'), status = 1\<rparr>
           | Some (True, st') \<Rightarrow>
               let out = bwSent (bwFlush (if cTotal f then bwWriteString (cOut st') (totalLine f (cCount1 st') (cCount2 st') (cCount3 st')) else cOut st'))
               in case flush of
                    Some e \<Rightarrow> Some \<lparr>stdout = out, stderr = unlines (cErr st' @ [''comm: write failed: '' @ e]), status = 1\<rparr>
                  | None \<Rightarrow>
                      if fsWarned (cFile1 st') \<or> fsWarned (cFile2 st')
                      then Some \<lparr>stdout = out, stderr = unlines (cErr st' @ [''comm: input is not in sorted order'']), status = 1\<rparr>
                      else Some \<lparr>stdout = out, stderr = unlines (cErr st'), status = 0\<rparr>))"

definition comm :: "commFlags \<Rightarrow> comparison \<Rightarrow> string list \<Rightarrow> (string \<Rightarrow> string + recordReader) \<Rightarrow> string option \<Rightarrow> outcome option" where
  "comm f compare operands openReader flush =
     (case operands of
        [] \<Rightarrow> Some (UsageError ''comm'' ''missing operand'')
      | [a] \<Rightarrow> Some (UsageError ''comm'' (''missing operand after '' @ quoted a))
      | [a, b] \<Rightarrow>
          if a = ''-'' \<and> b = ''-'' then Some (UsageError ''comm'' ''both files cannot be standard input'')
          else (case openReader a of
                  Inl e \<Rightarrow> Some (failed (unlines [''comm: '' @ a @ '': '' @ e]) 1)
                | Inr r1 \<Rightarrow>
                    (case openReader b of
                       Inl e \<Rightarrow> Some (failed (unlines [''comm: '' @ b @ '': '' @ e]) 1)
                     | Inr r2 \<Rightarrow> commMerge f compare (\<lambda>i. if i = 1 then a else b) r1 r2 flush))
      | a # b # c # _ \<Rightarrow> Some (UsageError ''comm'' (''extra operand '' @ quoted c)))"

text \<open>\<open>strings.Compare\<close>.\<close>

definition compareBytes :: comparison where
  "compareBytes a b = Inr (if a = b then 0 else if a < b then - 1 else 1)"

end
