(* ===== verification/Comm_Correct.thy ===== *)
theory Comm_Correct
  imports Comm
begin

text \<open>
  The merge of \<open>comm\<close>, on lists of records: it returns, its rows are those of the merge of the two lists, and on sorted
  inputs the three columns are the two multiset differences and the intersection. With \<open>--check-order\<close> the run succeeds
  exactly on sorted inputs.
\<close>

section \<open>Records\<close>

function records :: "char \<Rightarrow> string \<Rightarrow> string list" where
  "records d s =
     (if s = [] then []
      else takeWhile (\<lambda>c. c \<noteq> d) s # records d (drop (length (takeWhile (\<lambda>c. c \<noteq> d) s) + 1) s))"
  by pat_completeness auto
termination
  by (relation "measure (\<lambda>(d, s). length s)") auto

declare records.simps [simp del]

lemma records_Nil [simp]: "records d [] = []" "records d s = [] \<longleftrightarrow> s = []"
  by (subst records.simps, simp)+

lemma nextRecord_none:
  assumes "rrRest r = []" "rrFail r = None"
  shows "nextRecord d r = ([], False, None, r)"
  using assms by (simp add: nextRecord_def readString_def)

lemma nextRecord_some:
  assumes "records d (rrRest r) = l # ls" "rrFail r = None"
  shows "\<exists>r'. nextRecord d r = (l, True, None, r') \<and> records d (rrRest r') = ls \<and> rrFail r' = None"
proof -
  let ?t = "takeWhile (\<lambda>c. c \<noteq> d) (rrRest r)"
  have ne: "rrRest r \<noteq> []" using assms(1) by auto
  have l: "l = ?t" "ls = records d (drop (length ?t + 1) (rrRest r))"
    using assms(1) ne records.simps [of d "rrRest r"] by auto
  show ?thesis
  proof (cases "length ?t < length (rrRest r)")
    case True
    then show ?thesis using l assms(2) by (simp add: nextRecord_def readString_def Let_def)
  next
    case False
    then have t: "?t = rrRest r" by (metis length_append length_greater_0_conv less_add_same_cancel1 takeWhile_dropWhile_id append_Nil2)
    then have "last ?t \<in> set ?t" using ne by (simp only: t) simp
    then have "last ?t \<noteq> d" by (blast dest: set_takeWhileD)
    moreover have "?t \<noteq> []" using ne by (simp only: t) simp
    ultimately show ?thesis using l assms(2) False by (simp add: nextRecord_def readString_def Let_def)
  qed
qed

section \<open>Views\<close>

text \<open>What is left of a file, the current record first.\<close>

definition fileView :: "char \<Rightarrow> fileState \<Rightarrow> string list \<Rightarrow> bool" where
  "fileView d fi xs \<longleftrightarrow> rrFail (fsInput fi) = None \<and>
     (if fsHave fi then xs = fsCurrent fi # records d (rrRest (fsInput fi)) else xs = [] \<and> rrRest (fsInput fi) = [])"

lemma fileView_have: "fileView d fi xs \<Longrightarrow> fsHave fi \<longleftrightarrow> xs \<noteq> []"
  by (auto simp: fileView_def split: if_splits)

lemma fileView_Cons: "fileView d fi (x # xs) \<Longrightarrow> fsCurrent fi = x"
  by (auto simp: fileView_def split: if_splits)

definition strict :: "commFlags \<Rightarrow> bool" where
  "strict f \<longleftrightarrow> cCheckOrder f \<and> \<not> cNocheckOrder f"

text \<open>The parts of the state a call of \<open>advance\<close> leaves alone.\<close>

definition sameMerge :: "commState \<Rightarrow> commState \<Rightarrow> bool" where
  "sameMerge st st' \<longleftrightarrow> cOut st' = cOut st \<and> cCount1 st' = cCount1 st \<and> cCount2 st' = cCount2 st \<and> cCount3 st' = cCount3 st"

definition quiet :: "commState \<Rightarrow> commState \<Rightarrow> bool" where
  "quiet st st' \<longleftrightarrow> cErr st' = cErr st \<and> fsWarned (cFile1 st') = fsWarned (cFile1 st) \<and> fsWarned (cFile2 st') = fsWarned (cFile2 st)"

lemma fileOf_setFile [simp]:
  "i \<in> {1, 2} \<Longrightarrow> fileOf i (setFile i fi st) = fi"
  "i \<in> {1, 2} \<Longrightarrow> j \<in> {1, 2} \<Longrightarrow> i \<noteq> j \<Longrightarrow> fileOf j (setFile i fi st) = fileOf j st"
  "fileOf i (complain m st) = fileOf i st"
  by (auto simp: fileOf_def setFile_def complain_def)

lemma sameMerge_setFile [simp]: "sameMerge st (setFile i fi st)" "sameMerge st (complain m st') = sameMerge st st'"
  "sameMerge st (setFile i fi st') = sameMerge st st'"
  by (auto simp: sameMerge_def setFile_def complain_def)

lemma quiet_setFile: "fsWarned fi = fsWarned (fileOf i st) \<Longrightarrow> quiet st (setFile i fi st)"
  by (auto simp: quiet_def setFile_def fileOf_def)

definition disorder :: "string \<Rightarrow> string list \<Rightarrow> bool" where
  "disorder x xs \<longleftrightarrow> xs \<noteq> [] \<and> hd xs < x"

lemma sorted_disorder: "sorted (x # xs) \<longleftrightarrow> \<not> disorder x xs \<and> sorted xs"
  by (cases xs) (auto simp: disorder_def)

definition advanced :: "commFlags \<Rightarrow> nat \<Rightarrow> bool \<Rightarrow> string list \<Rightarrow> commState \<Rightarrow> bool \<times> commState \<Rightarrow> bool" where
  "advanced f i bad xs st r \<longleftrightarrow>
     (fst r \<longleftrightarrow> \<not> (strict f \<and> bad)) \<and> fileView (terminator f) (fileOf i (snd r)) xs \<and>
     (\<forall>j \<in> {1, 2}. j \<noteq> i \<longrightarrow> fileOf j (snd r) = fileOf j st) \<and> sameMerge st (snd r) \<and>
     (cNocheckOrder f \<or> \<not> bad \<longrightarrow> quiet st (snd r))"

text \<open>Advancing a file whose current record is the head of its view.\<close>

lemma advance_view:
  assumes v: "fileView (terminator f) (fileOf i st) (x # xs)" and i: "i \<in> {1, 2}"
  shows "advanced f i (disorder x xs) xs st (advance f compareBytes operand i st)"
proof -
  let ?fi = "fileOf i st" and ?d = "terminator f"
  have have_: "fsHave ?fi" "fsCurrent ?fi = x" and r: "records ?d (rrRest (fsInput ?fi)) = xs" "rrFail (fsInput ?fi) = None"
    using v by (auto simp: fileView_def split: if_splits)
  show ?thesis
  proof (cases xs)
    case Nil
    then have "nextRecord ?d (fsInput ?fi) = ([], False, None, fsInput ?fi)" using r by (intro nextRecord_none) auto
    then have "advance f compareBytes operand i st = (True, setFile i (?fi\<lparr>fsCurrent := [], fsHave := False, fsInput := fsInput ?fi\<rparr>) st)"
      by (simp add: advance_def Let_def)
    then show ?thesis using Nil i r by (auto simp: advanced_def disorder_def fileView_def intro!: quiet_setFile)
  next
    case (Cons l ls)
    obtain r' where n: "nextRecord ?d (fsInput ?fi) = (l, True, None, r')" "records ?d (rrRest r') = ls" "rrFail r' = None"
      using nextRecord_some [of ?d "fsInput ?fi" l ls] r Cons by auto
    let ?f1 = "?fi\<lparr>fsCurrent := l, fsHave := True, fsInput := r'\<rparr>"
    have view: "fileView ?d ?f1 xs" "fileView ?d (?f1\<lparr>fsWarned := True\<rparr>) xs" using n Cons by (auto simp: fileView_def)
    have q: "quiet st (setFile i ?f1 st)" by (rule quiet_setFile) simp
    have bad: "disorder x xs \<longleftrightarrow> l < x" using Cons by (simp add: disorder_def)
    have "advance f compareBytes operand i st =
      (if l < x \<and> \<not> cNocheckOrder f then
         (if cCheckOrder f then (False, complain (unsortedMsg i) (setFile i ?f1 st))
          else if cSeenUnpairable st \<and> \<not> fsWarned ?fi
          then (True, complain (unsortedMsg i) (setFile i (?f1\<lparr>fsWarned := True\<rparr>) (setFile i ?f1 st)))
          else (True, setFile i ?f1 st))
       else (True, setFile i ?f1 st))"
      using n(1) have_ by (auto simp: advance_def Let_def compareBytes_def)
    then show ?thesis using view q i by (auto simp: advanced_def bad strict_def)
  qed
qed

text \<open>The first advance of a file.\<close>

lemma advance_start:
  assumes "\<not> fsHave (fileOf i st)" "rrFail (fsInput (fileOf i st)) = None" "i \<in> {1, 2}"
  shows "advanced f i False (records (terminator f) (rrRest (fsInput (fileOf i st)))) st (advance f compareBytes operand i st)"
proof -
  let ?fi = "fileOf i st" and ?d = "terminator f"
  show ?thesis
  proof (cases "records ?d (rrRest (fsInput ?fi))")
    case Nil
    then have "nextRecord ?d (fsInput ?fi) = ([], False, None, fsInput ?fi)" using assms by (intro nextRecord_none) auto
    then show ?thesis using Nil assms by (auto simp: advance_def Let_def advanced_def fileView_def intro!: quiet_setFile)
  next
    case (Cons l ls)
    obtain r' where n: "nextRecord ?d (fsInput ?fi) = (l, True, None, r')" "records ?d (rrRest r') = ls" "rrFail r' = None"
      using nextRecord_some [OF Cons] assms by auto
    then show ?thesis using Cons assms by (auto simp: advance_def Let_def advanced_def fileView_def intro!: quiet_setFile)
  qed
qed

section \<open>The rows\<close>

fun mergeRows :: "string list \<Rightarrow> string list \<Rightarrow> (nat \<times> string) list" where
  "mergeRows [] ys = map (Pair 2) ys"
| "mergeRows (x # xs) [] = map (Pair 1) (x # xs)"
| "mergeRows (x # xs) (y # ys) =
     (if x < y then (1, x) # mergeRows xs (y # ys)
      else if y < x then (2, y) # mergeRows (x # xs) ys
      else (3, x) # mergeRows xs ys)"

definition render :: "commFlags \<Rightarrow> nat \<times> string \<Rightarrow> string" where
  "render f row =
     (case row of (col, line) \<Rightarrow>
        if suppressed f col then []
        else concat (replicate (length (filter (\<lambda>c. \<not> suppressed f c) [1 ..< col])) (cDelim f)) @ line @ [terminator f])"

definition column :: "nat \<Rightarrow> (nat \<times> string) list \<Rightarrow> string list" where
  "column i rows = map snd (filter (\<lambda>(c, l). c = i) rows)"

definition produced :: "commFlags \<Rightarrow> (nat \<times> string) list \<Rightarrow> commState \<Rightarrow> commState \<Rightarrow> bool" where
  "produced f rows st st' \<longleftrightarrow> bwAll (cOut st') = bwAll (cOut st) @ concat (map (render f) rows) \<and>
     cCount1 st' = cCount1 st + length (column 1 rows) \<and> cCount2 st' = cCount2 st + length (column 2 rows) \<and>
     cCount3 st' = cCount3 st + length (column 3 rows)"

lemma produced_emit: "i \<in> {1, 2, 3} \<Longrightarrow> produced f [(i, l)] st (emit f i l st)"
  by (auto simp: produced_def emit_def render_def column_def Let_def)

lemma produced_trans: "produced f xs st st1 \<Longrightarrow> produced f ys st1 st2 \<Longrightarrow> produced f (xs @ ys) st st2"
  by (auto simp: produced_def column_def)

lemma produced_same: "sameMerge st st' \<Longrightarrow> produced f [] st st'"
  by (auto simp: produced_def sameMerge_def column_def)

lemma emit_files [simp]:
  "fileOf i (emit f c l st) = fileOf i st" "fileOf i (st\<lparr>cSeenUnpairable := b\<rparr>) = fileOf i st" "cErr (emit f c l st) = cErr st"
  by (auto simp: fileOf_def emit_def Let_def)

lemma quiet_emit [simp]: "quiet (emit f c l st) st' = quiet st st'" "quiet (st\<lparr>cSeenUnpairable := b\<rparr>) st' = quiet st st'"
  by (auto simp: quiet_def emit_def Let_def)

lemma produced_seen [simp]: "produced f rows (st\<lparr>cSeenUnpairable := b\<rparr>) st' = produced f rows st st'"
  by (auto simp: produced_def)

lemma quiet_trans: "quiet a b \<Longrightarrow> quiet b c \<Longrightarrow> quiet a c"
  by (auto simp: quiet_def)

section \<open>The loop\<close>

definition viewing :: "commFlags \<Rightarrow> commState \<Rightarrow> string list \<Rightarrow> string list \<Rightarrow> bool" where
  "viewing f st xs ys \<longleftrightarrow> fileView (terminator f) (cFile1 st) xs \<and> fileView (terminator f) (cFile2 st) ys"

lemma viewing_fileOf: "viewing f st xs ys \<longleftrightarrow> fileView (terminator f) (fileOf 1 st) xs \<and> fileView (terminator f) (fileOf 2 st) ys"
  by (simp add: viewing_def fileOf_def)

text \<open>One round takes the rows from the views, and fails exactly on a disorder it must report.\<close>

definition stepped :: "commFlags \<Rightarrow> bool \<Rightarrow> nat \<times> string \<Rightarrow> string list \<Rightarrow> string list \<Rightarrow> commState \<Rightarrow> bool \<times> commState \<Rightarrow> bool" where
  "stepped f bad row xs ys st r \<longleftrightarrow>
     (fst r \<longleftrightarrow> \<not> (strict f \<and> bad)) \<and>
     (fst r \<longrightarrow> viewing f (snd r) xs ys \<and> produced f [row] st (snd r)) \<and>
     (cNocheckOrder f \<or> \<not> bad \<longrightarrow> quiet st (snd r))"

lemma advanceBoth_stepped:
  assumes "advanced f 1 bad1 xs st (advance f compareBytes operand 1 st)"
    and "\<And>st1. fileOf 2 st1 = fileOf 2 st \<Longrightarrow> advanced f 2 bad2 ys st1 (advance f compareBytes operand 2 st1)"
  shows "(case advanceBoth f compareBytes operand st of (ok, st') \<Rightarrow>
    (ok \<longleftrightarrow> \<not> (strict f \<and> (bad1 \<or> bad2))) \<and> (ok \<longrightarrow> viewing f st' xs ys \<and> sameMerge st st') \<and>
    (cNocheckOrder f \<or> \<not> bad1 \<and> \<not> bad2 \<longrightarrow> quiet st st'))"
proof -
  obtain ok1 st1 where a1: "advance f compareBytes operand 1 st = (ok1, st1)" by force
  have f2: "fileOf 2 st1 = fileOf 2 st" using assms(1) a1 by (simp add: advanced_def)
  obtain ok2 st2 where a2: "advance f compareBytes operand 2 st1 = (ok2, st2)" by force
  note A1 = assms(1) [unfolded a1 advanced_def fst_conv snd_conv]
  note A2 = assms(2) [OF f2, unfolded a2 advanced_def fst_conv snd_conv]
  show ?thesis
  proof (cases ok1)
    case True
    then have "advanceBoth f compareBytes operand st = (ok2, st2)" using a1 a2 by (simp add: advanceBoth_def)
    moreover have "fileOf 1 st2 = fileOf 1 st1" using A2 by simp
    then have "viewing f st2 xs ys" using A1 A2 by (simp add: viewing_fileOf)
    moreover have "sameMerge st st2" using A1 A2 by (simp add: sameMerge_def)
    ultimately show ?thesis using A1 A2 True quiet_trans [of st st1 st2] by auto
  next
    case False
    then have "advanceBoth f compareBytes operand st = (False, st1)" using a1 by (simp add: advanceBoth_def)
    then show ?thesis using A1 False by (auto simp: strict_def)
  qed
qed

lemma stepped_single:
  assumes a: "advanced f i bad zs (emit f i l (st\<lparr>cSeenUnpairable := True\<rparr>)) r" and i: "i \<in> {1, 2}"
    and view: "viewing f (snd r) xs ys"
  shows "stepped f bad (i, l) xs ys st r"
proof -
  have "produced f ([(i, l)] @ []) st (snd r)"
    using a i produced_trans [OF produced_emit [of i f l "st\<lparr>cSeenUnpairable := True\<rparr>"] produced_same] by (auto simp: advanced_def)
  then show ?thesis using a view by (auto simp: stepped_def advanced_def)
qed

lemma mergeStep_1:
  assumes v: "viewing f st (x # xs) ys" and lt: "ys = [] \<or> x < hd ys"
  shows "stepped f (disorder x xs) (1, x) xs ys st (mergeStep f compareBytes operand st)"
proof -
  let ?s = "emit f 1 x (st\<lparr>cSeenUnpairable := True\<rparr>)"
  have h: "fsHave (cFile1 st)" "fsCurrent (cFile1 st) = x" "fsHave (cFile2 st) \<longleftrightarrow> ys \<noteq> []" "ys \<noteq> [] \<Longrightarrow> fsCurrent (cFile2 st) = hd ys"
    using v by (auto simp: viewing_def fileView_def split: if_splits)
  have "mergeStep f compareBytes operand st = advance f compareBytes operand 1 ?s"
    using h lt by (auto simp: mergeStep_def compareHeads_def compareBytes_def)
  moreover have a: "advanced f 1 (disorder x xs) xs ?s (advance f compareBytes operand 1 ?s)"
    by (rule advance_view) (use v in \<open>simp_all add: viewing_fileOf\<close>)
  moreover have "viewing f (snd (advance f compareBytes operand 1 ?s)) xs ys"
    using a v by (auto simp: advanced_def viewing_fileOf)
  ultimately show ?thesis using stepped_single [OF a] by simp
qed

lemma mergeStep_2:
  assumes v: "viewing f st xs (y # ys)" and lt: "xs = [] \<or> y < hd xs"
  shows "stepped f (disorder y ys) (2, y) xs ys st (mergeStep f compareBytes operand st)"
proof -
  let ?s = "emit f 2 y (st\<lparr>cSeenUnpairable := True\<rparr>)"
  have h: "fsHave (cFile2 st)" "fsCurrent (cFile2 st) = y" "fsHave (cFile1 st) \<longleftrightarrow> xs \<noteq> []" "xs \<noteq> [] \<Longrightarrow> fsCurrent (cFile1 st) = hd xs"
    using v by (auto simp: viewing_def fileView_def split: if_splits)
  have "mergeStep f compareBytes operand st = advance f compareBytes operand 2 ?s"
    using h lt by (auto simp: mergeStep_def compareHeads_def compareBytes_def)
  moreover have a: "advanced f 2 (disorder y ys) ys ?s (advance f compareBytes operand 2 ?s)"
    by (rule advance_view) (use v in \<open>simp_all add: viewing_fileOf\<close>)
  moreover have "viewing f (snd (advance f compareBytes operand 2 ?s)) xs ys"
    using a v by (auto simp: advanced_def viewing_fileOf)
  ultimately show ?thesis using stepped_single [OF a] by simp
qed

lemma mergeStep_3:
  assumes v: "viewing f st (x # xs) (x # ys)"
  shows "stepped f (disorder x xs \<or> disorder x ys) (3, x) xs ys st (mergeStep f compareBytes operand st)"
proof -
  let ?s = "emit f 3 x st"
  have h: "fsHave (cFile1 st)" "fsCurrent (cFile1 st) = x" "fsHave (cFile2 st)" "fsCurrent (cFile2 st) = x"
    using v by (auto simp: viewing_def fileView_def split: if_splits)
  have eq: "mergeStep f compareBytes operand st = advanceBoth f compareBytes operand ?s"
    using h by (auto simp: mergeStep_def compareHeads_def compareBytes_def)
  have "advanced f 1 (disorder x xs) xs ?s (advance f compareBytes operand 1 ?s)"
    by (rule advance_view) (use v in \<open>simp_all add: viewing_fileOf\<close>)
  moreover have "advanced f 2 (disorder x ys) ys st1 (advance f compareBytes operand 2 st1)" if "fileOf 2 st1 = fileOf 2 ?s" for st1
    by (rule advance_view) (use v that in \<open>simp_all add: viewing_fileOf\<close>)
  ultimately have "case advanceBoth f compareBytes operand ?s of (ok, st') \<Rightarrow>
    (ok \<longleftrightarrow> \<not> (strict f \<and> (disorder x xs \<or> disorder x ys))) \<and> (ok \<longrightarrow> viewing f st' xs ys \<and> sameMerge ?s st') \<and>
    (cNocheckOrder f \<or> \<not> disorder x xs \<and> \<not> disorder x ys \<longrightarrow> quiet ?s st')"
    by (rule advanceBoth_stepped)
  then show ?thesis using produced_trans [OF produced_emit [of 3 f x st] produced_same]
    unfolding eq stepped_def by (auto split: prod.splits)
qed

definition merged :: "commFlags \<Rightarrow> string list \<Rightarrow> string list \<Rightarrow> commState \<Rightarrow> (bool \<times> commState) option \<Rightarrow> bool" where
  "merged f xs ys st r \<longleftrightarrow>
     (\<exists>ok st'. r = Some (ok, st') \<and> (ok \<longleftrightarrow> (strict f \<longrightarrow> sorted xs \<and> sorted ys)) \<and>
        (ok \<longrightarrow> produced f (mergeRows xs ys) st st') \<and>
        (cNocheckOrder f \<or> sorted xs \<and> sorted ys \<longrightarrow> quiet st st'))"

lemma merged_step:
  assumes s: "stepped f bad row xs' ys' st (mergeStep f compareBytes operand st)"
    and have_: "fsHave (cFile1 st) \<or> fsHave (cFile2 st)"
    and rows: "mergeRows xs ys = row # mergeRows xs' ys'"
    and srt: "sorted xs \<and> sorted ys \<longleftrightarrow> \<not> bad \<and> sorted xs' \<and> sorted ys'"
    and IH: "\<And>st'. viewing f st' xs' ys' \<Longrightarrow> merged f xs' ys' st' (mergeLoop f compareBytes operand st')"
  shows "merged f xs ys st (mergeLoop f compareBytes operand st)"
proof -
  obtain ok st1 where m: "mergeStep f compareBytes operand st = (ok, st1)" by force
  note S = s [unfolded m stepped_def fst_conv snd_conv]
  show ?thesis
  proof (cases ok)
    case True
    then have eq: "mergeLoop f compareBytes operand st = mergeLoop f compareBytes operand st1"
      using m have_ by (simp add: mergeLoop.simps [of f compareBytes operand st])
    obtain ok2 st2 where r: "mergeLoop f compareBytes operand st1 = Some (ok2, st2)" "ok2 \<longleftrightarrow> (strict f \<longrightarrow> sorted xs' \<and> sorted ys')"
      "ok2 \<longrightarrow> produced f (mergeRows xs' ys') st1 st2" "cNocheckOrder f \<or> sorted xs' \<and> sorted ys' \<longrightarrow> quiet st1 st2"
      using IH [of st1] S True unfolding merged_def by blast
    have "ok2 \<longleftrightarrow> (strict f \<longrightarrow> sorted xs \<and> sorted ys)" using r(2) srt S True by blast
    moreover have "ok2 \<longrightarrow> produced f (mergeRows xs ys) st st2"
      using produced_trans [of f "[row]" st st1 "mergeRows xs' ys'" st2] S True r(3) rows by simp
    moreover have "cNocheckOrder f \<or> sorted xs \<and> sorted ys \<longrightarrow> quiet st st2" using S r(4) srt quiet_trans by blast
    ultimately show ?thesis unfolding merged_def eq using r(1) by blast
  next
    case False
    then have "mergeLoop f compareBytes operand st = Some (False, st1)"
      using m have_ by (simp add: mergeLoop.simps [of f compareBytes operand st])
    then show ?thesis unfolding merged_def using S False srt by (auto simp: strict_def)
  qed
qed

lemma mergeLoop_merged:
  assumes "viewing f st xs ys"
  shows "merged f xs ys st (mergeLoop f compareBytes operand st)"
  using assms
proof (induction "length xs + length ys" arbitrary: xs ys st rule: less_induct)
  case less
  have have_: "fsHave (cFile1 st) \<longleftrightarrow> xs \<noteq> []" "fsHave (cFile2 st) \<longleftrightarrow> ys \<noteq> []"
    using less.prems fileView_have unfolding viewing_def by blast+
  consider "xs = []" "ys = []" | x xs' where "xs = x # xs'" "ys = [] \<or> x < hd ys" | y ys' where "ys = y # ys'" "xs = [] \<or> y < hd xs"
    | x xs' ys' where "xs = x # xs'" "ys = x # ys'"
    by (cases xs; cases ys) (auto, metis linorder_less_linear)
  then show ?case
  proof cases
    case 1
    then have "mergeLoop f compareBytes operand st = Some (True, st)"
      using have_ by (subst mergeLoop.simps) simp
    then show ?thesis using 1 by (auto simp: merged_def produced_def quiet_def column_def)
  next
    case (2 x xs')
    show ?thesis
    proof (rule merged_step [OF mergeStep_1])
      show "viewing f st (x # xs') ys" "ys = [] \<or> x < hd ys" using less.prems 2 by auto
      show "mergeRows xs ys = (1, x) # mergeRows xs' ys" using 2 by (cases ys; cases xs') auto
    qed (use 2 have_ less.hyps sorted_disorder in auto)
  next
    case (3 y ys')
    show ?thesis
    proof (rule merged_step [OF mergeStep_2])
      show "viewing f st xs (y # ys')" "xs = [] \<or> y < hd xs" using less.prems 3 by auto
      show "mergeRows xs ys = (2, y) # mergeRows xs ys'" using 3 by (cases xs) auto
    qed (use 3 have_ less.hyps sorted_disorder in auto)
  next
    case (4 x xs' ys')
    show ?thesis
    proof (rule merged_step [OF mergeStep_3])
      show "viewing f st (x # xs') (x # ys')" using less.prems 4 by auto
      show "mergeRows xs ys = (3, x) # mergeRows xs' ys'" using 4 by auto
    qed (use 4 have_ less.hyps sorted_disorder in auto)
  qed
qed

section \<open>The columns of sorted inputs\<close>

lemma add_mset_diff: "x \<notin># M \<Longrightarrow> add_mset x N - M = add_mset x (N - M)" "x \<notin># M \<Longrightarrow> M - add_mset x N = M - N"
  by (rule multiset_eqI, auto simp: not_in_iff)+

lemma add_mset_inter: "x \<notin># M \<Longrightarrow> add_mset x N \<inter># M = N \<inter># M" "x \<notin># M \<Longrightarrow> M \<inter># add_mset x N = M \<inter># N"
  by (rule multiset_eqI, auto simp: not_in_iff)+

lemma column_Cons: "column i ((c, l) # rows) = (if c = i then l # column i rows else column i rows)"
  by (simp add: column_def)

lemma column_map: "column i (map (Pair c) ls) = (if c = i then ls else [])"
  by (induction ls) (auto simp: column_def)

lemma mergeRows_columns:
  assumes "sorted xs" "sorted ys"
  shows "mset (column 1 (mergeRows xs ys)) = mset xs - mset ys \<and>
    mset (column 2 (mergeRows xs ys)) = mset ys - mset xs \<and>
    mset (column 3 (mergeRows xs ys)) = mset xs \<inter># mset ys"
  using assms
proof (induction xs ys rule: mergeRows.induct)
  case (1 ys)
  then show ?case by (simp add: column_map)
next
  case (2 x xs)
  then show ?case by (simp add: column_Cons column_map)
next
  case (3 x xs y ys)
  consider "x < y" | "y < x" | "x = y" by (metis linorder_less_linear)
  then show ?case
  proof cases
    case 1
    then have "x \<notin># mset (y # ys)" using "3.prems"(2) by auto
    then show ?thesis using "3.IH"(1) 1 "3.prems" add_mset_diff [of x "mset (y # ys)" "mset xs"] add_mset_inter [of x "mset (y # ys)" "mset xs"]
      by (simp add: column_Cons)
  next
    case 2
    then have y: "y \<notin># mset (x # xs)" using "3.prems"(1) by auto
    have rows: "mergeRows (x # xs) (y # ys) = (2, y) # mergeRows (x # xs) ys" using 2 by simp
    have ih: "mset (column 1 (mergeRows (x # xs) ys)) = mset (x # xs) - mset ys \<and>
      mset (column 2 (mergeRows (x # xs) ys)) = mset ys - mset (x # xs) \<and>
      mset (column 3 (mergeRows (x # xs) ys)) = mset (x # xs) \<inter># mset ys" using "3.IH"(2) 2 "3.prems" by simp
    have "mset (y # ys) = add_mset y (mset ys)" by simp
    then show ?thesis unfolding rows column_Cons using ih add_mset_diff [OF y, of "mset ys"] add_mset_inter [OF y, of "mset ys"] by simp
  next
    case 3
    then show ?thesis using "3.IH"(3) "3.prems" by (simp add: column_Cons)
  qed
qed

lemma mergeRows_set: "(c, l) \<in> set (mergeRows xs ys) \<Longrightarrow> l \<in> set xs \<or> l \<in> set ys"
  by (induction xs ys rule: mergeRows.induct) (auto split: if_splits)

lemma mergeRows_sorted: "sorted xs \<Longrightarrow> sorted ys \<Longrightarrow> sorted (map snd (mergeRows xs ys))"
proof (induction xs ys rule: mergeRows.induct)
  case (3 x xs y ys)
  have s: "\<And>z. z \<in> snd ` set (mergeRows a b) \<Longrightarrow> z \<in> set a \<or> z \<in> set b" for a b by (auto dest: mergeRows_set)
  consider "x < y" | "y < x" | "x = y" by (metis linorder_less_linear)
  then show ?case
  proof cases
    case 1
    have "x \<le> z" if "z \<in> snd ` set (mergeRows xs (y # ys))" for z using s [OF that] 1 "3.prems" by auto
    then show ?thesis using 1 "3.IH"(1) "3.prems" by auto
  next
    case 2
    have "y \<le> z" if "z \<in> snd ` set (mergeRows (x # xs) ys)" for z using s [OF that] 2 "3.prems" by auto
    then show ?thesis using 2 "3.IH"(2) "3.prems" by auto
  next
    case 3
    have "x \<le> z" if "z \<in> snd ` set (mergeRows xs ys)" for z using s [OF that] 3 "3.prems" by auto
    then show ?thesis using 3 "3.IH"(3) "3.prems" by auto
  qed
qed (simp_all add: comp_def)

section \<open>Whole runs\<close>

definition readable :: "(string \<Rightarrow> string + recordReader) \<Rightarrow> string \<Rightarrow> string \<Rightarrow> recordReader \<Rightarrow> recordReader \<Rightarrow> bool" where
  "readable openReader a b r1 r2 \<longleftrightarrow> openReader a = Inr r1 \<and> openReader b = Inr r2 \<and> rrFail r1 = None \<and> rrFail r2 = None \<and>
     (a \<noteq> ''-'' \<or> b \<noteq> ''-'')"

abbreviation linesOf :: "commFlags \<Rightarrow> recordReader \<Rightarrow> string list" where
  "linesOf f r \<equiv> records (terminator f) (rrRest r)"

lemma startMerge_advance:
  assumes "rrFail r1 = None" "rrFail r2 = None"
  shows "\<exists>st. advanceBoth f compareBytes operand (startMerge r1 r2) = (True, st) \<and> viewing f st (linesOf f r1) (linesOf f r2) \<and>
    sameMerge (startMerge r1 r2) st \<and> quiet (startMerge r1 r2) st"
proof -
  let ?s = "startMerge r1 r2"
  have "advanced f 1 False (linesOf f r1) ?s (advance f compareBytes operand 1 ?s)"
    using advance_start [of 1 ?s] assms by (simp add: startMerge_def startFile_def fileOf_def)
  moreover have "advanced f 2 False (linesOf f r2) st1 (advance f compareBytes operand 2 st1)" if "fileOf 2 st1 = fileOf 2 ?s" for st1
    using advance_start [of 2 st1] assms that by (simp add: startMerge_def startFile_def fileOf_def)
  ultimately show ?thesis using advanceBoth_stepped [of f False "linesOf f r1" ?s operand False "linesOf f r2"]
    by (auto split: prod.splits)
qed

lemma commMerge_runs:
  assumes "rrFail r1 = None" "rrFail r2 = None"
  shows "\<exists>r. commMerge f compareBytes operand r1 r2 None = Some r \<and>
    (strict f \<longrightarrow> (status r = 0 \<longleftrightarrow> sorted (linesOf f r1) \<and> sorted (linesOf f r2))) \<and>
    (cNocheckOrder f \<or> sorted (linesOf f r1) \<and> sorted (linesOf f r2) \<longrightarrow>
       (let rows = mergeRows (linesOf f r1) (linesOf f r2) in
        r = \<lparr>stdout = concat (map (render f) rows) @
              (if cTotal f then totalLine f (length (column 1 rows)) (length (column 2 rows)) (length (column 3 rows)) else []),
            stderr = [], status = 0\<rparr>))"
proof -
  let ?s = "startMerge r1 r2" and ?xs = "linesOf f r1" and ?ys = "linesOf f r2"
  obtain st where st: "advanceBoth f compareBytes operand ?s = (True, st)" "viewing f st ?xs ?ys" "sameMerge ?s st" "quiet ?s st"
    using startMerge_advance [OF assms] by blast
  obtain ok st' where m: "mergeLoop f compareBytes operand st = Some (ok, st')" "ok \<longleftrightarrow> (strict f \<longrightarrow> sorted ?xs \<and> sorted ?ys)"
    "ok \<longrightarrow> produced f (mergeRows ?xs ?ys) st st'" "cNocheckOrder f \<or> sorted ?xs \<and> sorted ?ys \<longrightarrow> quiet st st'"
    using mergeLoop_merged [OF st(2), of operand] unfolding merged_def by blast
  have zero: "bwAll (cOut st) = []" "cCount1 st = 0" "cCount2 st = 0" "cCount3 st = 0"
    "cErr st = []" "\<not> fsWarned (cFile1 st)" "\<not> fsWarned (cFile2 st)"
    using st(3,4) by (auto simp: sameMerge_def quiet_def startMerge_def startFile_def)
  show ?thesis
  proof (cases ok)
    case True
    have w: "sorted ?xs \<and> sorted ?ys \<Longrightarrow> cErr st' = [] \<and> \<not> fsWarned (cFile1 st') \<and> \<not> fsWarned (cFile2 st')"
      "cNocheckOrder f \<Longrightarrow> cErr st' = [] \<and> \<not> fsWarned (cFile1 st') \<and> \<not> fsWarned (cFile2 st')"
      using m(4) zero by (auto simp: quiet_def)
    have p: "bwAll (cOut st') = concat (map (render f) (mergeRows ?xs ?ys))" "cCount1 st' = length (column 1 (mergeRows ?xs ?ys))"
      "cCount2 st' = length (column 2 (mergeRows ?xs ?ys))" "cCount3 st' = length (column 3 (mergeRows ?xs ?ys))"
      using m(3) True zero by (auto simp: produced_def)
    show ?thesis using st(1) m(1,2) True w p by (auto simp: commMerge_def Let_def)
  next
    case False
    then show ?thesis using st(1) m(1,2) by (auto simp: commMerge_def strict_def)
  qed
qed

lemma comm_runs:
  assumes "readable openReader a b r1 r2"
  shows "comm f compareBytes [a, b] openReader None = commMerge f compareBytes (\<lambda>i. if i = 1 then a else b) r1 r2 None"
  using assms by (auto simp: readable_def comm_def)

text \<open>C7: On two sorted files \<open>comm\<close> exits with status \<open>0\<close>, reports nothing, and its rows, in sorted order, are: in
  the first column the lines of the first file without those of the second, in the second column the converse, and in
  the third the lines common to both, all counted with multiplicity. Suppressed columns are left out and not indented
  for, and \<open>--total\<close> adds the counts of the columns shown.\<close>

theorem comm_columns:
  assumes "readable openReader a b r1 r2" "sorted (linesOf f r1)" "sorted (linesOf f r2)"
  shows "\<exists>rows. comm f compareBytes [a, b] openReader None =
      Some \<lparr>stdout = concat (map (render f) rows) @
              (if cTotal f then totalLine f (length (column 1 rows)) (length (column 2 rows)) (length (column 3 rows)) else []),
            stderr = [], status = 0\<rparr> \<and>
    sorted (map snd rows) \<and>
    mset (column 1 rows) = mset (linesOf f r1) - mset (linesOf f r2) \<and>
    mset (column 2 rows) = mset (linesOf f r2) - mset (linesOf f r1) \<and>
    mset (column 3 rows) = mset (linesOf f r1) \<inter># mset (linesOf f r2)"
proof (intro exI conjI)
  let ?rows = "mergeRows (linesOf f r1) (linesOf f r2)"
  show "comm f compareBytes [a, b] openReader None =
      Some \<lparr>stdout = concat (map (render f) ?rows) @
              (if cTotal f then totalLine f (length (column 1 ?rows)) (length (column 2 ?rows)) (length (column 3 ?rows)) else []),
            stderr = [], status = 0\<rparr>"
    using commMerge_runs [of r1 r2 f "\<lambda>i. if i = 1 then a else b"] comm_runs [OF assms(1), of f] assms
    by (auto simp: readable_def Let_def)
qed (use mergeRows_columns [OF assms(2,3)] mergeRows_sorted [OF assms(2,3)] in auto)

text \<open>C22: With \<open>--check-order\<close> (and not \<open>--nocheck-order\<close>) \<open>comm\<close> ends with status \<open>0\<close> exactly when both files
  are sorted.\<close>

theorem comm_check_order:
  assumes "readable openReader a b r1 r2" "cCheckOrder f" "\<not> cNocheckOrder f"
  shows "\<exists>r. comm f compareBytes [a, b] openReader None = Some r \<and>
    (status r = 0 \<longleftrightarrow> sorted (linesOf f r1) \<and> sorted (linesOf f r2))"
  using commMerge_runs [of r1 r2 f "\<lambda>i. if i = 1 then a else b"] comm_runs [OF assms(1), of f] assms
  by (auto simp: readable_def strict_def)

definition demoComm :: commFlags where
  "demoComm = \<lparr>cSuppress1 = False, cSuppress2 = True, cSuppress3 = False, cCheckOrder = True, cNocheckOrder = False,
     cDelim = [TAB], cTotal = True, cZero = False\<rparr>"

definition demoReaders :: "string \<Rightarrow> string + recordReader" where
  "demoReaders name = Inr \<lparr>rrRest = (if name = ''x'' then unlines [''a'', ''b'', ''b'', ''c''] else unlines [''b'', ''d''] @ ''e''), rrFail = None\<rparr>"

lemma demoReaders_ok:
  "readable demoReaders ''x'' ''y'' \<lparr>rrRest = unlines [''a'', ''b'', ''b'', ''c''], rrFail = None\<rparr> \<lparr>rrRest = unlines [''b'', ''d''] @ ''e'', rrFail = None\<rparr>"
  "records NL (unlines [''a'', ''b'', ''b'', ''c'']) = [''a'', ''b'', ''b'', ''c'']" "records NL (unlines [''b'', ''d''] @ ''e'') = [''b'', ''d'', ''e'']"
  "sorted [''a'', ''b'', ''b'', ''c'']" "sorted [''b'', ''d'', ''e'']" "terminator demoComm = NL" "cCheckOrder demoComm" "\<not> cNocheckOrder demoComm"
  by code_simp+

theorem comm_columns_witness:
  "\<exists>rows. comm demoComm compareBytes [''x'', ''y''] demoReaders None =
      Some \<lparr>stdout = concat (map (render demoComm) rows) @
              (if cTotal demoComm then totalLine demoComm (length (column 1 rows)) (length (column 2 rows)) (length (column 3 rows)) else []),
            stderr = [], status = 0\<rparr> \<and>
    sorted (map snd rows) \<and> mset (column 3 rows) = {#''b''#}"
proof -
  have i: "mset [''a'', ''b'', ''b'', ''c''] \<inter># mset [''b'', ''d'', ''e''] = {#''b''#}" by code_simp
  show ?thesis
    using comm_columns [OF demoReaders_ok(1), of demoComm] demoReaders_ok(4,5)
    unfolding demoReaders_ok(6) recordReader.select_convs demoReaders_ok(2,3) i by blast
qed

theorem comm_check_order_witness:
  "\<exists>r. comm demoComm compareBytes [''x'', ''y''] demoReaders None = Some r \<and> status r = 0"
  using comm_check_order [OF demoReaders_ok(1,7,8)] demoReaders_ok(4,5)
  unfolding demoReaders_ok(6) recordReader.select_convs demoReaders_ok(2,3) by blast


end
