(* ===== verification/Chmod_Mode.thy ===== *)
theory Chmod_Mode
  imports Go_Input "HOL-Library.Word"
begin

unbundle bit_operations_syntax

text \<open>
  Mode expressions of \<open>chmod\<close> (\<open>src/cmds/chmod/chmod.go\<close>): \<open>parseMode\<close> with its loops, the computation of new mode bits,
  the conversions to and from \<open>os.FileMode\<close>, and the rescue of mode operands that start with a dash. Bits are 32-bit
  words, as in the source. The error \<open>errInvalidMode\<close> is \<^term>\<open>None\<close>.
\<close>

type_synonym u32 = "32 word"

record symOp =
  soWho :: u32
  soExplicit :: bool
  soOp :: char
  soPerm :: u32
  soCopy :: char
  soCondX :: bool
  soSetid :: bool
  soSticky :: bool

record modeChange =
  mcOctal :: bool
  mcVal :: u32
  mcOps :: "symOp list"

abbreviation whoU :: u32 where "whoU \<equiv> 4"
abbreviation whoG :: u32 where "whoG \<equiv> 2"
abbreviation whoO :: u32 where "whoO \<equiv> 1"

section \<open>Parsing\<close>

definition isOp :: "char \<Rightarrow> bool" where
  "isOp c = (c = CHR ''+'' \<or> c = CHR ''-'' \<or> c = CHR ''='')"

definition isClass :: "char \<Rightarrow> bool" where
  "isClass c = (c = CHR ''u'' \<or> c = CHR ''g'' \<or> c = CHR ''o'')"

fun whoLoop :: "string \<Rightarrow> u32 \<Rightarrow> bool \<Rightarrow> u32 \<times> bool \<times> string" where
  "whoLoop [] who explicit = (who, explicit, [])"
| "whoLoop (c # cs) who explicit =
     (if c = CHR ''u'' then whoLoop cs (who OR whoU) True
      else if c = CHR ''g'' then whoLoop cs (who OR whoG) True
      else if c = CHR ''o'' then whoLoop cs (who OR whoO) True
      else if c = CHR ''a'' then whoLoop cs (who OR whoU OR whoG OR whoO) True
      else (who, explicit, c # cs))"

fun permLoop :: "string \<Rightarrow> symOp \<Rightarrow> (symOp \<times> string) option" where
  "permLoop [] so = Some (so, [])"
| "permLoop (c # cs) so =
     (if c = CHR ''r'' then permLoop cs (so\<lparr>soPerm := soPerm so OR 4\<rparr>)
      else if c = CHR ''w'' then permLoop cs (so\<lparr>soPerm := soPerm so OR 2\<rparr>)
      else if c = CHR ''x'' then permLoop cs (so\<lparr>soPerm := soPerm so OR 1\<rparr>)
      else if c = CHR ''X'' then permLoop cs (so\<lparr>soCondX := True\<rparr>)
      else if c = CHR ''s'' then permLoop cs (so\<lparr>soSetid := True\<rparr>)
      else if c = CHR ''t'' then permLoop cs (so\<lparr>soSticky := True\<rparr>)
      else if isOp c then Some (so, c # cs)
      else None)"

lemma permLoop_length: "permLoop cs so = Some (so', rest) \<Longrightarrow> length rest \<le> length cs"
  by (induction cs so rule: permLoop.induct) (auto split: if_splits)

definition newOp :: "u32 \<Rightarrow> bool \<Rightarrow> char \<Rightarrow> symOp" where
  "newOp who explicit op =
     \<lparr>soWho = who, soExplicit = explicit, soOp = op, soPerm = 0, soCopy = NUL, soCondX = False, soSetid = False, soSticky = False\<rparr>"

text \<open>The operators of a clause. A permission copy is one class letter, alone until the next operator or the end.\<close>

definition isCopy :: "string \<Rightarrow> bool" where
  "isCopy cs = (case cs of [] \<Rightarrow> False | c # r \<Rightarrow> isClass c \<and> (r = [] \<or> isOp (hd r)))"

function opLoop :: "u32 \<Rightarrow> bool \<Rightarrow> string \<Rightarrow> symOp list option" where
  "opLoop who explicit [] = Some []"
| "opLoop who explicit (c # cs) =
     (if \<not> isOp c then None
      else if isCopy cs
      then map_option ((#) ((newOp who explicit c)\<lparr>soCopy := hd cs\<rparr>)) (opLoop who explicit (tl cs))
      else (case permLoop cs (newOp who explicit c) of
              None \<Rightarrow> None
            | Some (so, rest) \<Rightarrow> map_option ((#) so) (opLoop who explicit rest)))"
  by pat_completeness auto
termination
  by (relation "measure (\<lambda>(who, explicit, cs). length cs)") (auto simp: isCopy_def simp del: permLoop.simps dest!: permLoop_length split: list.splits)

definition parseClause :: "string \<Rightarrow> symOp list option" where
  "parseClause clause =
     (case whoLoop clause 0 False of
        (who, explicit, rest) \<Rightarrow> if rest = [] then None else opLoop who explicit rest)"

definition isOctal :: "char \<Rightarrow> bool" where
  "isOctal c = (48 \<le> (of_char c :: nat) \<and> (of_char c :: nat) \<le> 55)"

definition octalVal :: "string \<Rightarrow> nat" where
  "octalVal s = foldl (\<lambda>acc c. 8 * acc + digitVal c) 0 s"

definition parseMode :: "string \<Rightarrow> modeChange option" where
  "parseMode s =
     (if s = [] then None
      else if list_all isOctal s
      then (if octalVal s > 0xFFF then None else Some \<lparr>mcOctal = True, mcVal = of_nat (octalVal s), mcOps = []\<rparr>)
      else (case those (map parseClause (splitByte CHR '','' s)) of
              None \<Rightarrow> None
            | Some opss \<Rightarrow>
                if concat opss = [] then None else Some \<lparr>mcOctal = False, mcVal = 0, mcOps = concat opss\<rparr>))"

section \<open>Applying\<close>

definition permOf :: "symOp \<Rightarrow> u32 \<Rightarrow> u32 \<Rightarrow> bool \<Rightarrow> u32" where
  "permOf so cur old isDir =
     (let perm = (if soCopy so = CHR ''u'' then drop_bit 6 cur AND 7
                  else if soCopy so = CHR ''g'' then drop_bit 3 cur AND 7
                  else if soCopy so = CHR ''o'' then cur AND 7
                  else soPerm so)
      in if soCondX so \<and> (isDir \<or> old AND 0x49 \<noteq> 0) then perm OR 1 else perm)"

definition whoOf :: "symOp \<Rightarrow> u32" where
  "whoOf so = (if soWho so = 0 then whoU OR whoG OR whoO else soWho so)"

definition bitsOf :: "symOp \<Rightarrow> u32 \<Rightarrow> u32 \<Rightarrow> u32" where
  "bitsOf so perm um =
     (let who = whoOf so;
          b1 = (if who AND whoU \<noteq> 0 then push_bit 6 perm OR (if soSetid so then 0x800 else 0) else 0);
          b2 = (if who AND whoG \<noteq> 0 then b1 OR push_bit 3 perm OR (if soSetid so then 0x400 else 0) else b1);
          b3 = (if who AND whoO \<noteq> 0 then b2 OR perm else b2);
          b4 = (if soSticky so then b3 OR 0x200 else b3)
      in if \<not> soExplicit so then b4 AND NOT um else b4)"

definition clearOf :: "symOp \<Rightarrow> u32" where
  "clearOf so =
     (let who = whoOf so in
      (if who AND whoU \<noteq> 0 then 0x9C0 else 0) OR (if who AND whoG \<noteq> 0 then 0x438 else 0) OR
      (if who AND whoO \<noteq> 0 then 7 else 0) OR (if \<not> soExplicit so \<or> who AND whoO \<noteq> 0 then 0x200 else 0))"

definition applyOp :: "u32 \<Rightarrow> bool \<Rightarrow> u32 \<Rightarrow> u32 \<Rightarrow> symOp \<Rightarrow> u32" where
  "applyOp old isDir um cur so =
     (let bits = bitsOf so (permOf so cur old isDir) um in
      if soOp so = CHR ''+'' then cur OR bits
      else if soOp so = CHR ''-'' then cur AND NOT bits
      else if soOp so = CHR ''='' then (cur AND NOT (clearOf so)) OR bits
      else cur)"

definition applyMode :: "modeChange \<Rightarrow> u32 \<Rightarrow> bool \<Rightarrow> u32 \<Rightarrow> u32" where
  "applyMode mc old isDir um =
     (if mcOctal mc then mcVal mc else foldl (applyOp old isDir um) old (mcOps mc))"

section \<open>\<open>os.FileMode\<close>\<close>

definition fileModeToBits :: "u32 \<Rightarrow> u32" where
  "fileModeToBits m =
     (m AND 0x1FF) OR (if m AND 0x800000 \<noteq> 0 then 0x800 else 0) OR
     (if m AND 0x400000 \<noteq> 0 then 0x400 else 0) OR (if m AND 0x100000 \<noteq> 0 then 0x200 else 0)"

definition bitsToFileMode :: "u32 \<Rightarrow> u32" where
  "bitsToFileMode b =
     (b AND 0x1FF) OR (if b AND 0x800 \<noteq> 0 then 0x800000 else 0) OR
     (if b AND 0x400 \<noteq> 0 then 0x400000 else 0) OR (if b AND 0x200 \<noteq> 0 then 0x100000 else 0)"

text \<open>The verb \<open>%0no\<close> of \<open>fmt\<close>: octal digits, padded with zeros to \<open>n\<close> places.\<close>

fun octalDigits :: "nat \<Rightarrow> string" where
  "octalDigits n = (if n < 8 then [digitChar n] else octalDigits (n div 8) @ [digitChar (n mod 8)])"

declare octalDigits.simps [simp del]

definition octalPadded :: "nat \<Rightarrow> u32 \<Rightarrow> string" where
  "octalPadded width m = (let ds = octalDigits (unat m) in replicate (width - length ds) (CHR ''0'') @ ds)"

section \<open>Mode operands that start with a dash\<close>

definition isModeBody :: "string \<Rightarrow> bool" where
  "isModeBody s = list_all (\<lambda>c. c \<in> set ''ugoarwxXst+-=,'') s"

definition longOptionPrefix :: "string \<Rightarrow> string \<Rightarrow> bool" where
  "longOptionPrefix name full = (name \<noteq> [] \<and> hasPrefix full name)"

fun extractDashMode :: "string list \<Rightarrow> string \<times> string list" where
  "extractDashMode [] = ([], [])"
| "extractDashMode (a # args) =
     (if a = ''--'' then ([], a # args)
      else if hasPrefix a ''--'' \<and> length a > 2 then
        (case cutEquals (drop 2 a) of
           (name, hasValue) \<Rightarrow>
             if \<not> hasValue \<and> longOptionPrefix name ''reference'' then
               (case args of
                  [] \<Rightarrow> ([], [a])
                | v # args' \<Rightarrow> (case extractDashMode args' of (mode, rest) \<Rightarrow> (mode, a # v # rest)))
             else (case extractDashMode args of (mode, rest) \<Rightarrow> (mode, a # rest)))
      else if length a > 1 \<and> hd a = CHR ''-'' \<and> a ! 1 \<noteq> CHR ''-'' \<and> isModeBody (tl a) then
        (a, ''--'' # (if args \<noteq> [] \<and> hd args = ''--'' then tl args else args))
      else if a = ''-'' \<or> \<not> hasPrefix a ''-'' then ([], a # args)
      else (case extractDashMode args of (mode, rest) \<Rightarrow> (mode, a # rest)))"

datatype derefMode = DerefNever | DerefCmdLine | DerefAlways

definition derefLetter :: "derefMode \<Rightarrow> char \<Rightarrow> derefMode" where
  "derefLetter m c =
     (if c = CHR ''H'' then DerefCmdLine else if c = CHR ''L'' then DerefAlways else if c = CHR ''P'' then DerefNever else m)"

definition derefLong :: "derefMode \<Rightarrow> string \<Rightarrow> derefMode" where
  "derefLong m name =
     (if longOptionPrefix name ''dereference'' \<or> name = ''L'' then DerefAlways
      else if longOptionPrefix name ''no-dereference'' \<or> name = ''P'' then DerefNever
      else if name = ''H'' then DerefCmdLine else m)"

fun derefLoop :: "derefMode \<Rightarrow> string list \<Rightarrow> derefMode" where
  "derefLoop m [] = m"
| "derefLoop m (a # args) =
     (if a = ''--'' \<or> a = ''-'' \<or> \<not> hasPrefix a ''-'' then m
      else if hasPrefix a ''--'' \<and> length a > 2 then
        (case cutEquals (drop 2 a) of
           (name, hasValue) \<Rightarrow>
             let m' = derefLong m name in
             if \<not> hasValue \<and> longOptionPrefix name ''reference'' then
               (case args of [] \<Rightarrow> m' | v # args' \<Rightarrow> derefLoop m' args')
             else derefLoop m' args)
      else if length a > 1 \<and> hd a = CHR ''-'' \<and> a ! 1 \<noteq> CHR ''-'' then derefLoop (foldl derefLetter m (tl a)) args
      else derefLoop m args)"

definition derefFlags :: "string list \<Rightarrow> bool \<Rightarrow> derefMode" where
  "derefFlags args recursive = derefLoop (if recursive then DerefNever else DerefAlways) args"

end
