(* ===== verification/Chmod_Spec.thy ===== *)
theory Chmod_Spec
  imports Chmod_Mode
begin

unbundle bit_operations_syntax

text \<open>
  What a mode expression means: a mode is a set of permissions of classes and of the three special bits, and an operator
  adds, removes or sets a selection of them. The bit arithmetic of \<open>chmod\<close> refines this specification; modes stay
  within \<open>07777\<close>; and modes survive the ways through \<open>os.FileMode\<close> and through octal notation.
\<close>

section \<open>Modes as sets\<close>

datatype cls = User | Group | Other
datatype perm = Read | Write | Exec
datatype atom = Perm cls perm | SetUid | SetGid | Sticky

definition shiftOf :: "cls \<Rightarrow> nat" where
  "shiftOf c = (case c of User \<Rightarrow> 6 | Group \<Rightarrow> 3 | Other \<Rightarrow> 0)"

definition placeOf :: "perm \<Rightarrow> nat" where
  "placeOf p = (case p of Read \<Rightarrow> 2 | Write \<Rightarrow> 1 | Exec \<Rightarrow> 0)"

definition posOf :: "atom \<Rightarrow> nat" where
  "posOf a = (case a of Perm c p \<Rightarrow> shiftOf c + placeOf p | SetUid \<Rightarrow> 11 | SetGid \<Rightarrow> 10 | Sticky \<Rightarrow> 9)"

definition absMode :: "u32 \<Rightarrow> atom set" where
  "absMode w = {a. bit w (posOf a)}"

definition classBit :: "cls \<Rightarrow> nat" where
  "classBit c = (case c of User \<Rightarrow> 2 | Group \<Rightarrow> 1 | Other \<Rightarrow> 0)"

text \<open>The classes an operator is for: those written, or all.\<close>

definition classesOf :: "symOp \<Rightarrow> cls set" where
  "classesOf so = (if soWho so = 0 then UNIV else {c. bit (soWho so) (classBit c)})"

definition copied :: "symOp \<Rightarrow> cls option" where
  "copied so = (if soCopy so = CHR ''u'' then Some User else if soCopy so = CHR ''g'' then Some Group
                else if soCopy so = CHR ''o'' then Some Other else None)"

text \<open>The permissions an operator selects: those of the copied class, or those written; \<open>X\<close> selects execution for a
  directory or when the file was executable for some class.\<close>

definition specPerms :: "symOp \<Rightarrow> atom set \<Rightarrow> atom set \<Rightarrow> bool \<Rightarrow> perm set" where
  "specPerms so cur old isDir =
     (case copied so of Some c \<Rightarrow> {p. Perm c p \<in> cur} | None \<Rightarrow> {p. bit (soPerm so) (placeOf p)}) \<union>
     (if soCondX so \<and> (isDir \<or> (\<exists>c. Perm c Exec \<in> old)) then {Exec} else {})"

definition specSelect :: "symOp \<Rightarrow> perm set \<Rightarrow> atom set \<Rightarrow> atom set" where
  "specSelect so ps masked =
     (let sel = {Perm c p | c p. c \<in> classesOf so \<and> p \<in> ps} \<union>
            (if soSetid so \<and> User \<in> classesOf so then {SetUid} else {}) \<union>
            (if soSetid so \<and> Group \<in> classesOf so then {SetGid} else {}) \<union>
            (if soSticky so then {Sticky} else {})
      in if soExplicit so then sel else sel - masked)"

definition specClear :: "symOp \<Rightarrow> atom set" where
  "specClear so =
     {Perm c p | c p. c \<in> classesOf so} \<union> (if User \<in> classesOf so then {SetUid} else {}) \<union>
     (if Group \<in> classesOf so then {SetGid} else {}) \<union> (if \<not> soExplicit so \<or> Other \<in> classesOf so then {Sticky} else {})"

definition specOp :: "atom set \<Rightarrow> bool \<Rightarrow> atom set \<Rightarrow> atom set \<Rightarrow> symOp \<Rightarrow> atom set" where
  "specOp old isDir masked cur so =
     (let sel = specSelect so (specPerms so cur old isDir) masked in
      if soOp so = CHR ''+'' then cur \<union> sel
      else if soOp so = CHR ''-'' then cur - sel
      else if soOp so = CHR ''='' then (cur - specClear so) \<union> sel
      else cur)"

section \<open>The arithmetic\<close>

definition wfOp :: "symOp \<Rightarrow> bool" where
  "wfOp so \<longleftrightarrow> take_bit 3 (soPerm so) = soPerm so"

lemma class_bits: "(w :: u32) AND 4 \<noteq> 0 \<longleftrightarrow> bit w 2" "w AND 2 \<noteq> 0 \<longleftrightarrow> bit w 1" "w AND 1 \<noteq> 0 \<longleftrightarrow> bit w 0"
  using and_exp_eq_0_iff_not_bit [of w 2] and_exp_eq_0_iff_not_bit [of w 1] and_exp_eq_0_iff_not_bit [of w 0] by simp_all

lemma classesOf_who: "c \<in> classesOf so \<longleftrightarrow> bit (whoOf so) (classBit c)"
  by (cases c) (simp_all add: classesOf_def whoOf_def classBit_def bit_simps)

lemma and_seven: "(w :: u32) AND 7 = take_bit 3 w"
  by (simp add: take_bit_eq_mask mask_eq_exp_minus_1)

lemma and_exec: "(w :: u32) AND 0x49 \<noteq> 0 \<longleftrightarrow> bit w 6 \<or> bit w 3 \<or> bit w 0"
proof -
  have "(0x49 :: u32) = 2 ^ 6 OR 2 ^ 3 OR 2 ^ 0" by simp
  then have "w AND 0x49 = (w AND 2 ^ 6) OR (w AND 2 ^ 3) OR (w AND 2 ^ 0)" by (simp only: bit.conj_disj_distrib)
  then show ?thesis by (simp only: or_eq_0_iff and_exp_eq_0_iff_not_bit) blast
qed

lemma permOf_small:
  assumes "wfOp so" shows "take_bit 3 (permOf so cur old isDir) = permOf so cur old isDir"
  using assms by (simp add: permOf_def wfOp_def Let_def and_seven take_bit_or)

lemma exec_some: "(\<exists>c. Perm c Exec \<in> absMode w) \<longleftrightarrow> bit w 6 \<or> bit w 3 \<or> bit w 0"
proof -
  have "(\<exists>c. P c) \<longleftrightarrow> P User \<or> P Group \<or> P Other" for P by (metis cls.exhaust)
  then show ?thesis by (simp add: absMode_def posOf_def shiftOf_def placeOf_def)
qed

lemma permOf_spec:
  "bit (permOf so cur old isDir) (placeOf p) \<longleftrightarrow> p \<in> specPerms so (absMode cur) (absMode old) isDir"
proof -
  have "bit (permOf so cur old isDir) (placeOf p) \<longleftrightarrow>
    bit (if soCopy so = CHR ''u'' then drop_bit 6 cur AND 7 else if soCopy so = CHR ''g'' then drop_bit 3 cur AND 7
         else if soCopy so = CHR ''o'' then cur AND 7 else soPerm so) (placeOf p) \<or>
    (soCondX so \<and> (isDir \<or> bit old 6 \<or> bit old 3 \<or> bit old 0) \<and> p = Exec)"
    by (cases p) (auto simp: permOf_def Let_def and_exec placeOf_def bit_simps)
  moreover have "placeOf p < 3" by (cases p) (simp_all add: placeOf_def)
  ultimately show ?thesis unfolding specPerms_def exec_some
    by (auto simp: copied_def and_seven bit_simps absMode_def posOf_def shiftOf_def)
qed

lemma bitsOf_spec:
  assumes "take_bit 3 perm = perm"
  shows "absMode (bitsOf so perm um) = specSelect so {p. bit perm (placeOf p)} (absMode um)"
proof (rule set_eqI)
  fix a
  have hi: "\<not> bit perm k" if "3 \<le> k" for k using assms that by (metis bit_take_bit_iff not_le)
  have c: "User \<in> classesOf so \<longleftrightarrow> whoOf so AND 4 \<noteq> 0" "Group \<in> classesOf so \<longleftrightarrow> whoOf so AND 2 \<noteq> 0" "Other \<in> classesOf so \<longleftrightarrow> whoOf so AND 1 \<noteq> 0"
    by (simp_all add: classesOf_who classBit_def class_bits)
  show "a \<in> absMode (bitsOf so perm um) \<longleftrightarrow> a \<in> specSelect so {p. bit perm (placeOf p)} (absMode um)"
  proof (cases a)
    case (Perm cl p)
    show ?thesis unfolding Perm
      by (cases cl; cases p) (simp_all add: absMode_def posOf_def shiftOf_def placeOf_def bitsOf_def specSelect_def Let_def c bit_simps hi)
  qed (simp_all add: absMode_def posOf_def bitsOf_def specSelect_def Let_def c bit_simps hi)
qed

lemma clearOf_spec: "absMode (clearOf so) = specClear so"
proof (rule set_eqI)
  fix a
  have c: "User \<in> classesOf so \<longleftrightarrow> whoOf so AND 4 \<noteq> 0" "Group \<in> classesOf so \<longleftrightarrow> whoOf so AND 2 \<noteq> 0" "Other \<in> classesOf so \<longleftrightarrow> whoOf so AND 1 \<noteq> 0"
    by (simp_all add: classesOf_who classBit_def class_bits)
  show "a \<in> absMode (clearOf so) \<longleftrightarrow> a \<in> specClear so"
  proof (cases a)
    case (Perm cl p)
    show ?thesis unfolding Perm
      by (cases cl; cases p) (simp_all add: absMode_def posOf_def shiftOf_def placeOf_def clearOf_def specClear_def Let_def c bit_simps)
  qed (simp_all add: absMode_def posOf_def clearOf_def specClear_def Let_def c bit_simps)
qed

lemma posOf_less: "posOf a < 12"
  by (auto simp: posOf_def shiftOf_def placeOf_def split: atom.splits cls.splits perm.splits)

lemma absMode_or: "absMode (a OR b) = absMode a \<union> absMode b"
  by (auto simp: absMode_def bit_simps)

lemma absMode_and_not: "absMode (a AND NOT b) = absMode a - absMode b"
proof -
  have "posOf a < 32" for a by (rule less_trans [OF posOf_less]) simp
  then show ?thesis by (auto simp: absMode_def bit_simps)
qed

lemma applyOp_spec:
  assumes "wfOp so"
  shows "absMode (applyOp old isDir um cur so) = specOp (absMode old) isDir (absMode um) (absMode cur) so"
proof -
  have p: "{p. bit (permOf so cur old isDir) (placeOf p)} = specPerms so (absMode cur) (absMode old) isDir"
    by (simp add: permOf_spec)
  show ?thesis
    using bitsOf_spec [OF permOf_small [OF assms]]
    by (simp add: applyOp_def specOp_def Let_def absMode_or absMode_and_not clearOf_spec p)
qed

section \<open>What the parser yields\<close>

lemma permLoop_wf: "permLoop cs so = Some (so', rest) \<Longrightarrow> wfOp so \<Longrightarrow> wfOp so' \<and> soOp so' = soOp so"
proof (induction cs so rule: permLoop.induct)
  case (2 c cs so)
  have "wfOp (so\<lparr>soPerm := soPerm so OR n\<rparr>)" if "n = 4 \<or> n = 2 \<or> n = 1" for n
    using "2.prems"(2) that by (auto simp: wfOp_def take_bit_or)
  moreover have "wfOp (so\<lparr>soCondX := b\<rparr>)" "wfOp (so\<lparr>soSetid := b\<rparr>)" "wfOp (so\<lparr>soSticky := b\<rparr>)" for b
    using "2.prems"(2) by (simp_all add: wfOp_def)
  ultimately show ?case using 2 by (auto split: if_splits)
qed simp

lemma opLoop_wf: "opLoop who explicit cs = Some ops \<Longrightarrow> so \<in> set ops \<Longrightarrow> wfOp so \<and> isOp (soOp so)"
proof (induction who explicit cs arbitrary: ops rule: opLoop.induct)
  case (2 who explicit c cs)
  have n: "wfOp (newOp who explicit c)" "soOp (newOp who explicit c) = c" "wfOp ((newOp who explicit c)\<lparr>soCopy := x\<rparr>)" for x
    by (simp_all add: newOp_def wfOp_def)
  show ?case
  proof (cases "isCopy cs")
    case True
    then show ?thesis using 2 n by (auto split: if_splits)
  next
    case False
    then obtain so1 rest ops1 where "isOp c" "permLoop cs (newOp who explicit c) = Some (so1, rest)"
      "opLoop who explicit rest = Some ops1" "ops = so1 # ops1"
      using "2.prems"(1) by (auto split: if_splits option.splits)
    then show ?thesis using 2 False permLoop_wf [of cs _ so1 rest] n by auto
  qed
qed simp

lemma parseMode_wf:
  assumes "parseMode s = Some mc"
  shows "mcOctal mc \<Longrightarrow> mcVal mc < 0x1000" "so \<in> set (mcOps mc) \<Longrightarrow> wfOp so \<and> isOp (soOp so)"
proof -
  have small: "(of_nat n :: u32) < 0x1000" if "n \<le> 0xFFF" for n
    using that by (simp add: word_less_nat_alt unat_of_nat)
  show "mcVal mc < 0x1000" if "mcOctal mc"
    using assms that small by (auto simp: parseMode_def split: if_splits option.splits)
  have th: "those (map f xs) = Some yss \<Longrightarrow> ys \<in> set yss \<Longrightarrow> \<exists>x. f x = Some ys" for f :: "string \<Rightarrow> symOp list option" and xs yss ys
    by (induction xs arbitrary: yss) (auto split: option.splits)
  show "wfOp so \<and> isOp (soOp so)" if so: "so \<in> set (mcOps mc)"
  proof -
    obtain opss ops where "those (map parseClause (splitByte CHR '','' s)) = Some opss" "ops \<in> set opss" "so \<in> set ops"
      using assms so by (auto simp: parseMode_def split: if_splits option.splits)
    then obtain clause where "parseClause clause = Some ops" using th by blast
    then show ?thesis using opLoop_wf \<open>so \<in> set ops\<close> by (auto simp: parseClause_def split: prod.splits if_splits)
  qed
qed

section \<open>Properties\<close>

lemma foldl_spec:
  assumes "\<forall>so \<in> set ops. wfOp so"
  shows "absMode (foldl (applyOp old isDir um) cur ops) = foldl (specOp (absMode old) isDir (absMode um)) (absMode cur) ops"
  using assms by (induction ops arbitrary: cur) (auto simp: applyOp_spec)

text \<open>C8: The bits \<open>chmod\<close> computes for a symbolic mode are those of the specification over sets of permissions:
  each clause adds, removes or sets what it selects, a copy takes the permissions another class has at that point,
  \<open>X\<close> looks at the mode before the invocation, and a clause without classes leaves the bits of the mask alone.\<close>

theorem chmod_refines:
  assumes "parseMode s = Some mc" "\<not> mcOctal mc"
  shows "absMode (applyMode mc old isDir um) = foldl (specOp (absMode old) isDir (absMode um)) (absMode old) (mcOps mc)"
  using foldl_spec [of "mcOps mc"] parseMode_wf(2) [OF assms(1)] assms(2) by (simp add: applyMode_def)

theorem chmod_refines_witness:
  "parseMode ''u+x,g=u-w'' = Some (the (parseMode ''u+x,g=u-w'')) \<and>
   absMode (applyMode (the (parseMode ''u+x,g=u-w'')) 0x1A4 False 0x12) =
     foldl (specOp (absMode 0x1A4) False (absMode 0x12)) (absMode 0x1A4) (mcOps (the (parseMode ''u+x,g=u-w''))) \<and>
   applyMode (the (parseMode ''u+x,g=u-w'')) 0x1A4 False 0x12 = 0x1EC"
proof -
  have p: "parseMode ''u+x,g=u-w'' = Some (the (parseMode ''u+x,g=u-w''))"
    by code_simp
  have r: "applyMode (the (parseMode ''u+x,g=u-w'')) 0x1A4 False 0x12 = 0x1EC" by code_simp
  have "\<not> mcOctal (the (parseMode ''u+x,g=u-w''))" by code_simp
  then show ?thesis using p r chmod_refines [of "''u+x,g=u-w''" "the (parseMode ''u+x,g=u-w'')" "0x1A4" False "0x12"] by (metis option.sel)
qed

lemma small_mode: "(w :: u32) < 0x1000 \<longleftrightarrow> take_bit 12 w = w"
  by (simp add: word_unat_eq_iff unsigned_take_bit_eq take_bit_nat_eq_self_iff word_less_nat_alt)

lemma small_and_not: "take_bit 12 (c :: u32) = c \<Longrightarrow> take_bit 12 (c AND NOT x) = c AND NOT x"
  by (intro bit_eqI) (metis bit_and_iff bit_take_bit_iff)

lemma bitsOf_small: "take_bit 3 perm = perm \<Longrightarrow> take_bit 12 (bitsOf so perm um) = bitsOf so perm um"
proof -
  assume p: "take_bit 3 perm = perm"
  have lo: "bit perm k \<Longrightarrow> k < 3" for k using p by (metis bit_take_bit_iff)
  have "take_bit 12 (push_bit 6 perm) = push_bit 6 perm" by (rule bit_eqI) (auto simp: bit_simps dest: lo)
  moreover have "take_bit 12 (push_bit 3 perm) = push_bit 3 perm" by (rule bit_eqI) (auto simp: bit_simps dest: lo)
  moreover have "take_bit 12 perm = perm" by (rule bit_eqI) (auto simp: bit_simps dest: lo)
  ultimately show ?thesis by (simp add: bitsOf_def Let_def take_bit_or small_and_not del: take_bit_and)
qed

lemma applyOp_small:
  assumes "wfOp so" "take_bit 12 cur = cur" shows "take_bit 12 (applyOp old isDir um cur so) = applyOp old isDir um cur so"
  using assms bitsOf_small [OF permOf_small [OF assms(1)]] by (simp add: applyOp_def Let_def take_bit_or small_and_not del: take_bit_and)

text \<open>C21: Whatever mode string is accepted, the bits computed from a mode within \<open>07777\<close> are within \<open>07777\<close>.\<close>

theorem chmod_in_range:
  assumes "parseMode s = Some mc" "old < 0x1000"
  shows "applyMode mc old isDir um < 0x1000"
proof (cases "mcOctal mc")
  case False
  have "take_bit 12 (foldl (applyOp old isDir um) cur ops) = foldl (applyOp old isDir um) cur ops"
    if "take_bit 12 cur = cur" "\<forall>so \<in> set ops. wfOp so" for cur ops
    using that by (induction ops arbitrary: cur) (auto simp: applyOp_small)
  then show ?thesis using assms parseMode_wf(2) [OF assms(1)] False by (simp add: applyMode_def small_mode)
qed (use parseMode_wf(1) [OF assms(1)] in \<open>simp add: applyMode_def\<close>)

theorem chmod_in_range_witness:
  "parseMode ''a=rwxst'' = Some (the (parseMode ''a=rwxst'')) \<and> applyMode (the (parseMode ''a=rwxst'')) 0 True 0x12 < 0x1000 \<and>
   applyMode (the (parseMode ''a=rwxst'')) 0 True 0x12 = 0xFFF"
proof -
  have p: "parseMode ''a=rwxst'' = Some (the (parseMode ''a=rwxst''))" by code_simp
  have "applyMode (the (parseMode ''a=rwxst'')) 0 True 0x12 = 0xFFF" by code_simp
  then show ?thesis using p chmod_in_range [OF p, of 0 True "0x12"] by simp
qed

section \<open>Octal notation and \<open>os.FileMode\<close>\<close>

lemma and_permissions: "(w :: u32) AND 0x1FF = take_bit 9 w"
  by (simp add: take_bit_eq_mask mask_eq_exp_minus_1)

lemma fileModeToBits_small: "fileModeToBits m < 0x1000"
  unfolding small_mode by (simp add: fileModeToBits_def take_bit_or and_permissions)

lemma octalVal_snoc: "octalVal (s @ [c]) = 8 * octalVal s + digitVal c"
  by (simp add: octalVal_def)

lemma octalVal_digits: "octalVal (octalDigits n) = n"
proof (induction n rule: octalDigits.induct)
  case (1 n)
  then show ?case
    by (subst octalDigits.simps) (auto simp: octalVal_snoc digitVal_digitChar, simp add: octalVal_def digitVal_digitChar)
qed

lemma octalDigits_octal: "list_all isOctal (octalDigits n)"
proof (induction n rule: octalDigits.induct)
  case (1 n)
  have "isOctal (digitChar d)" if "d < 8" for d using that by (simp add: isOctal_def digitChar_def)
  then show ?case using 1 by (subst octalDigits.simps) auto
qed

lemma octalVal_padded: "octalVal (octalPadded width m) = unat m" "list_all isOctal (octalPadded width m)" "octalPadded width m \<noteq> []"
proof -
  have z: "octalVal (replicate k (CHR ''0'') @ s) = octalVal s" for k s
    by (induction k) (auto simp: octalVal_def digitVal_def)
  show "octalVal (octalPadded width m) = unat m" by (simp add: octalPadded_def Let_def z octalVal_digits)
  have "isOctal (CHR ''0'')" by (simp add: isOctal_def)
  then show "list_all isOctal (octalPadded width m)"
    using octalDigits_octal [of "unat m"] by (auto simp: octalPadded_def Let_def list_all_iff)
  have "octalDigits n \<noteq> []" for n by (subst octalDigits.simps) simp
  then show "octalPadded width m \<noteq> []" by (simp add: octalPadded_def Let_def)
qed

text \<open>C20: With \<open>--reference\<close> the mode of the reference file is printed as octal digits and parsed again: the mode
  each file gets is exactly the permission and special bits of the reference, whatever the file's own mode is.\<close>

theorem chmod_reference:
  "\<exists>mc. parseMode (octalPadded 5 (fileModeToBits m)) = Some mc \<and>
     (\<forall>old isDir um. applyMode mc old isDir um = fileModeToBits m)"
proof -
  have "unat (fileModeToBits m) \<le> 0xFFF" using fileModeToBits_small [of m] by (simp add: word_less_nat_alt)
  then show ?thesis by (simp add: parseMode_def octalVal_padded applyMode_def)
qed

lemma and_single:
  "(w :: u32) AND 0x200 \<noteq> 0 \<longleftrightarrow> bit w 9" "w AND 0x400 \<noteq> 0 \<longleftrightarrow> bit w 10" "w AND 0x800 \<noteq> 0 \<longleftrightarrow> bit w 11"
  "w AND 0x100000 \<noteq> 0 \<longleftrightarrow> bit w 20" "w AND 0x400000 \<noteq> 0 \<longleftrightarrow> bit w 22" "w AND 0x800000 \<noteq> 0 \<longleftrightarrow> bit w 23"
  using and_exp_eq_0_iff_not_bit [of w 9] and_exp_eq_0_iff_not_bit [of w 10] and_exp_eq_0_iff_not_bit [of w 11]
    and_exp_eq_0_iff_not_bit [of w 20] and_exp_eq_0_iff_not_bit [of w 22] and_exp_eq_0_iff_not_bit [of w 23] by simp_all

lemma bit_single: "bit (0x200 :: u32) n \<longleftrightarrow> n = 9" "bit (0x400 :: u32) n \<longleftrightarrow> n = 10" "bit (0x800 :: u32) n \<longleftrightarrow> n = 11"
proof -
  have "bit (2 ^ m :: u32) n \<longleftrightarrow> n = m" if "m < 32" for m
    using that by (auto simp: bit_exp_iff)
  from this [of 9] this [of 10] this [of 11]
  show "bit (0x200 :: u32) n \<longleftrightarrow> n = 9" "bit (0x400 :: u32) n \<longleftrightarrow> n = 10" "bit (0x800 :: u32) n \<longleftrightarrow> n = 11" by simp_all
qed

lemma bitsToFileMode_inverse:
  assumes "b < 0x1000" shows "fileModeToBits (bitsToFileMode b) = b"
proof -
  let ?m = "bitsToFileMode b"
  have hi: "bit ?m 20 \<longleftrightarrow> bit b 9" "bit ?m 22 \<longleftrightarrow> bit b 10" "bit ?m 23 \<longleftrightarrow> bit b 11"
    by (simp_all add: bitsToFileMode_def and_permissions and_single bit_simps)
  have lo: "?m AND 0x1FF = take_bit 9 b"
    by (simp add: bitsToFileMode_def and_permissions take_bit_or)
  have "take_bit 12 b = b" using assms by (simp add: small_mode)
  show ?thesis
  proof (rule bit_eqI)
    fix n :: nat
    have b12: "bit b n \<Longrightarrow> n < 12" using \<open>take_bit 12 b = b\<close> by (metis bit_take_bit_iff)
    consider "n < 9" | "n = 9" | "n = 10" | "n = 11" | "12 \<le> n" by linarith
    then show "bit (fileModeToBits ?m) n \<longleftrightarrow> bit b n"
      unfolding fileModeToBits_def lo and_single hi bit_or_iff bit_take_bit_iff if_distrib [of "\<lambda>w. bit w n"] bit_single
      by cases (use b12 in auto)
  qed
qed

section \<open>Dash operands\<close>

text \<open>The arguments before the mode are kept, the mode is taken out, and its place becomes the end of the options.\<close>

definition dashTaken :: "string list \<Rightarrow> string \<Rightarrow> string list \<Rightarrow> bool" where
  "dashTaken args mode rest \<longleftrightarrow> mode = [] \<and> rest = args \<or>
    (\<exists>pre post. args = pre @ mode # post \<and> hd mode = CHR ''-'' \<and> isModeBody (tl mode) \<and>
       rest = pre @ ''--'' # (if post \<noteq> [] \<and> hd post = ''--'' then tl post else post))"

lemma dashTaken_prepend: "dashTaken args mode rest \<Longrightarrow> dashTaken (ws @ args) mode (ws @ rest)"
  unfolding dashTaken_def by (metis append_assoc)

lemma extractDashMode_keeps: "extractDashMode args = (mode, rest) \<Longrightarrow> dashTaken args mode rest"
proof (induction args arbitrary: mode rest rule: extractDashMode.induct)
  case 1
  then show ?case by (simp add: dashTaken_def)
next
  case (2 a args)
  have step: "dashTaken (a # args) mode rest" if "extractDashMode args = (mode, r)" "rest = a # r"
    "dashTaken args mode r" for r
    using dashTaken_prepend [OF that(3), of "[a]"] that(2) by simp
  have step2: "dashTaken (a # v # args') mode rest" if "rest = a # v # r" "dashTaken args' mode r" for r v args'
    using dashTaken_prepend [OF that(2), of "[a, v]"] that(1) by simp
  consider "a = ''--'' \<or> (\<not> (hasPrefix a ''--'' \<and> length a > 2) \<and> \<not> (length a > 1 \<and> hd a = CHR ''-'' \<and> a ! 1 \<noteq> CHR ''-'' \<and> isModeBody (tl a)) \<and>
      (a = ''-'' \<or> \<not> hasPrefix a ''-''))"
    | "a \<noteq> ''--''" "hasPrefix a ''--'' \<and> length a > 2"
    | "a \<noteq> ''--''" "\<not> (hasPrefix a ''--'' \<and> length a > 2)" "length a > 1 \<and> hd a = CHR ''-'' \<and> a ! 1 \<noteq> CHR ''-'' \<and> isModeBody (tl a)"
    | "a \<noteq> ''--''" "\<not> (hasPrefix a ''--'' \<and> length a > 2)" "\<not> (length a > 1 \<and> hd a = CHR ''-'' \<and> a ! 1 \<noteq> CHR ''-'' \<and> isModeBody (tl a))"
      "\<not> (a = ''-'' \<or> \<not> hasPrefix a ''-'')" by blast
  then show ?case
  proof cases
    case 1
    then have "extractDashMode (a # args) = ([], a # args)" by auto
    then show ?thesis using "2.prems" by (simp add: dashTaken_def)
  next
    case 2
    obtain name hasValue where c: "cutEquals (drop 2 a) = (name, hasValue)" by force
    show ?thesis
    proof (cases "\<not> hasValue \<and> longOptionPrefix name ''reference''")
      case True
      show ?thesis
      proof (cases args)
        case Nil
        then show ?thesis using "2.prems" 2 c True by (simp add: dashTaken_def)
      next
        case (Cons v args')
        obtain m r where r: "extractDashMode args' = (m, r)" by force
        have "extractDashMode (a # args) = (m, a # v # r)" using 2 c True Cons r by simp
        with "2.prems" have "mode = m" "rest = a # v # r" by (metis prod.inject)+
        with "2.IH"(1) [OF 2(1,2) c [symmetric] True Cons r] step2 Cons show ?thesis by blast
      qed
    next
      case False
      obtain m r where r: "extractDashMode args = (m, r)" by force
      have "extractDashMode (a # args) = (m, a # r)" using 2 c False r by auto
      with "2.prems" have "mode = m" "rest = a # r" by (metis prod.inject)+
      with "2.IH"(2) [OF 2(1,2) c [symmetric] False r] step r show ?thesis by blast
    qed
  next
    case 3
    then have "extractDashMode (a # args) = (a, ''--'' # (if args \<noteq> [] \<and> hd args = ''--'' then tl args else args))" by auto
    then have "mode = a" "rest = [] @ ''--'' # (if args \<noteq> [] \<and> hd args = ''--'' then tl args else args)" using "2.prems" by auto
    then show ?thesis using 3(3) unfolding dashTaken_def by (metis append_Nil)
  next
    case 4
    obtain m r where r: "extractDashMode args = (m, r)" by force
    have "extractDashMode (a # args) = (m, a # r)" using 4 r by auto
    with "2.prems" have "mode = m" "rest = a # r" by (metis prod.inject)+
    with "2.IH"(3) [OF 4 r] step r show ?thesis by blast
  qed
qed

end
