(* ===== verification/Spec2Isabelle.thy ===== *)
theory Spec2Isabelle
  imports Ed_Roundtrip Diff_Findings Patch_Status Reject_Roundtrip Tsort_Correct Comm_Correct Chmod_Spec
begin

text \<open>
  A verification library for the \<open>coreutils\<close> repository (Go). It models five of its commands from their parsed options
  on: \<open>diff\<close> and \<open>patch\<close>, which share a notation and are verified together, and \<open>tsort\<close>, \<open>comm\<close> and the mode language
  of \<open>chmod\<close>. The properties are the theorems whose text starts with a claim number.

  \<^bold>\<open>Conventions.\<close> A Go \<open>string\<close> or \<open>[]byte\<close> is a \<^typ>\<open>string\<close> (a list of bytes). A struct is a \<open>record\<close>, an enumeration a
  \<open>datatype\<close>. A panic (an index out of range, a nil dereference) is \<^const>\<open>None\<close>; a returned error is the left side of a sum, or
  a value of an error type. Go's \<open>int\<close> is an \<^typ>\<open>int\<close>, wrapped to 64 bits (\<open>i64\<close> of \<open>Go_Prelude\<close>) where parsed numbers reach
  arithmetic; mode bits are 32-bit words. Regular expressions of the sources are hand-written recognisers. Code outside the
  repository enters as arguments: the opener of input files, the comparison of \<open>comm\<close>, the error of the final write.

  \<^bold>\<open>The language and its library.\<close> \<open>Go_Prelude\<close> (strings, lines, numbers), \<open>Go_Args\<close> (\<open>strconv.Atoi\<close>, \<open>filepath.Base\<close>,
  sorting), \<open>Go_Path\<close> (path cleaning and \<open>RunContext.Path\<close> of \<open>src/tool/tool.go\<close>: resolving twice changes nothing),
  \<open>Go_Heap\<close> (\<open>container/heap\<close> as an instance of the interface \<open>priority_queue\<close>), \<open>Go_Input\<close> (streams that arrive in pieces,
  buffered writers, usage errors of \<open>src/tool/flags.go\<close>).

  \<^bold>\<open>\<open>diff\<close>.\<close> \<open>Diff_Myers\<close> is \<open>src/cmds/diff/myers.go\<close>. \<open>Edit_Distance\<close> gives its specification; \<open>Bisect_Grid\<close>,
  \<open>Bisect_Rounds\<close> and \<open>Bisect_Meet\<close> show that the two searches of \<open>bisect\<close> stay inside their arrays and meet, and
  \<open>Myers_Script\<close> that the script returned is a shortest one. \<open>Diff_Groups\<close>, \<open>Diff_Emit\<close> and \<open>Diff_Compare\<close> are
  \<open>src/cmds/diff/diff.go\<close>: change groups, the five output formats, and the comparison of files and directories with the
  option scan. \<open>Diff_Correct\<close> shows that a comparison returns, that status \<open>0\<close> means equal under the options, and that
  the walk over two directories ends.

  \<^bold>\<open>\<open>patch\<close>.\<close> \<open>Patch_Types\<close>, \<open>Patch_Parse\<close>, \<open>Patch_Apply\<close>, \<open>Patch_Ifdef\<close>, \<open>Patch_Ed\<close> and \<open>Patch_Reject\<close> are the files of
  \<open>src/pkg/patch\<close>. \<open>Patch_World\<close> is the file system: a map from paths to entries, a log of the calls that change it, and
  oracles that let any call fail; \<open>Patch_File\<close> and \<open>Patch_Run\<close> are the command (\<open>src/cmds/patch/patch.go\<close>, \<open>runCore\<close> and what
  it calls). The lemmas show: hunks are placed without a panic and the output is the old file with the placed regions
  replaced (\<open>Patch_Apply\<close>); \<open>-D\<close> output preprocesses to either version (\<open>Patch_Ifdef\<close>); an existing file is never lost
  while it is replaced, whatever fails (\<open>Patch_Atomic\<close>); what a run may write, with \<open>-o\<close> and \<open>--dry-run\<close>
  (\<open>Patch_Commit\<close>, \<open>Patch_Status\<close>); what its exit status means (\<open>Patch_Status\<close>); and that a fitting patch leaves the new
  content (\<open>Patch_Applied\<close>).

  \<^bold>\<open>\<open>diff\<close> and \<open>patch\<close> together.\<close> \<open>Diff_Script\<close> says when hunks fit a pair of files. \<open>Patch_Notation\<close> has the interface
  \<open>diff_notation\<close> between a printer of hunks and \<open>patch\<close>, with the instances \<open>Notation_Unified\<close> and \<open>Notation_Normal\<close>;
  \<open>Diff_Unified\<close>, \<open>Diff_Normal\<close> and \<open>Ed_Roundtrip\<close> connect the emitters. The round trips for \<open>-u\<close> are below, those of the
  other formats in their theories. \<open>Reject_Roundtrip\<close> reads reject files back. \<open>Diff_Findings\<close> holds the inputs on which
  the way through \<open>patch\<close> goes wrong, each computed.

  \<^bold>\<open>\<open>tsort\<close>.\<close> \<open>Tsort\<close> is \<open>src/cmds/tsort/tsort.go\<close>. \<open>Tsort_Scan\<close>: the items do not depend on the pieces the input
  arrives in. \<open>Tsort_Cycle\<close>: the depth-first search returns and finds a loop when there is one. \<open>Tsort_Kahn\<close> is the
  specification, a machine with an invariant, and \<open>Tsort_Refine\<close> the simulation of it by \<open>topoSort\<close>, from which
  \<open>Tsort_Correct\<close> derives that a run ends with every item written once and in order.

  \<^bold>\<open>\<open>comm\<close>.\<close> \<open>Comm\<close> is \<open>src/cmds/comm/comm.go\<close>. \<open>Comm_Correct\<close>: the merge of two sorted files prints multiset differences
  and intersection, the order check is exact, and an early return loses buffered rows.

  \<^bold>\<open>\<open>chmod\<close>.\<close> \<open>Chmod_Mode\<close> is the mode language of \<open>src/cmds/chmod/chmod.go\<close> with the handling of dash operands and link
  options; \<open>Chmod_Spec\<close> shows that its bit arithmetic refines a specification over sets of permissions, that modes stay
  within \<open>07777\<close>, and that modes survive the ways through octal notation and \<open>os.FileMode\<close>.

  \<^bold>\<open>Termination.\<close> Loops are structural or have a proved measure. The two whose progress rests on an invariant, \<open>topoLoop\<close> and
  \<open>mergeLoop\<close>, are partial functions with values in \<open>option\<close>; \<open>tsort_writes_all\<close> and \<open>comm_columns\<close> state that the runs return.
  The walk of \<open>diff\<close> over directories returns where the directory paths are bounded, as \<open>dispatch_returns\<close> assumes.

  \<^bold>\<open>Not modelled.\<close> Option parsing by the package \<open>pflag\<close> (the models start at its result, and at the scans of the argument
  list the sources do themselves). Of \<open>diff\<close>: \<open>run\<close> and the path resolver. Of \<open>patch\<close>: the terminal device and the
  writer that remembers its first error. Of \<open>comm\<close>: the choice of a collator by locale; how much of the output a failing
  write has let through is not modelled for \<open>comm\<close> and \<open>tsort\<close>. Of \<open>chmod\<close>: \<open>run\<close>, and the walk over a hierarchy
  (\<open>chmod_apply.go\<close>, \<open>src/cmds/internal/hierwalk\<close>), which needs a file system with symbolic links and inode identity. The
  other commands and packages of the repository are independent of these five: some are system calls and reports of the
  kernel, some are interpreters (\<open>awk\<close>, \<open>sed\<close>, \<open>bc\<close>, \<open>ed\<close>, \<open>m4\<close>, \<open>make\<close>), some depend on locale data; the remaining text filters
  and encoders could be treated as \<open>comm\<close> is and are left out for size.
\<close>

section \<open>\<open>diff -u\<close> and \<open>patch\<close>\<close>

text \<open>C1: For two different text files and any context length, what \<open>diff -u\<close> prints, fed to \<open>patch\<close> on the old
  file, exits with status \<open>0\<close> and leaves the new file in its place, byte for byte (a missing final newline included) and
  with the mode of the old one. No other file changes, except that \<open>-b\<close> keeps the old content as a backup.\<close>

theorem diff_patch_roundtrip:
  assumes "loadSide env (envIn env) opts a = (Inr la, inp)" "loadSide env inp opts b = (Inr lb, inp')"
    "unifiedOptions opts" "textData (ldData la)" "textData (ldData lb)" "ldData la \<noteq> ldData lb"
    "headerField (ldName la) (ldStamp la)" "headerField (ldName lb) (ldStamp lb)"
    "patchable ctx f fs fn (ldData la) m" "plainFlags f" "\<not> fReverse f"
  shows "\<exists>out st'. compareFiles env opts a b False = Some (out, [], 1) \<and>
    runCore ctx f [fn] (Inr out) (startState fs tty) = Some (0, st') \<and>
    psFiles st' = patchedFiles ctx f fs fn (ldData la) (ldData lb) m"
proof -
  obtain out where "compareText opts la lb False = Some (out, [], 1)" "patches out (ldData la) (ldData lb)"
    using compareText_patched [OF assms(3-8)] by blast
  then show ?thesis using compareFiles_text [OF assms(1,2,4-6), of False] assms(9-11) unfolding patches_def by auto
qed

text \<open>C10: The same output, fed to \<open>patch -R\<close> on the new file, brings the old file back.\<close>

theorem diff_patch_reverse:
  assumes "loadSide env (envIn env) opts a = (Inr la, inp)" "loadSide env inp opts b = (Inr lb, inp')"
    "unifiedOptions opts" "textData (ldData la)" "textData (ldData lb)" "ldData la \<noteq> ldData lb"
    "headerField (ldName la) (ldStamp la)" "headerField (ldName lb) (ldStamp lb)"
    "patchable ctx f fs fn (ldData lb) m" "plainFlags f" "fReverse f"
  shows "\<exists>out st'. compareFiles env opts a b False = Some (out, [], 1) \<and>
    runCore ctx f [fn] (Inr out) (startState fs tty) = Some (0, st') \<and>
    psFiles st' = patchedFiles ctx f fs fn (ldData lb) (ldData la) m"
proof -
  obtain out where "compareText opts la lb False = Some (out, [], 1)" "unpatches out (ldData la) (ldData lb)"
    using compareText_patched [OF assms(3-8)] by blast
  then show ?thesis using compareFiles_text [OF assms(1,2,4-6), of False] assms(9-11) unfolding unpatches_def by auto
qed

section \<open>Witnesses\<close>

lemma demo_unified:
  "unifiedOptions demoU" "textData (ldData (demoSide ''a'' [''x'', ''y'']))" "textData (ldData (demoSide ''b'' [''x'', ''z'']))"
  "ldData (demoSide ''a'' [''x'', ''y'']) \<noteq> ldData (demoSide ''b'' [''x'', ''z''])"
  "headerField ''a'' ''t''" "headerField ''b'' ''t''"
  by code_simp+

theorem diff_patch_roundtrip_witness:
  "\<exists>out st'. compareFiles demoEnv demoU ''a'' ''b'' False = Some (out, [], 1) \<and>
    runCore demoCtx defaultFlags [''f''] (Inr out) (startState demoFiles []) = Some (0, st') \<and>
    psFiles st' = patchedFiles demoCtx defaultFlags demoFiles ''f'' (unlines [''x'', ''y'']) (unlines [''x'', ''z'']) 0x1A4"
  using diff_patch_roundtrip [OF demo_load(1,2) demo_unified(1-4), of demoCtx defaultFlags demoFiles "''f''" "0x1A4" "[]"]
    demo_unified(5,6) demo_patchable by (simp add: demoSide_def defaultFlags_def)

definition demoBack :: patchFlags where
  "demoBack = defaultFlags\<lparr>fReverse := True, fBackup := True\<rparr>"

definition demoNew :: files where
  "demoNew = [''f'' \<mapsto> FsFile (unlines [''x'', ''z'']) 0x1A4]"

theorem diff_patch_reverse_witness:
  "\<exists>out st'. compareFiles demoEnv demoU ''a'' ''b'' False = Some (out, [], 1) \<and>
    runCore demoCtx demoBack [''f''] (Inr out) (startState demoNew []) = Some (0, st') \<and>
    psFiles st' = patchedFiles demoCtx demoBack demoNew ''f'' (unlines [''x'', ''z'']) (unlines [''x'', ''y'']) 0x1A4"
proof -
  have "demoNew (resolveOperandPath demoCtx (fDirectory demoBack) ''f'') = Some (FsFile (unlines [''x'', ''z'']) 0x1A4)" "plainFlags demoBack"
    by code_simp+
  moreover have "finite (dom demoNew)" "healthy demoCtx" by (simp_all add: demoNew_def healthy_def demoCtx_def)
  ultimately have "patchable demoCtx demoBack demoNew ''f'' (ldData (demoSide ''b'' [''x'', ''z''])) 0x1A4" "plainFlags demoBack" "fReverse demoBack"
    using demoCtx_fresh(1) by (simp_all add: patchable_def demoSide_def demoBack_def)
  then show ?thesis
    using diff_patch_reverse [OF demo_load(1,2) demo_unified(1-4), of demoCtx demoBack demoNew "''f''" "0x1A4" "[]"] demo_unified(5,6)
    by (simp add: demoSide_def)
qed

end
